(* ===== verification/Rust_Prelude.thy ===== *)
theory Rust_Prelude
  imports Main "HOL-Library.Word"
begin

text \<open>
  The part of the Rust language and of its core library that every component uses: the machine
  integers, panics as values, arithmetic that panics on overflow (the kernel is built by
  \<^verbatim>\<open>cargo build\<close> with the development profile, where overflow checks are on), checked indexing
  of slices, integer ranges, and the sequencing of operations that may panic.

  A computation that may panic has type \<open>'a res\<close>: \<open>Inl\<close> carries the panic, \<open>Inr\<close> the value. A
  computation that also changes a state \<open>'s\<close> has type \<open>('s, 'a) eff\<close>.
\<close>

unbundle bit_operations_syntax

section \<open>Machine integers\<close>

type_synonym u8 = "8 word"
type_synonym u16 = "16 word"
type_synonym u32 = "32 word"
type_synonym u64 = "64 word"
type_synonym usize = "64 word"

named_theorems res_simps \<open>unfolding of the panic and effect combinators\<close>

section \<open>Panics\<close>

text \<open>
  Every way in which the kernel can panic: the arithmetic and index checks of the language,
  \<^verbatim>\<open>unwrap\<close>, \<^verbatim>\<open>expect\<close>, \<^verbatim>\<open>panic!\<close>, \<^verbatim>\<open>assert!\<close>, \<^verbatim>\<open>unreachable!\<close>, and a panic raised
  inside a crate the kernel calls. \<open>SpinsForever\<close> is the one way of not returning that is not a panic:
  waiting for a spin lock that only the waiting code itself could release.
\<close>

datatype panic =
    ArithmeticOverflow
  | IndexOutOfBounds
  | UnwrapFailed
  | Expect string
  | ExplicitPanic string
  | AssertFailed string
  | UnreachableCode
  | ForeignPanic
  | SpinsForever

type_synonym 'a res = "panic + 'a"

definition rbind :: "'a res \<Rightarrow> ('a \<Rightarrow> 'b res) \<Rightarrow> 'b res" where
  "rbind m f = (case m of Inl p \<Rightarrow> Inl p | Inr x \<Rightarrow> f x)"

definition rmap :: "('a \<Rightarrow> 'b) \<Rightarrow> 'a res \<Rightarrow> 'b res" where
  "rmap f m = (case m of Inl p \<Rightarrow> Inl p | Inr x \<Rightarrow> Inr (f x))"

definition unwrap :: "'a option \<Rightarrow> 'a res" where
  "unwrap x = (case x of None \<Rightarrow> Inl UnwrapFailed | Some v \<Rightarrow> Inr v)"

definition expect :: "string \<Rightarrow> 'a option \<Rightarrow> 'a res" where
  "expect msg x = (case x of None \<Rightarrow> Inl (Expect msg) | Some v \<Rightarrow> Inr v)"

text \<open>\<^verbatim>\<open>Result::expect\<close>: the error of the \<^verbatim>\<open>Result\<close> is itself a sum.\<close>

definition expect_ok :: "string \<Rightarrow> 'e + 'a \<Rightarrow> 'a res" where
  "expect_ok msg x = (case x of Inl _ \<Rightarrow> Inl (Expect msg) | Inr v \<Rightarrow> Inr v)"

text \<open>\<^verbatim>\<open>Result::unwrap\<close>.\<close>

definition unwrap_ok :: "'e + 'a \<Rightarrow> 'a res" where
  "unwrap_ok x = (case x of Inl _ \<Rightarrow> Inl UnwrapFailed | Inr v \<Rightarrow> Inr v)"

lemma rbind_simps [simp, res_simps]:
  "rbind (Inl p) f = Inl p" "rbind (Inr x) f = f x"
  by (simp_all add: rbind_def)

lemma rmap_simps [simp, res_simps]:
  "rmap f (Inl p) = Inl p" "rmap f (Inr x) = Inr (f x)"
  by (simp_all add: rmap_def)

lemma unwrap_simps [simp, res_simps]:
  "unwrap None = Inl UnwrapFailed" "unwrap (Some v) = Inr v"
  by (simp_all add: unwrap_def)

lemma expect_simps [simp, res_simps]:
  "expect msg None = Inl (Expect msg)" "expect msg (Some v) = Inr v"
  "expect_ok msg (Inl e) = Inl (Expect msg)" "expect_ok msg (Inr v) = Inr v"
  "unwrap_ok (Inl e) = Inl UnwrapFailed" "unwrap_ok (Inr v) = Inr v"
  by (simp_all add: expect_def expect_ok_def unwrap_ok_def)

lemma rbind_eq_Inr_iff: "rbind m f = Inr y \<longleftrightarrow> (\<exists>x. m = Inr x \<and> f x = Inr y)"
  by (cases m) auto

lemma rbind_eq_Inl_iff:
  "rbind m f = Inl p \<longleftrightarrow> m = Inl p \<or> (\<exists>x. m = Inr x \<and> f x = Inl p)"
  by (cases m) auto

lemma rmap_eq_Inr_iff: "rmap f m = Inr y \<longleftrightarrow> (\<exists>x. m = Inr x \<and> y = f x)"
  by (cases m) auto

lemma unwrap_eq_Inr_iff: "unwrap x = Inr v \<longleftrightarrow> x = Some v"
  by (cases x) auto

lemma expect_eq_Inr_iff: "expect msg x = Inr v \<longleftrightarrow> x = Some v"
  by (cases x) auto

lemma expect_ok_eq_Inr_iff: "expect_ok msg x = Inr v \<longleftrightarrow> x = Inr v"
  by (cases x) auto

lemmas res_iffs = rbind_eq_Inr_iff rmap_eq_Inr_iff unwrap_eq_Inr_iff expect_eq_Inr_iff
  expect_ok_eq_Inr_iff

lemma rbind_cong [fundef_cong]:
  "m = m' \<Longrightarrow> (\<And>x. m' = Inr x \<Longrightarrow> f x = g x) \<Longrightarrow> rbind m f = rbind m' g"
  by (cases m') auto

section \<open>Arithmetic with overflow checks\<close>

definition checked_add :: "'a::len word \<Rightarrow> 'a word \<Rightarrow> 'a word res" where
  "checked_add a b =
     (if unat a + unat b < 2 ^ LENGTH('a) then Inr (a + b) else Inl ArithmeticOverflow)"

definition checked_sub :: "'a::len word \<Rightarrow> 'a word \<Rightarrow> 'a word res" where
  "checked_sub a b = (if b \<le> a then Inr (a - b) else Inl ArithmeticOverflow)"

definition checked_mul :: "'a::len word \<Rightarrow> 'a word \<Rightarrow> 'a word res" where
  "checked_mul a b =
     (if unat a * unat b < 2 ^ LENGTH('a) then Inr (a * b) else Inl ArithmeticOverflow)"

lemma checked_add_eq_Inr_iff:
  fixes a b c :: "'a::len word"
  shows "checked_add a b = Inr c \<longleftrightarrow> unat a + unat b < 2 ^ LENGTH('a) \<and> c = a + b"
  by (auto simp: checked_add_def)

lemma checked_add_unat: "checked_add a b = Inr c \<Longrightarrow> unat c = unat a + unat b"
  by (auto simp: checked_add_def unat_word_ariths split: if_splits)

lemma checked_mul_unat: "checked_mul a b = Inr c \<Longrightarrow> unat c = unat a * unat b"
  by (auto simp: checked_mul_def unat_word_ariths split: if_splits)

lemma checked_sub_unat: "checked_sub a b = Inr c \<Longrightarrow> unat c = unat a - unat b"
  by (auto simp: checked_sub_def unat_sub split: if_splits)

section \<open>Bits\<close>

lemma bit_less_exp:
  fixes x :: "'a::len word"
  assumes "unat x < 2 ^ k" and "bit x n"
  shows "n < k"
proof -
  have "bit (unat x) n" using assms(2) by (auto simp: bit_unsigned_iff dest: bit_imp_le_length)
  moreover have "take_bit k (unat x) = unat x" using assms(1) by (simp add: take_bit_nat_eq_self)
  ultimately show ?thesis by (metis bit_take_bit_iff)
qed

lemma low_masks:
  "(3 :: 'a::len word) = mask 2" "(7 :: 'a::len word) = mask 3"
  "(0xF :: 'a::len word) = mask 4" "(0x1F :: 'a::len word) = mask 5" "(0xFF :: 'a::len word) = mask 8"
  "(0x3FF :: 'a::len word) = mask 10" "(0xFFFF :: 'a::len word) = mask 16"
  by (simp_all add: mask_eq_exp_minus_1)

lemma unat_ucast_u64 [simp]: "unat (ucast (x :: u32) :: u64) = unat x"
  by (simp add: unsigned_ucast_eq take_bit_nat_eq_self order_less_le_trans [OF unsigned_less])

lemma unat_u32_bound: "unat (x :: u32) < 2 ^ 32"
proof -
  have "unat x < 2 ^ LENGTH(32)" by (rule unsigned_less)
  then show ?thesis by simp
qed

text \<open>The two halves of a 64-bit value that is kept in two 32-bit registers.\<close>

lemma halves_join: "push_bit 32 (ucast (ucast (drop_bit 32 e) :: u32)) OR ucast (ucast e :: u32) = (e :: u64)"
  by (rule bit_word_eqI) (auto simp: bit_simps)

lemma join_halves:
  fixes hi lo :: u32
  shows "ucast (push_bit 32 (ucast hi) OR ucast lo :: u64) = lo"
    and "ucast (drop_bit 32 (push_bit 32 (ucast hi) OR ucast lo :: u64)) = hi"
proof -
  have out: "\<not> bit lo (n + 32)" for n using bit_imp_le_length [of lo "n + 32"] by auto
  show "ucast (push_bit 32 (ucast hi) OR ucast lo :: u64) = lo"
    by (rule bit_eqI) (auto simp: bit_simps)
  show "ucast (drop_bit 32 (push_bit 32 (ucast hi) OR ucast lo :: u64)) = hi"
    by (rule bit_eqI) (auto simp: bit_simps out add.commute)
qed

section \<open>Slices\<close>

definition index :: "'a list \<Rightarrow> usize \<Rightarrow> 'a res" where
  "index xs i = (if unat i < length xs then Inr (xs ! unat i) else Inl IndexOutOfBounds)"

definition index_set :: "'a list \<Rightarrow> usize \<Rightarrow> 'a \<Rightarrow> 'a list res" where
  "index_set xs i v =
     (if unat i < length xs then Inr (xs[unat i := v]) else Inl IndexOutOfBounds)"

text \<open>The slice \<^verbatim>\<open>&xs[..n]\<close>.\<close>

definition slice_to :: "'a list \<Rightarrow> usize \<Rightarrow> 'a list res" where
  "slice_to xs n = (if unat n \<le> length xs then Inr (take (unat n) xs) else Inl IndexOutOfBounds)"

lemma index_eq_Inr_iff: "index xs i = Inr v \<longleftrightarrow> unat i < length xs \<and> v = xs ! unat i"
  by (auto simp: index_def)

lemma index_set_eq_Inr_iff:
  "index_set xs i v = Inr ys \<longleftrightarrow> unat i < length xs \<and> ys = xs[unat i := v]"
  by (auto simp: index_set_def)

lemma unat_of_nat_usize: "k < 2 ^ 64 \<Longrightarrow> unat (word_of_nat k :: usize) = k"
  by (simp add: unsigned_of_nat take_bit_nat_eq_self)

lemma index_of_nat: "k < length xs \<Longrightarrow> k < 2 ^ 64 \<Longrightarrow> index xs (word_of_nat k) = Inr (xs ! k)"
  by (simp add: index_def unat_of_nat_usize)

lemma index_set_of_nat: "k < length xs \<Longrightarrow> k < 2 ^ 64 \<Longrightarrow> index_set xs (word_of_nat k) v = Inr (xs[k := v])"
  by (simp add: index_set_def unat_of_nat_usize)

lemma checked_sub_of_nat:
  assumes "0 < k" and "k < 2 ^ 64"
  shows "checked_sub (word_of_nat k) 1 = Inr (word_of_nat (k - 1) :: usize)"
proof -
  have "(1 :: usize) \<le> word_of_nat k" using assms by (simp add: word_le_nat_alt unat_of_nat_usize)
  moreover have "word_of_nat k - 1 = (word_of_nat (k - 1) :: usize)" using assms by (simp add: of_nat_diff)
  ultimately show ?thesis by (simp add: checked_sub_def)
qed

section \<open>Integer ranges\<close>

text \<open>
  \<open>urange a b\<close> is the range \<^verbatim>\<open>a..b\<close> of an unsigned type, \<open>urange_incl a b\<close> is \<^verbatim>\<open>a..=b\<close>,
  \<open>urange_step a b k\<close> is
  \<^verbatim>\<open>(a..b).step_by(k)\<close>.
\<close>

definition urange :: "'a::len word \<Rightarrow> 'a word \<Rightarrow> 'a word list" where
  "urange a b = map word_of_nat [unat a ..< unat b]"

definition urange_incl :: "'a::len word \<Rightarrow> 'a word \<Rightarrow> 'a word list" where
  "urange_incl a b = map word_of_nat [unat a ..< Suc (unat b)]"

definition urange_step :: "'a::len word \<Rightarrow> 'a word \<Rightarrow> nat \<Rightarrow> 'a word list" where
  "urange_step a b k =
     map (\<lambda>i. word_of_nat (unat a + i * k)) [0 ..< (unat b - unat a + k - 1) div k]"

lemma unat_of_nat_le_word:
  fixes b :: "'a::len word"
  shows "n \<le> unat b \<Longrightarrow> unat (word_of_nat n :: 'a word) = n"
  by (metis le_unat_uoi)

lemma map_unat_urange [simp]: "map unat (urange a b) = [unat a ..< unat b]"
  by (auto simp: urange_def intro!: map_idI unat_of_nat_le_word [of _ b])

lemma set_urange [simp]: "set (urange a b) = {i. a \<le> i \<and> i < b}"
proof (intro set_eqI)
  fix i :: "'a word"
  have "i \<in> set (urange a b) \<longleftrightarrow> unat i \<in> set (map unat (urange a b))"
    by (metis (no_types, lifting) image_iff list.set_map word_unat_eq_iff)
  then show "i \<in> set (urange a b) \<longleftrightarrow> i \<in> {i. a \<le> i \<and> i < b}"
    by (simp add: word_le_nat_alt word_less_nat_alt)
qed

lemma length_urange [simp]: "length (urange a b) = unat b - unat a"
  by (simp add: urange_def)

lemma distinct_urange [simp]: "distinct (urange a b)"
  using distinct_map [of unat "urange a b"] by simp

lemma sorted_urange [simp]: "sorted (urange a b)"
proof -
  have "sorted (map unat (urange a b))" by simp
  then show ?thesis
    unfolding sorted_map by (rule sorted_wrt_mono_rel [rotated]) (simp add: word_le_nat_alt)
qed

lemma map_unat_urange_incl [simp]: "map unat (urange_incl a b) = [unat a ..< Suc (unat b)]"
  by (auto simp: urange_incl_def simp del: upt_Suc intro!: map_idI unat_of_nat_le_word [of _ b])

lemma set_urange_incl [simp]: "set (urange_incl a b) = {i. a \<le> i \<and> i \<le> b}"
proof (intro set_eqI)
  fix i :: "'a word"
  have "i \<in> set (urange_incl a b) \<longleftrightarrow> unat i \<in> set (map unat (urange_incl a b))"
    by (metis (no_types, lifting) image_iff list.set_map word_unat_eq_iff)
  then show "i \<in> set (urange_incl a b) \<longleftrightarrow> i \<in> {i. a \<le> i \<and> i \<le> b}"
    by (simp add: word_le_nat_alt less_Suc_eq_le del: upt_Suc)
qed

lemma distinct_urange_incl [simp]: "distinct (urange_incl a b)"
  using distinct_map [of unat "urange_incl a b"] by (simp del: upt_Suc)

section \<open>Loops\<close>

text \<open>
  A \<^verbatim>\<open>for\<close> loop whose body changes a state and may panic, and the iterator method
  \<^verbatim>\<open>map(f).nth(n)\<close>, which runs \<open>f\<close> on every element up to the one it returns.
\<close>

primrec for_each :: "('x \<Rightarrow> 's \<Rightarrow> 's res) \<Rightarrow> 'x list \<Rightarrow> 's \<Rightarrow> 's res" where
  "for_each f [] s = Inr s"
| "for_each f (x # xs) s = rbind (f x s) (for_each f xs)"

fun map_nth :: "('a \<Rightarrow> 'b res) \<Rightarrow> 'a list \<Rightarrow> nat \<Rightarrow> 'b option res" where
  "map_nth f [] n = Inr None"
| "map_nth f (x # xs) 0 = rmap Some (f x)"
| "map_nth f (x # xs) (Suc n) = rbind (f x) (\<lambda>_. map_nth f xs n)"

lemma for_each_append:
  "for_each f (xs @ ys) s = rbind (for_each f xs s) (for_each f ys)"
proof (induction xs arbitrary: s)
  case (Cons x xs)
  then show ?case by (cases "f x s") auto
qed simp

lemma for_each_invariant:
  assumes "for_each f xs s = Inr s'" and "P s"
    and "\<And>x t t'. x \<in> set xs \<Longrightarrow> P t \<Longrightarrow> f x t = Inr t' \<Longrightarrow> P t'"
  shows "P s'"
  using assms
proof (induction xs arbitrary: s)
  case (Cons x xs)
  then show ?case by (auto simp: res_iffs)
qed simp

lemma for_each_total:
  assumes "P s" and "\<And>x t. x \<in> set xs \<Longrightarrow> P t \<Longrightarrow> \<exists>t'. f x t = Inr t' \<and> P t'"
  shows "\<exists>s'. for_each f xs s = Inr s' \<and> P s'"
  using assms
proof (induction xs arbitrary: s)
  case (Cons x xs)
  then obtain t where "f x s = Inr t" "P t" by fastforce
  with Cons show ?case by fastforce
qed simp

lemma for_each_union:
  assumes "for_each f xs s = Inr s'"
    and "\<And>x t t'. x \<in> set xs \<Longrightarrow> f x t = Inr t' \<Longrightarrow> g t' = S x \<union> g t"
  shows "g s' = (\<Union>x \<in> set xs. S x) \<union> g s"
  using assms
proof (induction xs arbitrary: s)
  case (Cons x xs)
  then obtain t where t: "f x s = Inr t" "for_each f xs t = Inr s'" by (auto simp: res_iffs)
  with Cons have "g s' = (\<Union>x \<in> set xs. S x) \<union> g t" by auto
  with Cons.prems(2) [OF _ t(1)] show ?case by auto
qed simp

text \<open>A loop over a range whose state after each element is known.\<close>

lemma for_each_upt:
  assumes "a \<le> n" and "\<And>k. a \<le> k \<Longrightarrow> k < n \<Longrightarrow> f (h k) (S k) = Inr (S (Suc k))"
  shows "for_each f (map h [a ..< n]) (S a) = Inr (S n)"
  using assms
proof (induction n)
  case (Suc n)
  then show ?case by (cases "a \<le> n") (auto simp: for_each_append le_Suc_eq)
qed simp

lemma fold_append: "fold (\<lambda>x acc. acc @ h x) xs acc = acc @ concat (map h xs)"
  by (induction xs arbitrary: acc) simp_all

lemma map_nth_pure:
  "(\<And>x. x \<in> set xs \<Longrightarrow> f (h x) = Inr (g x)) \<Longrightarrow>
     map_nth f (map h xs) n = Inr (if n < length xs then Some (g (xs ! n)) else None)"
proof (induction xs arbitrary: n)
  case (Cons x xs)
  then show ?case by (cases n) auto
qed simp

section \<open>Operations on a state that may panic\<close>

type_synonym ('s, 'a) eff = "'s \<Rightarrow> ('a \<times> 's) res"

definition ret :: "'a \<Rightarrow> ('s, 'a) eff" where
  "ret x = (\<lambda>s. Inr (x, s))"

definition bnd :: "('s, 'a) eff \<Rightarrow> ('a \<Rightarrow> ('s, 'b) eff) \<Rightarrow> ('s, 'b) eff" where
  "bnd m f = (\<lambda>s. rbind (m s) (\<lambda>(x, s'). f x s'))"

definition lift_res :: "'a res \<Rightarrow> ('s, 'a) eff" where
  "lift_res m = (\<lambda>s. rmap (\<lambda>x. (x, s)) m)"

primrec seq :: "('s, unit) eff list \<Rightarrow> ('s, unit) eff" where
  "seq [] = ret ()"
| "seq (m # ms) = bnd m (\<lambda>_. seq ms)"

primrec for_eff :: "('x \<Rightarrow> ('s, unit) eff) \<Rightarrow> 'x list \<Rightarrow> ('s, unit) eff" where
  "for_eff f [] = ret ()"
| "for_eff f (x # xs) = bnd (f x) (\<lambda>_. for_eff f xs)"

lemma ret_run [simp, res_simps]: "ret x s = Inr (x, s)"
  by (simp add: ret_def)

lemma bnd_run [res_simps]: "bnd m f s = rbind (m s) (\<lambda>(x, s'). f x s')"
  by (simp add: bnd_def)

lemma lift_res_run [simp, res_simps]:
  "lift_res (Inl p) s = Inl p" "lift_res (Inr x) s = Inr (x, s)"
  by (simp_all add: lift_res_def)

lemma bnd_eq_Inr_iff:
  "bnd m f s = Inr (y, t) \<longleftrightarrow> (\<exists>x u. m s = Inr (x, u) \<and> f x u = Inr (y, t))"
  by (auto simp: bnd_run res_iffs)

lemma lift_res_eq_Inr_iff: "lift_res m s = Inr (x, t) \<longleftrightarrow> m = Inr x \<and> t = s"
  by (cases m) auto

section \<open>Formatted output\<close>

text \<open>The bytes of an ASCII literal, and the \<^verbatim>\<open>Display\<close> and \<^verbatim>\<open>{:#X}\<close> forms of an integer.\<close>

definition bytes :: "string \<Rightarrow> u8 list" where
  "bytes s = map (\<lambda>c. word_of_nat (of_char c)) s"

fun digits :: "nat \<Rightarrow> nat \<Rightarrow> nat list" where
  "digits base n = (if n < base \<or> base < 2 then [n] else digits base (n div base) @ [n mod base])"

declare digits.simps [simp del]

definition decimal :: "nat \<Rightarrow> u8 list" where
  "decimal n = map (\<lambda>d. word_of_nat (48 + d)) (digits 10 n)"

definition upper_hex :: "nat \<Rightarrow> u8 list" where
  "upper_hex n =
     bytes ''0x'' @ map (\<lambda>d. word_of_nat (if d < 10 then 48 + d else 55 + d)) (digits 16 n)"

text \<open>
  A \<^verbatim>\<open>fmt::Arguments\<close> value is the list of the pieces it writes. \<^verbatim>\<open>write_fmt\<close> hands them to \<^verbatim>\<open>write_str\<close>
  in order and stops at the first error, \<open>Inl ()\<close>.
\<close>

type_synonym fmt_result = "unit + unit"

primrec write_fmt :: "('p \<Rightarrow> ('s, fmt_result) eff) \<Rightarrow> 'p list \<Rightarrow> ('s, fmt_result) eff" where
  "write_fmt write_str [] = ret (Inr ())"
| "write_fmt write_str (p # ps) =
     bnd (write_str p) (\<lambda>r. case r of Inl e \<Rightarrow> ret (Inl e) | Inr _ \<Rightarrow> write_fmt write_str ps)"

lemma write_fmt_total:
  assumes "P acc s" and "\<And>p acc s. P acc s \<Longrightarrow> \<exists>s'. write_str p s = Inr (Inr (), s') \<and> P (acc @ p) s'"
  shows "\<exists>s'. write_fmt write_str ps s = Inr (Inr (), s') \<and> P (acc @ concat ps) s'"
  using assms(1)
proof (induction ps arbitrary: acc s)
  case (Cons p ps)
  obtain t where "write_str p s = Inr (Inr (), t)" "P (acc @ p) t" using assms(2) [OF Cons.prems] by blast
  with Cons.IH [of "acc @ p" t] show ?case by (simp add: bnd_run)
qed simp

end
