(* ===== verification/Paging_Interface.thy ===== *)
theory Paging_Interface
  imports Rust_Prelude
begin

text \<open>
  What the kernel uses of the crates \<^verbatim>\<open>bootloader\<close> and \<^verbatim>\<open>x86_64\<close>, which are not part of the
  repository. Their data is modelled as the kernel sees it; their functions are the fields of the
  record \<open>crates\<close>, an argument of every definition that calls them, and \<open>crates_ok\<close> states their
  documented behaviour. A \<^verbatim>\<open>PhysFrame\<close> and a \<^verbatim>\<open>Page\<close> are represented by their start address, a
  \<^verbatim>\<open>PhysAddr\<close> and a \<^verbatim>\<open>VirtAddr\<close> by the address.

  The trait \<^verbatim>\<open>FrameAllocator\<close> is the locale \<open>frame_source\<close>: the kernel implements it twice, and
  the page table code and \<^verbatim>\<open>map_range\<close> are its clients.
\<close>

section \<open>Memory map of the boot loader\<close>

datatype MemoryRegionType =
    Usable | Reserved | AcpiReclaimable | FrameZero | KernelStack | OtherRegion nat

record FrameRange =
  start_frame_number :: u64
  end_frame_number :: u64

record MemoryRegion =
  region_range :: FrameRange
  region_type :: MemoryRegionType

type_synonym MemoryMap = "MemoryRegion list"

section \<open>Addresses, frames and pages\<close>

record crates =
  start_addr :: "FrameRange \<Rightarrow> u64"
  end_addr :: "FrameRange \<Rightarrow> u64"
  PhysAddr_new :: "u64 \<Rightarrow> u64 res"
  VirtAddr_new :: "u64 \<Rightarrow> u64 res"
  VirtAddr_add :: "u64 \<Rightarrow> u64 \<Rightarrow> u64 res"
  VirtAddr_sub :: "u64 \<Rightarrow> u64 \<Rightarrow> u64 res"
  containing_address :: "u64 \<Rightarrow> u64"
  from_start_address :: "u64 \<Rightarrow> u64 option"
  range_exclusive :: "u64 \<Rightarrow> u64 \<Rightarrow> u64 list"
  range_inclusive :: "u64 \<Rightarrow> u64 \<Rightarrow> u64 list"

text \<open>The number of 4 KiB frame or page at an address, and the address of a number.\<close>

definition frame_no :: "u64 \<Rightarrow> nat" where
  "frame_no a = unat a div 4096"

definition frame_addr :: "nat \<Rightarrow> u64" where
  "frame_addr n = word_of_nat (4096 * n)"

definition aligned :: "u64 \<Rightarrow> bool" where
  "aligned a \<longleftrightarrow> 4096 dvd unat a"

text \<open>
  The documented behaviour: \<open>start_addr\<close> and \<open>end_addr\<close> give the addresses of a frame range,
  \<^verbatim>\<open>PhysAddr::new\<close> panics unless bits 52 to 63 are clear, \<^verbatim>\<open>VirtAddr::new\<close> accepts the
  canonical lower half, \<^verbatim>\<open>containing_address\<close> rounds down to 4 KiB, \<^verbatim>\<open>from_start_address\<close> fails
  on an address that is not aligned, and the two kinds of ranges list the frames or pages in
  ascending order without and with the end.
\<close>

definition crates_ok :: "crates \<Rightarrow> bool" where
  "crates_ok E \<longleftrightarrow>
     (\<forall>r. start_addr E r = start_frame_number r * 4096) \<and>
     (\<forall>r. end_addr E r = end_frame_number r * 4096) \<and>
     (\<forall>a. PhysAddr_new E a = (if unat a < 2 ^ 52 then Inr a else Inl ForeignPanic)) \<and>
     (\<forall>a. unat a < 2 ^ 47 \<longrightarrow> VirtAddr_new E a = Inr a) \<and>
     (\<forall>a b. unat a + unat b < 2 ^ 47 \<longrightarrow> VirtAddr_add E a b = Inr (a + b)) \<and>
     (\<forall>a b. b \<le> a \<and> unat a < 2 ^ 47 \<longrightarrow> VirtAddr_sub E a b = Inr (a - b)) \<and>
     (\<forall>a. containing_address E a = frame_addr (frame_no a)) \<and>
     (\<forall>a. from_start_address E a = (if aligned a then Some a else None)) \<and>
     (\<forall>a b. aligned a \<and> aligned b \<longrightarrow>
        range_exclusive E a b = map frame_addr [frame_no a ..< frame_no b]) \<and>
     (\<forall>a b. aligned a \<and> aligned b \<longrightarrow>
        range_inclusive E a b =
          map frame_addr [frame_no a ..< Suc (frame_no b)])"

text \<open>A concrete instance, on which closed examples are evaluated.\<close>

definition std_crates :: crates where
  "std_crates =
     \<lparr>start_addr = (\<lambda>r. start_frame_number r * 4096),
      end_addr = (\<lambda>r. end_frame_number r * 4096),
      PhysAddr_new = (\<lambda>a. if unat a < 2 ^ 52 then Inr a else Inl ForeignPanic),
      VirtAddr_new = (\<lambda>a. if unat a < 2 ^ 47 then Inr a else Inl ForeignPanic),
      VirtAddr_add = (\<lambda>a b. if unat a + unat b < 2 ^ 47 then Inr (a + b) else Inl ForeignPanic),
      VirtAddr_sub = (\<lambda>a b. if b \<le> a \<and> unat a < 2 ^ 47 then Inr (a - b) else Inl ForeignPanic),
      containing_address = (\<lambda>a. frame_addr (frame_no a)),
      from_start_address = (\<lambda>a. if aligned a then Some a else None),
      range_exclusive = (\<lambda>a b. map frame_addr [frame_no a ..< frame_no b]),
      range_inclusive =
        (\<lambda>a b. map frame_addr [frame_no a ..< Suc (frame_no b)])\<rparr>"

lemma std_crates_ok: "crates_ok std_crates"
  by (simp add: crates_ok_def std_crates_def)

lemma crates_okD:
  assumes "crates_ok E"
  shows crates_start_addr: "start_addr E r = start_frame_number r * 4096"
    and crates_end_addr: "end_addr E r = end_frame_number r * 4096"
    and crates_PhysAddr_new:
      "PhysAddr_new E a = (if unat a < 2 ^ 52 then Inr a else Inl ForeignPanic)"
    and crates_VirtAddr_new: "unat a < 2 ^ 47 \<Longrightarrow> VirtAddr_new E a = Inr a"
    and crates_VirtAddr_add: "unat a + unat b < 2 ^ 47 \<Longrightarrow> VirtAddr_add E a b = Inr (a + b)"
    and crates_VirtAddr_sub: "b \<le> a \<Longrightarrow> unat a < 2 ^ 47 \<Longrightarrow> VirtAddr_sub E a b = Inr (a - b)"
    and crates_containing: "containing_address E a = frame_addr (frame_no a)"
    and crates_from_start: "from_start_address E a = (if aligned a then Some a else None)"
    and crates_range_exclusive: "aligned a \<Longrightarrow> aligned b \<Longrightarrow>
      range_exclusive E a b = map frame_addr [frame_no a ..< frame_no b]"
    and crates_range_inclusive: "aligned a \<Longrightarrow> aligned b \<Longrightarrow>
      range_inclusive E a b = map frame_addr [frame_no a ..< Suc (frame_no b)]"
  using assms by (auto simp: crates_ok_def simp del: upt_Suc)

lemma unat_frame_addr [simp]: "n < 2 ^ 52 \<Longrightarrow> unat (frame_addr n) = 4096 * n"
  unfolding frame_addr_def by (subst unat_of_nat) simp

lemma frame_no_bound: "frame_no a < 2 ^ 52"
proof -
  have "unat a < 2 ^ 64" using unsigned_less [of a] by simp
  then show ?thesis by (simp add: frame_no_def)
qed

lemma frame_no_addr [simp]: "n < 2 ^ 52 \<Longrightarrow> frame_no (frame_addr n) = n"
  unfolding frame_no_def by simp

lemma aligned_addr [simp]: "n < 2 ^ 52 \<Longrightarrow> aligned (frame_addr n)"
  unfolding aligned_def by simp

lemma unat_frame_start [simp]: "unat (frame_addr (frame_no a)) = 4096 * frame_no a"
  by (rule unat_frame_addr [OF frame_no_bound])

lemma frame_no_start [simp]: "frame_no (frame_addr (frame_no a)) = frame_no a"
  by (rule frame_no_addr [OF frame_no_bound])

lemma aligned_start [simp]: "aligned (frame_addr (frame_no a))"
  by (rule aligned_addr [OF frame_no_bound])

lemma aligned_eqI: "aligned a \<Longrightarrow> frame_addr (frame_no a) = a"
  by (auto simp: aligned_def frame_no_def word_unat_eq_iff [of "frame_addr _"]
      unat_frame_start [unfolded frame_no_def])

lemma frame_addr_div: "n < 2 ^ 52 \<Longrightarrow> frame_addr n div 0x1000 = word_of_nat n"
  by (simp add: word_unat_eq_iff unat_div_distrib unat_of_nat)

lemma unat_div_page: "unat (a div 0x1000 :: u64) = frame_no a"
  by (simp add: unat_div_distrib frame_no_def)

lemma frame_addr_inj: "m < 2 ^ 52 \<Longrightarrow> n < 2 ^ 52 \<Longrightarrow> frame_addr m = frame_addr n \<longleftrightarrow> m = n"
  by (metis frame_no_addr)

section \<open>Page tables\<close>

datatype PageTableFlag = PRESENT | WRITABLE | NO_CACHE | WRITE_THROUGH

datatype MapToError = FrameAllocationFailed | ParentEntryHugePage | PageAlreadyMapped u64

datatype UnmapError = UnmapParentEntryHugePage | PageNotMapped | InvalidFrameAddress u64

text \<open>
  A frame allocator returns a frame or \<^verbatim>\<open>None\<close> and changes its state. \<^verbatim>\<open>Mapper::map_to\<close> is a
  function of the allocator it draws page table frames from, the page, the frame, the flags, the
  page tables and the allocator's state.
\<close>

type_synonym 'al alloc_fn = "'al \<Rightarrow> (u64 option \<times> 'al) res"

type_synonym ('m, 'al) map_to_fn =
  "'al alloc_fn \<Rightarrow> u64 \<Rightarrow> u64 \<Rightarrow> PageTableFlag set \<Rightarrow> 'm \<Rightarrow> 'al \<Rightarrow>
     ((MapToError + unit) \<times> 'm \<times> 'al) res"

text \<open>\<open>alloc_run alloc a fs a'\<close>: some calls of the allocator lead from \<open>a\<close> to \<open>a'\<close> and hand out
  the frames \<open>fs\<close>, in this order.\<close>

inductive alloc_run :: "'al alloc_fn \<Rightarrow> 'al \<Rightarrow> u64 list \<Rightarrow> 'al \<Rightarrow> bool"
  for alloc :: "'al alloc_fn" where
  run_done: "alloc_run alloc a [] a"
| run_some: "alloc a = Inr (Some f, b) \<Longrightarrow> alloc_run alloc b fs c \<Longrightarrow> alloc_run alloc a (f # fs) c"
| run_none: "alloc a = Inr (None, b) \<Longrightarrow> alloc_run alloc b fs c \<Longrightarrow> alloc_run alloc a fs c"

lemma alloc_run_append:
  "alloc_run alloc a fs b \<Longrightarrow> alloc_run alloc b gs c \<Longrightarrow> alloc_run alloc a (fs @ gs) c"
  by (induction rule: alloc_run.induct) (auto intro: alloc_run.intros)

lemma alloc_run_single: "alloc a = Inr (Some f, b) \<Longrightarrow> alloc_run alloc a [f] b"
  by (auto intro: alloc_run.intros)

lemma alloc_run_preserves:
  assumes "alloc_run alloc a fs b" and "P a"
    and "\<And>a r b. P a \<Longrightarrow> alloc a = Inr (r, b) \<Longrightarrow> P b"
  shows "P b"
  using assms by (induction rule: alloc_run.induct) auto

text \<open>
  The documented behaviour of \<^verbatim>\<open>map_to\<close>: it changes the allocator only by asking it for
  frames, at most three of them (one per missing table below the fourth level).
\<close>

definition map_to_draws :: "('m, 'al) map_to_fn \<Rightarrow> bool" where
  "map_to_draws mt \<longleftrightarrow>
     (\<forall>alloc page frame flags m a r m' a'. mt alloc page frame flags m a = Inr (r, m', a') \<longrightarrow>
        (\<exists>fs. alloc_run alloc a fs a' \<and> length fs \<le> 3))"

lemma map_to_drawsE:
  assumes "map_to_draws mt" and "mt alloc page frame flags m a = Inr (r, m', a')"
  obtains fs where "alloc_run alloc a fs a'" and "length fs \<le> 3"
  using assms unfolding map_to_draws_def by blast

text \<open>
  A concrete instance for closed examples: the page tables are a finite map from pages to frames,
  and every mapping takes one table frame from the allocator.
\<close>

definition flat_map_to :: "(u64 \<rightharpoonup> u64, 'al) map_to_fn" where
  "flat_map_to alloc page frame flags m a =
     (case m page of
        Some f \<Rightarrow> Inr (Inl (PageAlreadyMapped f), m, a)
      | None \<Rightarrow> rbind (alloc a) (\<lambda>(t, a').
          case t of
            None \<Rightarrow> Inr (Inl FrameAllocationFailed, m, a')
          | Some _ \<Rightarrow> Inr (Inr (), m(page \<mapsto> frame), a')))"

lemma flat_map_to_draws: "map_to_draws flat_map_to"
  unfolding map_to_draws_def
proof (intro allI impI)
  fix alloc page frame flags m a r m' and a' :: 'al
  assume "flat_map_to alloc page frame flags m a = Inr (r, m', a')"
  then consider "a' = a" | f where "alloc a = Inr (Some f, a')" | "alloc a = Inr (None, a')"
    by (auto simp: flat_map_to_def res_iffs split: option.splits)
  then obtain fs where "alloc_run alloc a fs a'" "fs = [] \<or> length fs = 1"
    by cases (auto intro: alloc_run.intros dest: alloc_run_single alloc_run.run_none [OF _ run_done])
  then show "\<exists>fs. alloc_run alloc a fs a' \<and> length fs \<le> 3" by fastforce
qed

section \<open>The contract of a frame allocator\<close>

text \<open>
  \<open>avail a\<close> is the set of frames the allocator can still hand out: a call takes one of them, or
  there is none left, and it never panics in a good state.
\<close>

locale frame_source =
  fixes alloc :: "'al alloc_fn"
    and good :: "'al \<Rightarrow> bool"
    and avail :: "'al \<Rightarrow> u64 set"
  assumes alloc_some:
    "good a \<Longrightarrow> alloc a = Inr (Some f, b) \<Longrightarrow> good b \<and> f \<in> avail a \<and> avail b = avail a - {f}"
    and alloc_none:
    "good a \<Longrightarrow> alloc a = Inr (None, b) \<Longrightarrow> good b \<and> avail a = {} \<and> avail b = {}"
    and alloc_total: "good a \<Longrightarrow> \<exists>r b. alloc a = Inr (r, b)"
begin

lemma run_frames:
  assumes "alloc_run alloc a fs b" and "good a"
  shows "good b \<and> distinct fs \<and> set fs \<subseteq> avail a \<and> avail b = avail a - set fs"
  using assms
proof (induction rule: alloc_run.induct)
  case (run_some a f b fs c)
  with alloc_some [OF run_some.prems run_some.hyps(1)] show ?case by auto
next
  case (run_none a b fs c)
  with alloc_none [OF run_none.prems run_none.hyps(1)] show ?case by auto
qed auto

lemma alloc_progress:
  assumes "good a" and "avail a \<noteq> {}"
  obtains f b where "alloc a = Inr (Some f, b)"
proof -
  obtain r b where r: "alloc a = Inr (r, b)"
    using alloc_total [OF assms(1)] by blast
  have "r \<noteq> None" using r assms alloc_none [of a b] by auto
  with r that show thesis by auto
qed

end

end
