(* ===== verification/Frame_Allocator.thy ===== *)
theory Frame_Allocator
  imports Paging_Interface
begin

text \<open>
  \<^verbatim>\<open>src/memory/frame_allocator/mod.rs\<close> without its constructor: the frame bitmap and the
  operations of \<^verbatim>\<open>GlobalFrameAllocator\<close>. The bitmap operations are an instance of the locale
  \<open>bit_store\<close>, the allocator is an instance of \<open>frame_source\<close>.
\<close>

section \<open>State and operations\<close>

definition BITMAP_START :: u64 where
  "BITMAP_START = 0x666666660000"

record GlobalFrameAllocator =
  memory_map :: MemoryMap
  next_usable :: u64
  bitmap :: "u32 list"

definition frame_idx_to_parts :: "u64 \<Rightarrow> usize \<times> u32" where
  "frame_idx_to_parts idx =
     (let int = idx div 32;
          bit = (ucast idx :: u32) mod 32
      in (int, push_bit (unat bit) 1))"

definition is_used :: "GlobalFrameAllocator \<Rightarrow> u64 \<Rightarrow> bool res" where
  "is_used self idx =
     (let (int, mask) = frame_idx_to_parts idx
      in rmap (\<lambda>w. w AND mask \<noteq> 0) (index (bitmap self) int))"

definition frame_in_use :: "GlobalFrameAllocator \<Rightarrow> u64 \<Rightarrow> bool res" where
  "frame_in_use self frame = is_used self (frame div 0x1000)"

definition mark_used :: "u64 \<Rightarrow> GlobalFrameAllocator \<Rightarrow> GlobalFrameAllocator res" where
  "mark_used idx self =
     (let (int, mask) = frame_idx_to_parts idx
      in rbind (index (bitmap self) int) (\<lambda>w.
         rmap (\<lambda>bm. self\<lparr>bitmap := bm\<rparr>) (index_set (bitmap self) int (w OR mask))))"

definition mark_unused :: "u64 \<Rightarrow> GlobalFrameAllocator \<Rightarrow> GlobalFrameAllocator res" where
  "mark_unused idx self =
     (let (int, mask) = frame_idx_to_parts idx
      in rbind (index (bitmap self) int) (\<lambda>w.
         rmap (\<lambda>bm. self\<lparr>bitmap := bm\<rparr>) (index_set (bitmap self) int (w AND NOT mask))))"

definition get_frame_ty :: "crates \<Rightarrow> GlobalFrameAllocator \<Rightarrow> u64 \<Rightarrow> MemoryRegionType option" where
  "get_frame_ty E self frame =
     map_option region_type
       (find (\<lambda>v. frame \<le> start_addr E (region_range v) \<and> frame < end_addr E (region_range v))
         (memory_map self))"

definition usable_frames :: "MemoryMap \<Rightarrow> u64 list" where
  "usable_frames mm =
     concat (map (\<lambda>r. urange (start_frame_number (region_range r))
                              (end_frame_number (region_range r)))
       (filter (\<lambda>r. region_type r = Usable) mm))"

fun find_unused :: "GlobalFrameAllocator \<Rightarrow> u64 list \<Rightarrow> u64 option res" where
  "find_unused self [] = Inr None"
| "find_unused self (i # iter) =
     rbind (is_used self i) (\<lambda>used. if \<not> used then Inr (Some i) else find_unused self iter)"

definition recalculate_next_usable ::
    "GlobalFrameAllocator \<Rightarrow> (bool \<times> GlobalFrameAllocator) res" where
  "recalculate_next_usable self =
     rmap (\<lambda>found. case found of
         Some i \<Rightarrow> (True, self\<lparr>next_usable := i\<rparr>)
       | None \<Rightarrow> (False, self))
       (find_unused self
         (dropWhile (\<lambda>r. r < next_usable self) (usable_frames (memory_map self))))"

definition allocate_frame :: "crates \<Rightarrow> GlobalFrameAllocator alloc_fn" where
  "allocate_frame E self =
     rbind (recalculate_next_usable self) (\<lambda>(available, self1).
       if available then
         (let i = next_usable self1
          in rbind (mark_used i self1) (\<lambda>self2.
             rbind (checked_mul i 0x1000) (\<lambda>a.
             rbind (PhysAddr_new E a) (\<lambda>addr. Inr (Some addr, self2)))))
       else Inr (None, self1))"

definition deallocate_frame :: "u64 \<Rightarrow> GlobalFrameAllocator \<Rightarrow> GlobalFrameAllocator res" where
  "deallocate_frame frame self = mark_unused (frame div 0x1000) self"

section \<open>The bitmap\<close>

text \<open>
  The interface of a set of frame numbers in an array of bits. \<open>covers s i\<close> says that the array
  has a bit for \<open>i\<close>; outside, every operation panics.
\<close>

locale bit_store =
  fixes test :: "'s \<Rightarrow> u64 \<Rightarrow> bool res"
    and mark :: "u64 \<Rightarrow> 's \<Rightarrow> 's res"
    and unmark :: "u64 \<Rightarrow> 's \<Rightarrow> 's res"
    and covers :: "'s \<Rightarrow> u64 \<Rightarrow> bool"
  assumes test_covered: "(\<exists>b. test s i = Inr b) \<longleftrightarrow> covers s i"
    and mark_defined: "(\<exists>s'. mark i s = Inr s') \<longleftrightarrow> covers s i"
    and unmark_defined: "(\<exists>s'. unmark i s = Inr s') \<longleftrightarrow> covers s i"
    and test_mark: "mark i s = Inr s' \<Longrightarrow> test s' j = (if j = i then Inr True else test s j)"
    and test_unmark: "unmark i s = Inr s' \<Longrightarrow> test s' j = (if j = i then Inr False else test s j)"
begin

definition members :: "'s \<Rightarrow> u64 set" where
  "members s = {i. test s i = Inr True}"

lemma covers_cong: "(\<And>j. (\<exists>b. test s' j = Inr b) \<longleftrightarrow> (\<exists>b. test s j = Inr b)) \<Longrightarrow> covers s' = covers s"
  by (auto simp: fun_eq_iff simp flip: test_covered)

lemma covers_mark: "mark i s = Inr s' \<Longrightarrow> covers s' = covers s"
  using mark_defined [of i s] test_covered [of s i]
  by (intro covers_cong) (auto simp: test_mark)

lemma members_mark: "mark i s = Inr s' \<Longrightarrow> members s' = insert i (members s)"
  by (auto simp: members_def test_mark)

lemma members_unmark: "unmark i s = Inr s' \<Longrightarrow> members s' = members s - {i}"
  by (auto simp: members_def test_unmark)

lemma mark_all_members:
  "for_each mark xs s = Inr s' \<Longrightarrow> members s' = set xs \<union> members s"
proof (induction xs arbitrary: s)
  case (Cons x xs)
  then show ?case by (auto simp: res_iffs members_mark)
qed simp

lemma mark_all_covers: "for_each mark xs s = Inr s' \<Longrightarrow> covers s' = covers s"
  by (erule for_each_invariant [where P = "\<lambda>t. covers t = covers s"]) (auto simp: covers_mark)

lemma mark_all_total:
  assumes "\<And>x. x \<in> set xs \<Longrightarrow> covers s x"
  shows "\<exists>s'. for_each mark xs s = Inr s'"
proof -
  have "\<exists>s'. for_each mark xs s = Inr s' \<and> covers s' = covers s"
    using assms by (intro for_each_total) (simp, metis mark_defined covers_mark)
  then show ?thesis by blast
qed

end

text \<open>The bit of frame \<open>i\<close> is bit \<open>i mod 32\<close> of word \<open>i div 32\<close>.\<close>

definition in_bitmap :: "GlobalFrameAllocator \<Rightarrow> u64 \<Rightarrow> bool" where
  "in_bitmap self i \<longleftrightarrow> unat i div 32 < length (bitmap self)"

lemma frame_idx_to_parts_eq:
  "frame_idx_to_parts i = (i div 32, push_bit (unat i mod 32) 1)"
proof -
  have "unat ((ucast i :: u32) mod 32) = unat i mod 32"
    by (simp add: unat_mod_distrib unsigned_ucast_eq take_bit_eq_mod mod_mod_cancel)
  then show ?thesis by (simp add: frame_idx_to_parts_def)
qed

lemma unat_word_index [simp]: "unat (i div 32 :: u64) = unat i div 32"
  by (simp add: unat_div_distrib)

lemma and_single_bit: "w AND 2 ^ n \<noteq> 0 \<longleftrightarrow> bit w n" for w :: u32
  by (simp add: bit_iff_and_push_bit_not_eq_0 push_bit_of_1)

lemma is_used_eq:
  "is_used s i =
     (if in_bitmap s i then Inr (bit (bitmap s ! (unat i div 32)) (unat i mod 32))
      else Inl IndexOutOfBounds)"
  by (simp add: is_used_def frame_idx_to_parts_eq index_def in_bitmap_def and_single_bit)

lemma mark_used_eq:
  "mark_used i s =
     (if in_bitmap s i
      then Inr (s\<lparr>bitmap := (bitmap s)[unat i div 32 :=
              bitmap s ! (unat i div 32) OR push_bit (unat i mod 32) 1]\<rparr>)
      else Inl IndexOutOfBounds)"
  by (simp add: mark_used_def frame_idx_to_parts_eq index_def index_set_def in_bitmap_def)

lemma mark_unused_eq:
  "mark_unused i s =
     (if in_bitmap s i
      then Inr (s\<lparr>bitmap := (bitmap s)[unat i div 32 :=
              bitmap s ! (unat i div 32) AND NOT (push_bit (unat i mod 32) 1)]\<rparr>)
      else Inl IndexOutOfBounds)"
  by (simp add: mark_unused_def frame_idx_to_parts_eq index_def index_set_def in_bitmap_def)

lemma same_bit_iff: "unat i div 32 = unat j div 32 \<and> unat i mod 32 = unat j mod 32 \<longleftrightarrow> i = j"
  for i j :: u64
  by (metis div_mult_mod_eq word_unat_eq_iff)

interpretation bm: bit_store is_used mark_used mark_unused in_bitmap
proof unfold_locales
  fix i j :: u64 and s s'
  have *: "j = i \<or> unat j div 32 \<noteq> unat i div 32 \<or> unat j mod 32 \<noteq> unat i mod 32"
    using same_bit_iff [of i j] by auto
  show "(\<exists>b. is_used s i = Inr b) \<longleftrightarrow> in_bitmap s i"
    by (simp add: is_used_eq)
  show "(\<exists>s'. mark_used i s = Inr s') \<longleftrightarrow> in_bitmap s i"
    by (simp add: mark_used_eq)
  show "(\<exists>s'. mark_unused i s = Inr s') \<longleftrightarrow> in_bitmap s i"
    by (simp add: mark_unused_eq)
  show "is_used s' j = (if j = i then Inr True else is_used s j)" if "mark_used i s = Inr s'"
    using that * by (auto simp: mark_used_eq is_used_eq in_bitmap_def nth_list_update bit_simps
        split: if_splits)
  show "is_used s' j = (if j = i then Inr False else is_used s j)" if "mark_unused i s = Inr s'"
    using that * by (auto simp: mark_unused_eq is_used_eq in_bitmap_def nth_list_update bit_simps
        split: if_splits)
qed

section \<open>The allocator\<close>

text \<open>
  \<open>used_frames\<close> is the set the bitmap stands for. \<open>free_frames\<close> are the frames the allocator can
  still hand out: usable, not used, and not below \<^verbatim>\<open>next_usable\<close>.
\<close>

definition used_frames :: "GlobalFrameAllocator \<Rightarrow> u64 set" where
  "used_frames s = {i. is_used s i = Inr True}"

definition free_frames :: "GlobalFrameAllocator \<Rightarrow> u64 set" where
  "free_frames s = {i \<in> set (usable_frames (memory_map s)). next_usable s \<le> i \<and> i \<notin> used_frames s}"

text \<open>
  The invariant: the usable frames are listed in ascending order, as the boot loader sorts its
  map, the bitmap has a bit for each of them, and their addresses have at most 52 bits.
\<close>

definition allocator_inv :: "GlobalFrameAllocator \<Rightarrow> bool" where
  "allocator_inv s \<longleftrightarrow>
     sorted_wrt (<) (usable_frames (memory_map s)) \<and>
     (\<forall>i \<in> set (usable_frames (memory_map s)). in_bitmap s i \<and> unat i < 2 ^ 40)"

lemma used_frames_members: "used_frames s = bm.members s"
  by (simp add: used_frames_def bm.members_def)

lemma used_frames_mark: "mark_used i s = Inr s' \<Longrightarrow> used_frames s' = insert i (used_frames s)"
  by (simp add: used_frames_members bm.members_mark)

lemma used_frames_unmark: "mark_unused i s = Inr s' \<Longrightarrow> used_frames s' = used_frames s - {i}"
  by (simp add: used_frames_members bm.members_unmark)

lemma used_frames_next [simp]: "used_frames (s\<lparr>next_usable := n\<rparr>) = used_frames s"
  by (simp add: used_frames_def is_used_eq in_bitmap_def)

lemma mark_used_fields:
  "mark_used i s = Inr s' \<Longrightarrow> memory_map s' = memory_map s \<and> next_usable s' = next_usable s \<and>
     length (bitmap s') = length (bitmap s)"
  by (auto simp: mark_used_eq split: if_splits)

lemma mark_unused_fields:
  "mark_unused i s = Inr s' \<Longrightarrow> memory_map s' = memory_map s \<and> next_usable s' = next_usable s \<and>
     length (bitmap s') = length (bitmap s)"
  by (auto simp: mark_unused_eq split: if_splits)

lemma allocator_inv_cong:
  "memory_map s' = memory_map s \<Longrightarrow> length (bitmap s') = length (bitmap s) \<Longrightarrow>
     allocator_inv s' = allocator_inv s"
  by (simp add: allocator_inv_def in_bitmap_def)

lemma is_used_in_bitmap: "in_bitmap s i \<Longrightarrow> is_used s i = Inr (i \<in> used_frames s)"
  by (simp add: used_frames_def is_used_eq)

lemma find_unused_eq:
  "(\<And>i. i \<in> set xs \<Longrightarrow> in_bitmap s i) \<Longrightarrow> find_unused s xs = Inr (find (\<lambda>i. i \<notin> used_frames s) xs)"
  by (induction xs) (auto simp: is_used_in_bitmap)

lemma dropWhile_sorted:
  "sorted xs \<Longrightarrow> dropWhile (\<lambda>x. x < n) xs = filter (\<lambda>x. n \<le> x) xs" for n :: "'a::linorder"
proof (induction xs)
  case (Cons x xs)
  then show ?case by (auto simp: not_less intro!: filter_True [symmetric])
qed simp

lemma find_sorted:
  "sorted xs \<Longrightarrow> find P xs = (if \<exists>x \<in> set xs. P x then Some (Min {x \<in> set xs. P x}) else None)"
  for xs :: "'a::linorder list"
proof (induction xs)
  case (Cons x xs)
  show ?case
  proof (cases "P x")
    case True
    then have "Min {y \<in> set (x # xs). P y} = x"
      using Cons.prems by (intro Min_eqI) auto
    with True show ?thesis by auto
  next
    case False
    then have "{y \<in> set (x # xs). P y} = {y \<in> set xs. P y}" by auto
    with False Cons show ?thesis by auto
  qed
qed simp

lemma finite_free_frames [simp]: "finite (free_frames s)"
  by (simp add: free_frames_def)

text \<open>\<^verbatim>\<open>recalculate_next_usable\<close> finds the lowest free frame.\<close>

lemma recalculate_next_usable_eq:
  assumes "allocator_inv s"
  shows "recalculate_next_usable s =
    Inr (if free_frames s = {} then (False, s) else (True, s\<lparr>next_usable := Min (free_frames s)\<rparr>))"
proof -
  let ?xs = "filter (\<lambda>i. next_usable s \<le> i) (usable_frames (memory_map s))"
  have srt: "sorted (usable_frames (memory_map s))"
    using assms by (auto simp: allocator_inv_def intro: strict_sorted_imp_sorted)
  have "find_unused s ?xs = Inr (find (\<lambda>i. i \<notin> used_frames s) ?xs)"
    using assms by (intro find_unused_eq) (auto simp: allocator_inv_def)
  moreover have "{i \<in> set ?xs. i \<notin> used_frames s} = free_frames s"
    by (auto simp: free_frames_def)
  then have "find (\<lambda>i. i \<notin> used_frames s) ?xs =
      (if free_frames s = {} then None else Some (Min (free_frames s)))"
    using srt by (subst find_sorted) (auto simp: sorted_wrt_filter)
  ultimately show ?thesis
    by (auto simp: recalculate_next_usable_def dropWhile_sorted [OF srt])
qed

definition frame_bytes :: "u64 \<Rightarrow> u64" where
  "frame_bytes i = i * 0x1000"

lemma unat_frame_bytes: "unat i < 2 ^ 40 \<Longrightarrow> unat (frame_bytes i) = unat i * 4096"
  by (simp add: frame_bytes_def unat_word_ariths)

lemma frame_bytes_div [simp]: "unat i < 2 ^ 40 \<Longrightarrow> frame_bytes i div 0x1000 = i"
  by (simp add: word_unat_eq_iff unat_div_distrib unat_frame_bytes)

lemma free_framesD:
  assumes "allocator_inv s" and "i \<in> free_frames s"
  shows "i \<in> set (usable_frames (memory_map s))" and "i \<notin> used_frames s"
    and "next_usable s \<le> i" and "in_bitmap s i" and "unat i < 2 ^ 40"
  using assms by (auto simp: free_frames_def allocator_inv_def)

text \<open>
  The functional behaviour of \<^verbatim>\<open>allocate_frame\<close>: with a free frame it returns the lowest one
  and marks it, without one it returns \<^verbatim>\<open>None\<close> and changes nothing; it never panics.
\<close>

lemma allocate_frame_none:
  assumes "allocator_inv s" and "free_frames s = {}"
  shows "allocate_frame E s = Inr (None, s)"
  using assms by (simp add: allocate_frame_def recalculate_next_usable_eq)

lemma allocate_frame_some:
  assumes E: "crates_ok E" and inv: "allocator_inv s" and ne: "free_frames s \<noteq> {}"
  obtains s' where "allocate_frame E s = Inr (Some (frame_bytes (Min (free_frames s))), s')"
    and "mark_used (Min (free_frames s)) (s\<lparr>next_usable := Min (free_frames s)\<rparr>) = Inr s'"
proof -
  define i where "i = Min (free_frames s)"
  have i: "i \<in> free_frames s" using ne by (simp add: i_def)
  note iD = free_framesD [OF inv i]
  obtain s' where s': "mark_used i (s\<lparr>next_usable := i\<rparr>) = Inr s'"
    using iD by (auto simp: mark_used_eq in_bitmap_def)
  have "checked_mul i 0x1000 = Inr (frame_bytes i)" "PhysAddr_new E (frame_bytes i) = Inr (frame_bytes i)"
    using iD by (simp_all add: checked_mul_def frame_bytes_def [symmetric] crates_PhysAddr_new [OF E]
        unat_frame_bytes)
  then have "allocate_frame E s = Inr (Some (frame_bytes i), s')"
    using s' inv ne by (simp add: allocate_frame_def recalculate_next_usable_eq i_def [symmetric])
  with s' that show thesis by (simp add: i_def)
qed

lemma allocate_frame_cases [consumes 3, case_names none some]:
  assumes E: "crates_ok E" and inv: "allocator_inv s" and run: "allocate_frame E s = Inr (r, s')"
  obtains (none) "r = None" "s' = s" "free_frames s = {}"
  | (some) i where "i = Min (free_frames s)" "i \<in> free_frames s" "r = Some (frame_bytes i)"
      "memory_map s' = memory_map s" "length (bitmap s') = length (bitmap s)"
      "next_usable s' = i" "used_frames s' = insert i (used_frames s)"
proof (cases "free_frames s = {}")
  case True
  with inv run that(1) show thesis by (simp add: allocate_frame_none)
next
  case False
  from allocate_frame_some [OF E inv False] obtain t where
    t: "allocate_frame E s = Inr (Some (frame_bytes (Min (free_frames s))), t)"
    "mark_used (Min (free_frames s)) (s\<lparr>next_usable := Min (free_frames s)\<rparr>) = Inr t" .
  with run have "t = s'" "r = Some (frame_bytes (Min (free_frames s)))" by auto
  with t False mark_used_fields [OF t(2)] used_frames_mark [OF t(2)] that(2) show thesis
    by simp
qed

lemma allocate_frame_inv:
  assumes "crates_ok E" and "allocator_inv s" and "allocate_frame E s = Inr (r, s')"
  shows "allocator_inv s'"
  using assms by (cases rule: allocate_frame_cases) (use assms in \<open>auto simp: allocator_inv_def in_bitmap_def\<close>)

lemma free_frames_allocate:
  assumes "i = Min (free_frames s)" and "i \<in> free_frames s" and "memory_map s' = memory_map s"
    and "next_usable s' = i" and "used_frames s' = insert i (used_frames s)"
  shows "free_frames s' = free_frames s - {i}"
proof -
  have "i \<le> j" if "j \<in> free_frames s" for j using assms(1) that by simp
  then show ?thesis using assms(2-) by (auto simp: free_frames_def)
qed

lemma frame_bytes_inj_free:
  assumes "allocator_inv s" shows "inj_on frame_bytes (free_frames s)"
proof (rule inj_onI)
  fix i j assume "i \<in> free_frames s" "j \<in> free_frames s" "frame_bytes i = frame_bytes j"
  then show "i = j"
    using frame_bytes_div [OF free_framesD(5) [OF assms]] by metis
qed

interpretation gfa: frame_source "allocate_frame E" "\<lambda>s. crates_ok E \<and> allocator_inv s"
  "\<lambda>s. frame_bytes ` free_frames s" for E
proof (unfold_locales, goal_cases)
  case (1 s f s')
  then have E: "crates_ok E" and inv: "allocator_inv s" and run: "allocate_frame E s = Inr (Some f, s')"
    by auto
  from E inv run show ?case
  proof (cases rule: allocate_frame_cases)
    case (some i)
    moreover have "allocator_inv s'" using allocate_frame_inv [OF E inv run] .
    moreover have "frame_bytes ` (free_frames s - {i}) = frame_bytes ` free_frames s - {frame_bytes i}"
      using inj_on_image_set_diff [OF frame_bytes_inj_free [OF inv], of "free_frames s" "{i}"] some(2)
      by simp
    ultimately show ?thesis using E free_frames_allocate [OF some(1,2,4,6,7)] by auto
  qed simp
next
  case (2 s s')
  then have "crates_ok E" "allocator_inv s" "allocate_frame E s = Inr (None, s')" by auto
  then show ?case using \<open>crates_ok E \<and> allocator_inv s\<close>
    by (cases rule: allocate_frame_cases) auto
next
  case (3 s)
  then have "crates_ok E" "allocator_inv s" by auto
  from allocate_frame_none [OF this(2)] allocate_frame_some [OF this] show ?case
    by (cases "free_frames s = {}") blast+
qed

lemma alloc_run_used:
  assumes E: "crates_ok E" and run: "alloc_run (allocate_frame E) s fs s'" and inv: "allocator_inv s"
  shows "used_frames s' = used_frames s \<union> (\<lambda>f. f div 0x1000) ` set fs \<and>
    memory_map s' = memory_map s \<and> length (bitmap s') = length (bitmap s)"
  using run inv
proof (induction rule: alloc_run.induct)
  case (run_some s f t fs u)
  from E run_some.prems run_some.hyps(1) obtain i where
    i: "i \<in> free_frames s" "f = frame_bytes i" "used_frames t = insert i (used_frames s)"
    "memory_map t = memory_map s" "length (bitmap t) = length (bitmap s)"
    by (cases rule: allocate_frame_cases) auto
  with free_framesD(5) [OF run_some.prems i(1)] show ?case
    using run_some.IH allocate_frame_inv [OF E run_some.prems run_some.hyps(1)] by auto
next
  case (run_none s t fs u)
  from E run_none.prems run_none.hyps(1) have "t = s"
    by (cases rule: allocate_frame_cases) auto
  with run_none show ?case by simp
qed simp

section \<open>Properties\<close>

text \<open>
  C5. Allocation, on both branches: it never panics, keeps the invariant and the memory map, and
  either hands out the lowest free frame, marks exactly that frame and moves \<^verbatim>\<open>next_usable\<close> to
  it, or, when no frame is free, returns \<^verbatim>\<open>None\<close> and leaves the allocator unchanged.
\<close>

theorem allocate_frame_lowest_free:
  assumes "crates_ok E" and "allocator_inv s"
  shows "\<exists>r s'. allocate_frame E s = Inr (r, s') \<and> allocator_inv s' \<and> memory_map s' = memory_map s \<and>
    (case r of
       None \<Rightarrow> free_frames s = {} \<and> s' = s
     | Some f \<Rightarrow> free_frames s \<noteq> {} \<and> f = frame_bytes (Min (free_frames s)) \<and>
         next_usable s' = Min (free_frames s) \<and>
         used_frames s' = insert (Min (free_frames s)) (used_frames s))"
proof -
  obtain r s' where run: "allocate_frame E s = Inr (r, s')"
    using gfa.alloc_total [of E s] assms by blast
  note inv = allocate_frame_inv [OF assms run]
  from assms run show ?thesis
  proof (cases rule: allocate_frame_cases)
    case none
    with run inv show ?thesis by simp
  next
    case (some i)
    with run inv show ?thesis by auto
  qed
qed

definition example_allocator :: GlobalFrameAllocator where
  "example_allocator =
     \<lparr>memory_map =
        [\<lparr>region_range = \<lparr>start_frame_number = 2, end_frame_number = 5\<rparr>, region_type = Usable\<rparr>],
      next_usable = 0, bitmap = [4]\<rparr>"

lemma example_usable: "usable_frames (memory_map example_allocator) = [2, 3, 4]"
  by (simp add: example_allocator_def usable_frames_def urange_def)

lemma example_inv: "allocator_inv example_allocator"
  by (simp add: allocator_inv_def example_usable) (simp add: example_allocator_def in_bitmap_def)

lemma example_used: "used_frames example_allocator = {2}"
proof (intro set_eqI)
  fix i :: u64
  have four: "(4 :: u32) = 2 ^ 2" by simp
  have "i \<in> used_frames example_allocator \<longleftrightarrow> unat i < 32 \<and> bit (4 :: u32) (unat i mod 32)"
    by (simp add: used_frames_def is_used_eq example_allocator_def in_bitmap_def)
  also have "\<dots> \<longleftrightarrow> unat i = 2"
    unfolding four bit_exp_iff by auto
  also have "\<dots> \<longleftrightarrow> i \<in> {2}" by (simp add: word_unat_eq_iff)
  finally show "i \<in> used_frames example_allocator \<longleftrightarrow> i \<in> {2}" .
qed

lemma example_free: "free_frames example_allocator = {3, 4}"
  by (auto simp: free_frames_def example_used example_usable) (simp_all add: example_allocator_def)

theorem allocate_frame_lowest_free_witness:
  "crates_ok std_crates \<and> allocator_inv example_allocator \<and>
   (\<exists>r s'. allocate_frame std_crates example_allocator = Inr (r, s') \<and>
      r = Some 0x3000 \<and> used_frames s' = {2, 3})"
proof -
  have min: "Min (free_frames example_allocator) = 3" and ne: "free_frames example_allocator \<noteq> {}"
    by (simp_all add: example_free)
  obtain r s' where run: "allocate_frame std_crates example_allocator = Inr (r, s')"
    and cs: "case r of None \<Rightarrow> free_frames example_allocator = {} \<and> s' = example_allocator
     | Some f \<Rightarrow> free_frames example_allocator \<noteq> {} \<and> f = frame_bytes 3 \<and> next_usable s' = 3 \<and>
         used_frames s' = insert 3 (used_frames example_allocator)"
    using allocate_frame_lowest_free [OF std_crates_ok example_inv] unfolding min by blast
  then have "r = Some 0x3000 \<and> used_frames s' = {2, 3}"
    using ne by (cases r) (auto simp: frame_bytes_def example_used)
  with run std_crates_ok example_inv show ?thesis by blast
qed

text \<open>
  C2. No frame is handed out twice: along any run of allocations the frames are pairwise
  different, each was a usable and unused frame at the start, and each is marked at the end.
\<close>

theorem no_double_allocation:
  assumes "crates_ok E" and "allocator_inv s" and "alloc_run (allocate_frame E) s fs s'"
  shows "distinct fs \<and> set fs \<subseteq> frame_bytes ` free_frames s \<and>
    used_frames s' = used_frames s \<union> (\<lambda>f. f div 0x1000) ` set fs"
  using gfa.run_frames [OF assms(3)] alloc_run_used [OF assms(1,3,2)] assms(1,2) by blast

lemma example_allocate:
  obtains s' where "allocate_frame std_crates example_allocator = Inr (Some 0x3000, s')"
proof -
  have ne: "free_frames example_allocator \<noteq> {}" by (simp add: example_free)
  obtain s' where "allocate_frame std_crates example_allocator =
      Inr (Some (frame_bytes (Min (free_frames example_allocator))), s')"
    using allocate_frame_some [OF std_crates_ok example_inv ne] by blast
  then show thesis by (intro that) (simp add: example_free frame_bytes_def)
qed

theorem no_double_allocation_witness:
  "\<exists>fs s'. alloc_run (allocate_frame std_crates) example_allocator fs s' \<and> fs = [0x3000] \<and>
     distinct fs \<and> used_frames s' = {2, 3}"
proof -
  obtain s' where s': "allocate_frame std_crates example_allocator = Inr (Some 0x3000, s')"
    by (rule example_allocate)
  note run = alloc_run_single [of "allocate_frame std_crates", OF s']
  have "used_frames s' = {2, 3}"
    using no_double_allocation [OF std_crates_ok example_inv run] by (auto simp: example_used)
  with run show ?thesis by auto
qed

text \<open>
  C30. Deallocation: inside the bitmap it clears exactly the bit of the frame and keeps the
  invariant; the frame can be allocated again only if it is usable and not below
  \<^verbatim>\<open>next_usable\<close>. Outside the bitmap it panics.
\<close>

theorem deallocate_frame_effect:
  assumes "allocator_inv s"
  shows "if in_bitmap s (f div 0x1000)
    then \<exists>s'. deallocate_frame f s = Inr s' \<and> allocator_inv s' \<and>
      used_frames s' = used_frames s - {f div 0x1000} \<and>
      free_frames s' =
        (if f div 0x1000 \<in> set (usable_frames (memory_map s)) \<and> next_usable s \<le> f div 0x1000
         then insert (f div 0x1000) (free_frames s) else free_frames s)
    else deallocate_frame f s = Inl IndexOutOfBounds"
proof (cases "in_bitmap s (f div 0x1000)")
  case True
  define i where "i = f div 0x1000"
  from True obtain s' where s': "mark_unused i s = Inr s'"
    using bm.unmark_defined [of i s] by (auto simp: i_def)
  note fields = mark_unused_fields [OF s'] and used = used_frames_unmark [OF s']
  have "free_frames s' =
      (if i \<in> set (usable_frames (memory_map s)) \<and> next_usable s \<le> i
       then insert i (free_frames s) else free_frames s)"
    using fields used by (auto simp: free_frames_def)
  with True s' used assms fields show ?thesis
    using allocator_inv_cong [of s' s]
    by (simp add: deallocate_frame_def i_def [symmetric])
next
  case False
  then show ?thesis by (simp add: deallocate_frame_def mark_unused_eq)
qed

theorem deallocate_frame_effect_witness:
  "\<exists>s'. deallocate_frame 0x2000 example_allocator = Inr s' \<and> free_frames s' = {2, 3, 4}"
proof -
  have i: "(0x2000 :: u64) div 0x1000 = 2" by simp
  have "in_bitmap example_allocator 2" "next_usable example_allocator \<le> 2"
    by (simp_all add: in_bitmap_def example_allocator_def)
  then show ?thesis
    using deallocate_frame_effect [OF example_inv, of "0x2000"]
    unfolding i by (auto simp: example_usable example_free)
qed

text \<open>
  A frame that is given back below \<^verbatim>\<open>next_usable\<close> is lost: no later sequence of allocations
  hands it out again, although it is usable and not used. (The comment on
  \<^verbatim>\<open>recalculate_next_usable\<close> promises a frame whenever one is available.)
\<close>

theorem freed_frame_below_next_is_lost:
  assumes "crates_ok E" and "allocator_inv s" and "deallocate_frame f s = Inr s'"
    and "f div 0x1000 < next_usable s" and "alloc_run (allocate_frame E) s' fs s''"
  shows "f div 0x1000 \<notin> used_frames s' \<and> (\<forall>g \<in> set fs. g div 0x1000 \<noteq> f div 0x1000)"
proof -
  from assms(3) have m: "mark_unused (f div 0x1000) s = Inr s'"
    by (simp add: deallocate_frame_def)
  note fields = mark_unused_fields [OF m] and used = used_frames_unmark [OF m]
  from assms(2) fields have inv: "allocator_inv s'" using allocator_inv_cong [of s' s] by simp
  have "set fs \<subseteq> frame_bytes ` free_frames s'"
    using gfa.run_frames [OF assms(5)] assms(1) inv by blast
  moreover have "i \<noteq> f div 0x1000 \<and> unat i < 2 ^ 40" if "i \<in> free_frames s'" for i
    using free_framesD(3,5) [OF inv that] fields assms(4) by auto
  ultimately have "g div 0x1000 \<noteq> f div 0x1000" if "g \<in> set fs" for g
    using that by fastforce
  with used show ?thesis by blast
qed

definition full_allocator :: GlobalFrameAllocator where
  "full_allocator = example_allocator\<lparr>next_usable := 4, bitmap := [28]\<rparr>"

theorem freed_frame_below_next_is_lost_witness:
  "\<exists>s'. allocator_inv full_allocator \<and> deallocate_frame 0x2000 full_allocator = Inr s' \<and>
     2 \<in> set (usable_frames (memory_map s')) \<and> 2 \<notin> used_frames s' \<and>
     allocate_frame std_crates s' = Inr (None, s')"
proof -
  have inv: "allocator_inv full_allocator"
    using example_inv by (simp add: full_allocator_def allocator_inv_def in_bitmap_def example_allocator_def)
  have i: "(0x2000 :: u64) div 0x1000 = 2" by simp
  have below: "(0x2000 :: u64) div 0x1000 < next_usable full_allocator"
    by (simp add: full_allocator_def)
  have "deallocate_frame 0x2000 full_allocator =
      Inr (full_allocator\<lparr>bitmap := [24]\<rparr>)" (is "_ = Inr ?s'")
    by (simp add: deallocate_frame_def mark_unused_eq in_bitmap_def full_allocator_def example_allocator_def)
  moreover have "allocate_frame std_crates ?s' = Inr (None, ?s')"
    by (simp add: allocate_frame_def recalculate_next_usable_def full_allocator_def
        example_allocator_def usable_frames_def urange_def is_used_eq in_bitmap_def)
  moreover have "2 \<notin> used_frames ?s'"
    using freed_frame_below_next_is_lost [OF std_crates_ok inv calculation(1) below run_done]
    unfolding i by blast
  moreover have "2 \<in> set (usable_frames (memory_map ?s'))"
    using example_usable by (simp add: full_allocator_def)
  ultimately show ?thesis using inv by blast
qed

text \<open>
  C38. \<^verbatim>\<open>get_frame_ty\<close> on a map whose regions start in ascending order: the first frame of a region
  gets the type of that region, but every other frame of the region gets the type of the region
  after it, because the comparison with the start of the region is the wrong way round.
\<close>

theorem get_frame_ty_inside_region:
  assumes "memory_map s = pre @ r # r' # post"
    and "\<forall>v \<in> set pre. start_addr E (region_range v) < start_addr E (region_range r)"
    and "start_addr E (region_range r) \<le> frame" and "frame < end_addr E (region_range r)"
    and "end_addr E (region_range r) \<le> start_addr E (region_range r')"
    and "start_addr E (region_range r') < end_addr E (region_range r')"
  shows "get_frame_ty E s frame =
    Some (if frame = start_addr E (region_range r) then region_type r else region_type r')"
proof -
  let ?P = "\<lambda>v. frame \<le> start_addr E (region_range v) \<and> frame < end_addr E (region_range v)"
  have "find ?P (pre @ xs) = find ?P xs" for xs
    using assms(2,3) by (induction pre) fastforce+
  then show ?thesis using assms(3-) by (auto simp: get_frame_ty_def assms(1))
qed

definition example_map :: MemoryMap where
  "example_map =
     [\<lparr>region_range = \<lparr>start_frame_number = 2, end_frame_number = 5\<rparr>, region_type = Usable\<rparr>,
      \<lparr>region_range = \<lparr>start_frame_number = 5, end_frame_number = 8\<rparr>, region_type = Reserved\<rparr>]"

theorem get_frame_ty_inside_region_witness:
  "get_frame_ty std_crates (example_allocator\<lparr>memory_map := example_map\<rparr>) 0x3000 = Some Reserved"
  using get_frame_ty_inside_region [of "example_allocator\<lparr>memory_map := example_map\<rparr>" "[]"
      "example_map ! 0" "example_map ! 1" "[]" std_crates "0x3000"]
  by (simp add: example_map_def std_crates_def)

end
