(* ===== verification/Bootstrap_Allocator.thy ===== *)
theory Bootstrap_Allocator
  imports Frame_Allocator
begin

text \<open>
  \<^verbatim>\<open>src/memory/frame_allocator/bootstrap.rs\<close>: the allocator that hands out frames while the
  bitmap of the global allocator is being mapped. It is the second instance of \<open>frame_source\<close>.
  Its counters \<^verbatim>\<open>used\<close> are shown to describe exactly the frames it has handed out.
\<close>

section \<open>State and operations\<close>

record BootStrapAllocator =
  boot_map :: MemoryMap
  boot_next :: usize
  boot_used :: "u64 list"

definition boot_usable_frames :: "crates \<Rightarrow> BootStrapAllocator \<Rightarrow> (u64 \<times> nat) list" where
  "boot_usable_frames E self =
     (let regions = enumerate 0 (boot_map self);
          usable_regions = filter (\<lambda>(_, r). region_type r = Usable) regions;
          addr_ranges = map (\<lambda>(i, r). (i, start_addr E (region_range r), end_addr E (region_range r)))
            usable_regions
      in concat (map (\<lambda>(i, s, e). map (\<lambda>a. (a, i)) (urange_step s e 4096)) addr_ranges))"

definition boot_allocate_frame :: "crates \<Rightarrow> BootStrapAllocator alloc_fn" where
  "boot_allocate_frame E self =
     rbind (map_nth (\<lambda>(addr, i). rmap (\<lambda>pa. (containing_address E pa, i)) (PhysAddr_new E addr))
              (boot_usable_frames E self) (unat (boot_next self)))
       (\<lambda>found. case found of
          None \<Rightarrow> Inr (None, self)
        | Some (frame, block) \<Rightarrow>
            rbind (checked_add (boot_next self) 1) (\<lambda>next.
            rbind (index (boot_used self) (word_of_nat block)) (\<lambda>u.
            rbind (checked_add u 1) (\<lambda>u'.
            rbind (index_set (boot_used self) (word_of_nat block) u') (\<lambda>used.
              Inr (Some frame, self\<lparr>boot_next := next, boot_used := used\<rparr>))))))"

definition allocate_bitmap_frame ::
    "crates \<Rightarrow> ('m, BootStrapAllocator) map_to_fn \<Rightarrow> u64 \<Rightarrow>
     'm \<times> BootStrapAllocator \<Rightarrow> ('m \<times> BootStrapAllocator) res" where
  "allocate_bitmap_frame E map_to addr = (\<lambda>(mapper, self).
     rbind (boot_allocate_frame E self) (\<lambda>(allocated, self1).
     rbind (expect ''Failed to allocate frame'' allocated) (\<lambda>frame.
     rbind (VirtAddr_new E addr) (\<lambda>page.
     rbind (map_to (boot_allocate_frame E) page frame {PRESENT, WRITABLE} mapper self1)
       (\<lambda>(mapped, mapper', self2).
     rbind (expect_ok ''Failed to map'' mapped) (\<lambda>_. Inr (mapper', self2)))))))"

section \<open>The frames of a memory map\<close>

text \<open>
  \<open>map_ok\<close> is what the boot loader guarantees of its memory map: 1 to 64 regions, with frame
  numbers below \<open>2 ^ 40\<close> (52 bit physical addresses), none beyond the end of the last region, and
  the usable frames in ascending order.
\<close>

definition region_start :: "MemoryRegion \<Rightarrow> nat" where
  "region_start r = unat (start_frame_number (region_range r))"

definition region_end :: "MemoryRegion \<Rightarrow> nat" where
  "region_end r = unat (end_frame_number (region_range r))"

definition map_ok :: "MemoryMap \<Rightarrow> bool" where
  "map_ok mm \<longleftrightarrow> mm \<noteq> [] \<and> length mm \<le> 64 \<and>
     (\<forall>r \<in> set mm. region_start r \<le> region_end r \<and> region_end r \<le> region_end (last mm)) \<and>
     region_end (last mm) < 2 ^ 40 \<and> sorted_wrt (<) (usable_frames mm)"

text \<open>The usable frame numbers, each with the number of its region, counting regions from \<open>k\<close>.\<close>

primrec boot_frames :: "nat \<Rightarrow> MemoryMap \<Rightarrow> (nat \<times> nat) list" where
  "boot_frames k [] = []"
| "boot_frames k (r # rs) =
     (if region_type r = Usable then map (\<lambda>n. (n, k)) [region_start r ..< region_end r] else [])
     @ boot_frames (Suc k) rs"

lemma map_okD:
  assumes "map_ok mm" and "r \<in> set mm"
  shows "region_start r \<le> region_end r" and "region_end r < 2 ^ 40" and "region_start r < 2 ^ 40"
  using assms unfolding map_ok_def by force+

lemma urange_step_frames:
  assumes "crates_ok E" and "region_start r < 2 ^ 40" and "region_end r < 2 ^ 40"
  shows "urange_step (start_addr E (region_range r)) (end_addr E (region_range r)) 4096 =
    map frame_addr [region_start r ..< region_end r]"
proof -
  let ?s = "start_addr E (region_range r)" and ?e = "end_addr E (region_range r)"
  let ?a = "region_start r" and ?b = "region_end r"
  have s: "unat ?s = 4096 * ?a" and e: "unat ?e = 4096 * ?b"
    using assms(2,3) unat_frame_bytes [of "start_frame_number (region_range r)"]
      unat_frame_bytes [of "end_frame_number (region_range r)"]
    by (simp_all add: crates_start_addr [OF assms(1)] crates_end_addr [OF assms(1)] frame_bytes_def
        region_start_def region_end_def)
  have n: "(4096 * ?b - 4096 * ?a + 4096 - 1) div 4096 = ?b - ?a"
    by linarith
  have "frame_addr (?a + i) = word_of_nat (4096 * ?a + i * 4096)" for i
    unfolding frame_addr_def by (rule arg_cong [of _ _ word_of_nat]) simp
  then show ?thesis
    unfolding urange_step_def s e n by (intro nth_equalityI) simp_all
qed

lemma boot_usable_frames_eq:
  assumes "crates_ok E" and "\<And>r. r \<in> set mm \<Longrightarrow> region_start r < 2 ^ 40 \<and> region_end r < 2 ^ 40"
    and "boot_map b = mm"
  shows "boot_usable_frames E b = map (map_prod frame_addr id) (boot_frames 0 mm)"
proof -
  have "concat (map (\<lambda>(i, r). map (\<lambda>a. (a, i))
      (urange_step (start_addr E (region_range r)) (end_addr E (region_range r)) 4096))
      (filter (\<lambda>(_, r). region_type r = Usable) (enumerate k mm))) =
      map (map_prod frame_addr id) (boot_frames k mm)" for k
    using assms(1,2) by (induction mm arbitrary: k) (auto simp: urange_step_frames o_def)
  then show ?thesis
    using assms(3) by (simp add: boot_usable_frames_def Let_def split_def o_def)
qed

lemma boot_frames_usable: "map fst (boot_frames k mm) = map unat (usable_frames mm)"
  by (induction mm arbitrary: k)
     (auto simp: usable_frames_def map_concat region_start_def region_end_def o_def)

lemma boot_frames_block:
  "filter (\<lambda>x. snd x = j) (boot_frames k mm) =
     (if k \<le> j \<and> j < k + length mm \<and> region_type (mm ! (j - k)) = Usable
      then map (\<lambda>n. (n, j)) [region_start (mm ! (j - k)) ..< region_end (mm ! (j - k))] else [])"
proof (induction mm arbitrary: k)
  case (Cons r mm)
  show ?case
  proof (cases "j = k")
    case True
    then show ?thesis using Cons [of "Suc k"] by (simp add: filter_map o_def)
  next
    case False
    then have "(r # mm) ! (j - k) = mm ! (j - Suc k)" if "k \<le> j"
      using that by (simp add: nth_Cons')
    with False show ?thesis using Cons [of "Suc k"] by (auto simp: filter_map o_def)
  qed
qed simp

lemma boot_frames_snd: "x \<in> set (boot_frames k mm) \<Longrightarrow> k \<le> snd x \<and> snd x < k + length mm"
  by (induction mm arbitrary: k) (auto split: if_splits dest: Suc_leD, fastforce)

lemma length_boot_frames:
  "(\<And>r. r \<in> set mm \<Longrightarrow> region_end r \<le> B) \<Longrightarrow> length (boot_frames k mm) \<le> length mm * B"
proof (induction mm arbitrary: k)
  case (Cons r mm)
  then have "length (boot_frames (Suc k) mm) \<le> length mm * B" "region_end r \<le> B" by auto
  then show ?case by auto
qed simp

lemma filter_take_prefix:
  "filter P (take n xs) = take (length (filter P (take n xs))) (filter P xs)"
proof (induction xs arbitrary: n)
  case (Cons x xs)
  then show ?case by (cases n) auto
qed simp

section \<open>Correctness of the counters\<close>

definition boot_fresh :: "MemoryMap \<Rightarrow> BootStrapAllocator" where
  "boot_fresh mm = \<lparr>boot_map = mm, boot_next = 0, boot_used = replicate 64 0\<rparr>"

text \<open>
  The invariant: \<^verbatim>\<open>used[j]\<close> counts the frames of region \<open>j\<close> among the first \<^verbatim>\<open>next\<close> usable
  frames, which are the frames handed out so far.
\<close>

definition boot_taken :: "BootStrapAllocator \<Rightarrow> (nat \<times> nat) list" where
  "boot_taken b = take (unat (boot_next b)) (boot_frames 0 (boot_map b))"

definition boot_inv :: "BootStrapAllocator \<Rightarrow> bool" where
  "boot_inv b \<longleftrightarrow> length (boot_used b) = 64 \<and>
     unat (boot_next b) \<le> length (boot_frames 0 (boot_map b)) \<and>
     (\<forall>j < 64. unat (boot_used b ! j) = length (filter (\<lambda>x. snd x = j) (boot_taken b)))"

lemma boot_inv_fresh: "boot_inv (boot_fresh mm)"
  by (simp add: boot_inv_def boot_fresh_def boot_taken_def)

lemma boot_frames_bound:
  assumes "map_ok mm" and "x \<in> set (boot_frames 0 mm)"
  shows "fst x < 2 ^ 40" and "snd x < 64" and "snd x < length mm"
proof -
  show "snd x < length mm" using boot_frames_snd [OF assms(2)] by simp
  then show "snd x < 64" using assms(1) by (simp add: map_ok_def)
  obtain n j where x: "x = (n, j)" by fastforce
  then have "(n, j) \<in> set (filter (\<lambda>y. snd y = j) (boot_frames 0 mm))" using assms(2) by simp
  then have "n < region_end (mm ! j)"
    unfolding boot_frames_block by (auto split: if_splits)
  then have "fst x < region_end (mm ! snd x)" by (simp add: x)
  also have "\<dots> < 2 ^ 40"
    using map_okD(2) [OF assms(1) nth_mem [OF \<open>snd x < length mm\<close>]] .
  finally show "fst x < 2 ^ 40" .
qed

lemma length_boot_frames_bound:
  assumes "map_ok mm" shows "length (boot_frames 0 mm) < 2 ^ 47"
proof -
  have "length (boot_frames 0 mm) \<le> length mm * 2 ^ 40"
    using map_okD(2) [OF assms] by (intro length_boot_frames) (simp add: less_imp_le)
  also have "\<dots> \<le> 64 * 2 ^ 40" using assms by (simp add: map_ok_def)
  also have "\<dots> < 2 ^ 47" by simp
  finally show ?thesis .
qed

lemma boot_lookup:
  assumes "crates_ok E" and "map_ok (boot_map b)"
  shows "map_nth (\<lambda>(addr, i). rmap (\<lambda>pa. (containing_address E pa, i)) (PhysAddr_new E addr))
      (boot_usable_frames E b) n =
    Inr (if n < length (boot_frames 0 (boot_map b))
         then Some (map_prod frame_addr id (boot_frames 0 (boot_map b) ! n)) else None)"
proof -
  let ?F = "boot_frames 0 (boot_map b)"
  let ?f = "\<lambda>(addr, i). rmap (\<lambda>pa. (containing_address E pa, i)) (PhysAddr_new E addr)"
  have F: "boot_usable_frames E b = map (map_prod frame_addr id) ?F"
    using assms map_okD by (intro boot_usable_frames_eq) auto
  have "?f (map_prod frame_addr id x) = Inr (map_prod frame_addr id x)" if "x \<in> set ?F" for x
  proof -
    have "fst x < 2 ^ 40" using boot_frames_bound(1) [OF assms(2) that] .
    then show ?thesis
      by (cases x) (simp add: crates_PhysAddr_new [OF assms(1)] crates_containing [OF assms(1)])
  qed
  then show ?thesis unfolding F by (rule map_nth_pure)
qed

lemma boot_allocate_none:
  assumes "crates_ok E" and "map_ok (boot_map b)"
    and "unat (boot_next b) \<ge> length (boot_frames 0 (boot_map b))"
  shows "boot_allocate_frame E b = Inr (None, b)"
  using assms(3) by (simp add: boot_allocate_frame_def boot_lookup [OF assms(1,2)])

lemma boot_allocate_some:
  assumes E: "crates_ok E" and mm: "map_ok (boot_map b)" and inv: "boot_inv b"
    and n: "unat (boot_next b) < length (boot_frames 0 (boot_map b))"
  obtains b' where "boot_allocate_frame E b =
      Inr (Some (frame_addr (fst (boot_frames 0 (boot_map b) ! unat (boot_next b)))), b')"
    and "boot_map b' = boot_map b" and "boot_inv b'"
    and "unat (boot_next b') = Suc (unat (boot_next b))"
proof -
  let ?F = "boot_frames 0 (boot_map b)" and ?n = "unat (boot_next b)"
  obtain k j where kj: "?F ! ?n = (k, j)" by fastforce
  from nth_mem [OF n] kj boot_frames_bound(2) [OF mm] have j: "j < 64" by fastforce
  have len: "length (boot_used b) = 64" using inv by (simp add: boot_inv_def)
  have F47: "length ?F < 2 ^ 47" using length_boot_frames_bound [OF mm] .
  have count: "unat (boot_used b ! i) = length (filter (\<lambda>x. snd x = i) (boot_taken b))" if "i < 64" for i
    using inv that by (simp add: boot_inv_def)
  have "unat (boot_used b ! j) \<le> length (boot_taken b)" by (simp add: count [OF j])
  then have u: "unat (boot_used b ! j) < 2 ^ 47" using F47 n by (simp add: boot_taken_def)
  define b' where "b' = b\<lparr>boot_next := boot_next b + 1,
      boot_used := (boot_used b)[j := boot_used b ! j + 1]\<rparr>"
  have next': "unat (boot_next b + 1) = Suc ?n" and used': "unat (boot_used b ! j + 1) = Suc (unat (boot_used b ! j))"
    using n F47 u by (simp_all add: unat_word_ariths)
  have "boot_allocate_frame E b = Inr (Some (frame_addr k), b')"
    using n F47 u j len kj
    by (simp add: boot_allocate_frame_def boot_lookup [OF E mm] checked_add_def index_def index_set_def
        b'_def unat_of_nat)
  moreover have "boot_taken b' = boot_taken b @ [(k, j)]"
    using n kj by (simp add: boot_taken_def b'_def next' take_Suc_conv_app_nth)
  then have "boot_inv b'"
    using n len count used' j by (auto simp: boot_inv_def b'_def next' nth_list_update)
  ultimately show thesis
    using that [of b'] kj next' by (simp add: b'_def)
qed

text \<open>What the counters say: of region \<open>j\<close>, the first \<^verbatim>\<open>used[j]\<close> frames have been taken.\<close>

lemma boot_taken_block:
  assumes inv: "boot_inv b" and j: "j < 64"
  shows "(n, j) \<in> set (boot_taken b) \<longleftrightarrow> j < length (boot_map b) \<and>
    region_start (boot_map b ! j) \<le> n \<and>
    n < region_start (boot_map b ! j) + unat (boot_used b ! j)"
proof -
  let ?r = "boot_map b ! j" and ?u = "unat (boot_used b ! j)"
  let ?G = "filter (\<lambda>x. snd x = j) (boot_frames 0 (boot_map b))"
  have u: "?u = length (filter (\<lambda>x. snd x = j) (boot_taken b))"
    using inv j by (simp add: boot_inv_def)
  then have pre: "filter (\<lambda>x. snd x = j) (boot_taken b) = take ?u ?G"
    unfolding boot_taken_def by (metis filter_take_prefix)
  have "(n, j) \<in> set (boot_taken b) \<longleftrightarrow> (n, j) \<in> set (take ?u ?G)"
    unfolding pre [symmetric] by simp
  moreover have le: "?u \<le> length ?G" using u pre by (metis length_take min.cobounded1)
  ultimately show ?thesis
  proof (cases "j < length (boot_map b) \<and> region_type ?r = Usable")
    case True
    then have G: "?G = map (\<lambda>n. (n, j)) [region_start ?r ..< region_end ?r]"
      by (simp add: boot_frames_block)
    have "region_start ?r + ?u \<le> region_end ?r \<or> ?u = 0" using le unfolding G by auto
    then have "set (take ?u ?G) = (\<lambda>n. (n, j)) ` {region_start ?r ..< region_start ?r + ?u}"
      unfolding G by (auto simp: take_map)
    with True show ?thesis
      using \<open>(n, j) \<in> set (boot_taken b) \<longleftrightarrow> (n, j) \<in> set (take ?u ?G)\<close> by auto
  next
    case False
    then have "?G = []" by (auto simp: boot_frames_block)
    with le show ?thesis
      using \<open>(n, j) \<in> set (boot_taken b) \<longleftrightarrow> (n, j) \<in> set (take ?u ?G)\<close> by auto
  qed
qed

lemma distinct_boot_frames:
  assumes "map_ok mm" shows "distinct (map (\<lambda>x. frame_addr (fst x)) (boot_frames 0 mm))"
proof -
  have "distinct (usable_frames mm)"
    using assms unfolding map_ok_def by (simp add: strict_sorted_iff)
  then have "distinct (map fst (boot_frames 0 mm))"
    unfolding boot_frames_usable by (simp add: distinct_map inj_on_def word_unat_eq_iff)
  moreover have "inj_on frame_addr (set (map fst (boot_frames 0 mm)))"
  proof (rule inj_onI)
    fix m n assume "m \<in> set (map fst (boot_frames 0 mm))" "n \<in> set (map fst (boot_frames 0 mm))"
      and eq: "frame_addr m = frame_addr n"
    then have "m < 2 ^ 40" "n < 2 ^ 40" using boot_frames_bound(1) [OF assms] by auto
    with eq show "m = n" by (simp add: frame_addr_inj)
  qed
  ultimately have "distinct (map frame_addr (map fst (boot_frames 0 mm)))"
    by (simp only: distinct_map)
  then show ?thesis by (simp add: o_def)
qed

definition boot_good :: "crates \<Rightarrow> BootStrapAllocator \<Rightarrow> bool" where
  "boot_good E b \<longleftrightarrow> crates_ok E \<and> map_ok (boot_map b) \<and> boot_inv b"

definition boot_avail :: "BootStrapAllocator \<Rightarrow> u64 set" where
  "boot_avail b = (\<lambda>x. frame_addr (fst x)) ` set (drop (unat (boot_next b)) (boot_frames 0 (boot_map b)))"

lemma boot_allocate_cases [consumes 2, case_names none some]:
  assumes "boot_good E b" and "boot_allocate_frame E b = Inr (r, b')"
  obtains (none) "r = None" "b' = b" "unat (boot_next b) = length (boot_frames 0 (boot_map b))"
  | (some) "r = Some (frame_addr (fst (boot_frames 0 (boot_map b) ! unat (boot_next b))))"
      "unat (boot_next b) < length (boot_frames 0 (boot_map b))"
      "boot_map b' = boot_map b" "boot_good E b'" "unat (boot_next b') = Suc (unat (boot_next b))"
proof (cases "unat (boot_next b) < length (boot_frames 0 (boot_map b))")
  case True
  from assms(1) have g: "crates_ok E" "map_ok (boot_map b)" "boot_inv b" by (simp_all add: boot_good_def)
  from boot_allocate_some [OF g True] obtain c where
    "boot_allocate_frame E b =
      Inr (Some (frame_addr (fst (boot_frames 0 (boot_map b) ! unat (boot_next b)))), c)"
    "boot_map c = boot_map b" "boot_inv c" "unat (boot_next c) = Suc (unat (boot_next b))" .
  with assms g True that(2) show thesis by (simp add: boot_good_def)
next
  case False
  with assms that(1) show thesis by (simp add: boot_good_def boot_allocate_none boot_inv_def)
qed

interpretation boot: frame_source "boot_allocate_frame E" "boot_good E" boot_avail for E
proof (unfold_locales, goal_cases)
  case (1 b f b')
  let ?F = "map (\<lambda>x. frame_addr (fst x)) (boot_frames 0 (boot_map b))"
  have d: "distinct ?F" using 1(1) by (auto simp: boot_good_def intro: distinct_boot_frames)
  have av: "boot_avail c = set (drop (unat (boot_next c)) ?F)" if "boot_map c = boot_map b" for c
    using that by (simp add: boot_avail_def drop_map)
  from 1 show ?case
  proof (cases rule: boot_allocate_cases)
    case some
    then have dr: "drop (unat (boot_next b)) ?F = f # drop (unat (boot_next b')) ?F"
      by (simp add: Cons_nth_drop_Suc [symmetric])
    have "distinct (drop (unat (boot_next b)) ?F)" using d by (rule distinct_drop)
    then show ?thesis using some(3,4) unfolding av [OF some(3)] av [OF refl] dr by simp
  qed simp
next
  case (2 b b')
  then show ?case using 2(1) by (cases rule: boot_allocate_cases) (auto simp: boot_avail_def)
next
  case (3 b)
  then have g: "crates_ok E" "map_ok (boot_map b)" "boot_inv b" by (simp_all add: boot_good_def)
  then show ?case
    using boot_allocate_none [OF g(1,2)] boot_allocate_some [OF g] by (metis not_less)
qed

lemma boot_run_taken:
  assumes "alloc_run (boot_allocate_frame E) b fs c" and "boot_good E b"
  shows "boot_map c = boot_map b \<and>
    map (\<lambda>x. frame_addr (fst x)) (boot_taken c) = map (\<lambda>x. frame_addr (fst x)) (boot_taken b) @ fs"
  using assms
proof (induction rule: alloc_run.induct)
  case (run_some a f b fs c)
  from run_some.prems run_some.hyps(1) show ?case
  proof (cases rule: boot_allocate_cases)
    case some
    then have "boot_taken b = boot_taken a @ [boot_frames 0 (boot_map a) ! unat (boot_next a)]"
      by (simp add: boot_taken_def take_Suc_conv_app_nth)
    with some run_some.IH show ?thesis by simp
  qed simp
next
  case (run_none a b fs c)
  from run_none.prems run_none.hyps(1) have "b = a" by (cases rule: boot_allocate_cases) auto
  with run_none show ?case by simp
qed simp

lemma bootstrap_counters:
  assumes "crates_ok E" and "map_ok mm" and "alloc_run (boot_allocate_frame E) (boot_fresh mm) fs b"
  shows "distinct fs \<and> set fs = frame_addr ` (\<Union>j < length mm.
    {region_start (mm ! j) ..< region_start (mm ! j) + unat (boot_used b ! j)})"
proof -
  have g: "boot_good E (boot_fresh mm)"
    using assms boot_inv_fresh by (simp add: boot_good_def boot_fresh_def)
  have "boot_map (boot_fresh mm) = mm" "boot_taken (boot_fresh mm) = []"
    by (simp_all add: boot_fresh_def boot_taken_def)
  then have taken: "boot_map b = mm" "fs = map (\<lambda>x. frame_addr (fst x)) (boot_taken b)"
    using boot_run_taken [OF assms(3) g] by simp_all
  have inv: "boot_inv b" and d: "distinct fs"
    using boot.run_frames [OF assms(3) g] by (simp_all add: boot_good_def)
  have len: "length mm \<le> 64" using assms(2) by (simp add: map_ok_def)
  have "fst ` set (boot_taken b) = (\<Union>j < length mm.
      {region_start (mm ! j) ..< region_start (mm ! j) + unat (boot_used b ! j)})" (is "_ = ?R")
  proof (intro set_eqI iffI)
    fix n assume "n \<in> fst ` set (boot_taken b)"
    then obtain j where nj: "(n, j) \<in> set (boot_taken b)" by force
    then have "j < 64"
      using boot_frames_bound(2) [OF assms(2)] taken(1) by (force simp: boot_taken_def dest: in_set_takeD)
    with nj boot_taken_block [OF inv] taken(1) show "n \<in> ?R" by auto
  next
    fix n assume "n \<in> ?R"
    then obtain j where j: "j < length mm" "region_start (mm ! j) \<le> n"
      "n < region_start (mm ! j) + unat (boot_used b ! j)" by auto
    with len boot_taken_block [OF inv, of j n] taken(1) have "(n, j) \<in> set (boot_taken b)" by simp
    then show "n \<in> fst ` set (boot_taken b)" by force
  qed
  moreover have "set fs = frame_addr ` fst ` set (boot_taken b)"
    unfolding taken(2) by (simp add: image_image)
  ultimately show ?thesis using d by simp
qed

section \<open>Properties\<close>

text \<open>
  C28. The bookkeeping of the bootstrap allocator is exact: after any run of allocations from the
  start, the frames handed out are pairwise different and are precisely the first \<^verbatim>\<open>used[j]\<close>
  frames of each region \<open>j\<close>.
\<close>

theorem bootstrap_counters_exact:
  assumes "crates_ok E" and "map_ok mm" and "alloc_run (boot_allocate_frame E) (boot_fresh mm) fs b"
  shows "distinct fs \<and> set fs = frame_addr ` (\<Union>j < length mm.
    {region_start (mm ! j) ..< region_start (mm ! j) + unat (boot_used b ! j)})"
  using assms by (rule bootstrap_counters)

lemma example_map_ok: "map_ok example_map"
  by (simp add: map_ok_def example_map_def region_start_def region_end_def usable_frames_def urange_def)

theorem bootstrap_counters_exact_witness:
  "\<exists>fs b. alloc_run (boot_allocate_frame std_crates) (boot_fresh example_map) fs b \<and>
     fs = [0x2000] \<and> unat (boot_used b ! 0) = 1"
proof -
  have g: "boot_good std_crates (boot_fresh example_map)"
    using std_crates_ok example_map_ok boot_inv_fresh by (simp add: boot_good_def boot_fresh_def)
  have F: "boot_frames 0 example_map = [(2, 0), (3, 0), (4, 0)]"
    by (simp add: example_map_def region_start_def region_end_def)
  have "boot_avail (boot_fresh example_map) \<noteq> {}"
    by (simp add: boot_avail_def boot_fresh_def F)
  then obtain f b where al: "boot_allocate_frame std_crates (boot_fresh example_map) = Inr (Some f, b)"
    using boot.alloc_progress [OF g] by blast
  with g have f: "f = 0x2000" "boot_taken b = [(2, 0)]" "boot_inv b"
    by (cases rule: boot_allocate_cases;
        simp add: F boot_fresh_def boot_taken_def boot_good_def frame_addr_def)+
  note run = alloc_run_single [of "boot_allocate_frame std_crates", OF al]
  have "unat (boot_used b ! 0) = 1" using f(2,3) by (simp add: boot_inv_def)
  moreover have "set [f] = frame_addr ` (\<Union>j < length example_map.
      {region_start (example_map ! j) ..< region_start (example_map ! j) + unat (boot_used b ! j)})"
    using bootstrap_counters_exact [OF std_crates_ok example_map_ok run] by simp
  ultimately show ?thesis using run f(1) by blast
qed

end
