(* ===== verification/Allocator_Init.thy ===== *)
theory Allocator_Init
  imports Bootstrap_Allocator
begin

text \<open>
  \<^verbatim>\<open>GlobalFrameAllocator::init\<close> of \<^verbatim>\<open>src/memory/frame_allocator/mod.rs\<close>: the bitmap is mapped with
  frames of the bootstrap allocator, then the frames that allocator has handed out and the frames
  of regions that must not be allocated are marked. The memory behind the new mapping is not
  cleared by the code, so its previous contents are a parameter, \<open>raw\<close>.
\<close>

section \<open>The constructor\<close>

definition BITS_PER_FRAME :: u64 where
  "BITS_PER_FRAME = 0x1000 * 8"

definition bitmap_frames :: "u64 \<Rightarrow> u64 res" where
  "bitmap_frames end_frame =
     rbind (checked_add end_frame BITS_PER_FRAME) (\<lambda>a.
     rbind (checked_sub a 1) (\<lambda>b. Inr (b div BITS_PER_FRAME)))"

definition map_bitmap ::
    "crates \<Rightarrow> ('m, BootStrapAllocator) map_to_fn \<Rightarrow> MemoryMap \<Rightarrow> u64 \<Rightarrow> 'm \<Rightarrow>
     ('m \<times> BootStrapAllocator) res" where
  "map_bitmap E map_to mm frames mapper =
     for_each (\<lambda>i st.
         rbind (checked_mul i 0x1000) (\<lambda>off.
         rbind (checked_add BITMAP_START off) (\<lambda>addr.
         allocate_bitmap_frame E map_to addr st)))
       (urange 0 frames)
       (mapper, \<lparr>boot_map = mm, boot_next = 0, boot_used = replicate 64 0\<rparr>)"

definition bitmap_slice :: "(u64 \<Rightarrow> u32) \<Rightarrow> usize \<Rightarrow> u32 list" where
  "bitmap_slice raw len = map (\<lambda>k. raw (BITMAP_START + 4 * word_of_nat k)) [0 ..< unat len]"

definition mark_bootstrap ::
    "MemoryMap \<Rightarrow> u64 list \<Rightarrow> GlobalFrameAllocator \<Rightarrow> GlobalFrameAllocator res" where
  "mark_bootstrap mm used =
     for_each (\<lambda>(block, size) this.
         rbind (index mm (word_of_nat block)) (\<lambda>r.
         let start = start_frame_number (region_range r) in
         rbind (checked_add start size) (\<lambda>stop.
         for_each mark_used (urange start stop) this)))
       (filter (\<lambda>(_, s). s \<noteq> 0) (enumerate 0 used))"

definition mark_regions :: "MemoryMap \<Rightarrow> GlobalFrameAllocator \<Rightarrow> GlobalFrameAllocator res" where
  "mark_regions mm =
     for_each (\<lambda>region this.
         case region_type region of
           Usable \<Rightarrow> Inr this
         | Reserved \<Rightarrow> Inr this
         | AcpiReclaimable \<Rightarrow> Inr this
         | FrameZero \<Rightarrow> Inr this
         | _ \<Rightarrow> for_each mark_used
             (urange (start_frame_number (region_range region))
                     (end_frame_number (region_range region))) this)
       mm"

definition frame_allocator_init ::
    "crates \<Rightarrow> ('m, BootStrapAllocator) map_to_fn \<Rightarrow> (u64 \<Rightarrow> u32) \<Rightarrow> MemoryMap \<Rightarrow> 'm \<Rightarrow>
     (GlobalFrameAllocator \<times> 'm) res" where
  "frame_allocator_init E map_to raw mm mapper =
     rbind (unwrap (if mm = [] then None else Some (last mm))) (\<lambda>last_region.
     let end_frame = end_frame_number (region_range last_region) in
     rbind (bitmap_frames end_frame) (\<lambda>frames.
     rbind (map_bitmap E map_to mm frames mapper) (\<lambda>(mapper', bootstrap).
     rbind (checked_add end_frame 1) (\<lambda>len.
     rbind (mark_bootstrap mm (boot_used bootstrap)
         \<lparr>memory_map = mm, next_usable = 0, bitmap = bitmap_slice raw len\<rparr>) (\<lambda>this.
     rbind (mark_regions (boot_map bootstrap) this) (\<lambda>this'.
       Inr (this', mapper')))))))"

section \<open>What the marking loops do\<close>

definition same_shape :: "GlobalFrameAllocator \<Rightarrow> GlobalFrameAllocator \<Rightarrow> bool" where
  "same_shape s t \<longleftrightarrow> memory_map t = memory_map s \<and> next_usable t = next_usable s \<and>
     length (bitmap t) = length (bitmap s)"

lemma same_shape_trans: "same_shape s t \<Longrightarrow> same_shape t u \<Longrightarrow> same_shape s u"
  by (simp add: same_shape_def)

lemma same_shape_refl [simp]: "same_shape s s"
  by (simp add: same_shape_def)

lemma mark_range_shape: "for_each mark_used xs s = Inr t \<Longrightarrow> same_shape s t"
  by (erule for_each_invariant [where P = "same_shape s"])
     (auto simp: same_shape_def dest: mark_used_fields)

lemma mark_range_shape_trans:
  "for_each mark_used xs t = Inr u \<Longrightarrow> same_shape s t \<Longrightarrow> same_shape s u"
  by (blast dest: mark_range_shape intro: same_shape_trans)

lemma mark_range_used: "for_each mark_used xs s = Inr t \<Longrightarrow> used_frames t = set xs \<union> used_frames s"
  by (simp add: used_frames_members bm.mark_all_members)

lemma mark_range_total:
  "(\<And>i. i \<in> set xs \<Longrightarrow> in_bitmap s i) \<Longrightarrow> \<exists>t. for_each mark_used xs s = Inr t"
  by (rule bm.mark_all_total)

lemma mark_bootstrap_shape: "mark_bootstrap mm used s = Inr t \<Longrightarrow> same_shape s t"
  unfolding mark_bootstrap_def
  by (erule for_each_invariant [where P = "same_shape s"])
     (auto simp: res_iffs Let_def intro: mark_range_shape_trans)

lemma mark_bootstrap_used:
  assumes "mark_bootstrap mm used s = Inr t" and "length mm \<le> 64" and "length used = 64"
    and "\<And>r. r \<in> set mm \<Longrightarrow> region_start r < 2 ^ 40" 
  shows "used_frames t = {i. \<exists>j < length mm. region_start (mm ! j) \<le> unat i \<and>
      unat i < region_start (mm ! j) + unat (used ! j)} \<union> used_frames s"
proof -
  let ?S = "\<lambda>(j, n). {i. region_start (mm ! j) \<le> unat i \<and> unat i < region_start (mm ! j) + unat (n :: u64)}"
  let ?xs = "filter (\<lambda>(_, s). s \<noteq> 0) (enumerate 0 used)"
  have el: "x \<in> set ?xs \<longleftrightarrow> fst x < 64 \<and> snd x = used ! fst x \<and> snd x \<noteq> 0" for x
    using assms(3) by (cases x) (auto simp: in_set_enumerate_eq)
  have "used_frames t = (\<Union>x \<in> set ?xs. if fst x < length mm then ?S x else {}) \<union> used_frames s"
    using assms(1) unfolding mark_bootstrap_def
  proof (rule for_each_union, goal_cases)
    case (1 x a b)
    obtain j n where x: "x = (j, n)" by fastforce
    have j: "j < 64" using 1(1) unfolding el x by simp
    from 1(2) obtain r e where "index mm (word_of_nat j) = Inr r"
      and e: "checked_add (start_frame_number (region_range r)) n = Inr e"
      and m: "for_each mark_used (urange (start_frame_number (region_range r)) e) a = Inr b"
      unfolding x by (auto simp: res_iffs Let_def)
    then have r: "r = mm ! j" "j < length mm"
      using j by (auto simp: index_eq_Inr_iff unat_of_nat)
    have "set (urange (start_frame_number (region_range r)) e) = ?S (j, n)"
      by (auto simp: checked_add_unat [OF e] region_start_def r word_le_nat_alt word_less_nat_alt)
    with mark_range_used [OF m] r(2) show ?case by (simp add: x)
  qed
  also have "(\<Union>x \<in> set ?xs. if fst x < length mm then ?S x else {}) =
      {i. \<exists>j < length mm. region_start (mm ! j) \<le> unat i \<and> unat i < region_start (mm ! j) + unat (used ! j)}"
    (is "?L = ?R")
  proof (intro set_eqI iffI)
    fix i assume "i \<in> ?L"
    then obtain x where "x \<in> set ?xs" "i \<in> ?S x" "fst x < length mm" by (auto split: if_splits)
    then show "i \<in> ?R" unfolding el by (cases x) auto
  next
    fix i assume "i \<in> ?R"
    then obtain j where j: "j < length mm" "region_start (mm ! j) \<le> unat i"
      "unat i < region_start (mm ! j) + unat (used ! j)" by auto
    then have "(j, used ! j) \<in> set ?xs" using assms(2) el [of "(j, used ! j)"] by auto
    with j show "i \<in> ?L" by (intro UN_I [of "(j, used ! j)"]) auto
  qed
  finally show ?thesis .
qed

text \<open>Regions whose frames are withheld from the allocator.\<close>

definition withheld :: "MemoryRegion \<Rightarrow> bool" where
  "withheld r \<longleftrightarrow> region_type r \<notin> {Usable, Reserved, AcpiReclaimable, FrameZero}"

lemma mark_regions_step:
  "(case region_type r of Usable \<Rightarrow> Inr t | Reserved \<Rightarrow> Inr t | AcpiReclaimable \<Rightarrow> Inr t
     | FrameZero \<Rightarrow> Inr t | _ \<Rightarrow> for_each mark_used xs t) =
   (if withheld r then for_each mark_used xs t else Inr t)"
  by (auto simp: withheld_def split: MemoryRegionType.splits)

lemma mark_regions_eq:
  "mark_regions mm = for_each (\<lambda>r t. if withheld r then for_each mark_used
     (urange (start_frame_number (region_range r)) (end_frame_number (region_range r))) t else Inr t) mm"
  unfolding mark_regions_def mark_regions_step ..

lemma mark_regions_shape: "mark_regions mm s = Inr t \<Longrightarrow> same_shape s t"
  unfolding mark_regions_eq
  by (erule for_each_invariant [where P = "same_shape s"])
     (auto intro: mark_range_shape_trans split: if_splits)

lemma mark_regions_used:
  assumes "mark_regions mm s = Inr t"
  shows "used_frames t = {i. \<exists>r \<in> set mm. withheld r \<and> region_start r \<le> unat i \<and> unat i < region_end r}
    \<union> used_frames s"
proof -
  let ?S = "\<lambda>r. if withheld r then {i. region_start r \<le> unat i \<and> unat i < region_end r} else {}"
  have "used_frames t = (\<Union>r \<in> set mm. ?S r) \<union> used_frames s"
    using assms unfolding mark_regions_eq
    by (rule for_each_union) (auto simp: region_start_def region_end_def word_le_nat_alt
        word_less_nat_alt mark_range_used split: if_splits)
  then show ?thesis by auto
qed

section \<open>The mapping loop\<close>

lemma allocate_bitmap_frame_run:
  assumes "map_to_draws mt" and "allocate_bitmap_frame E mt addr (m, b) = Inr (m', b')"
  shows "\<exists>fs. alloc_run (boot_allocate_frame E) b fs b' \<and> length fs \<le> 4"
proof -
  from assms(2) obtain f b1 page where f: "boot_allocate_frame E b = Inr (Some f, b1)"
    and mt: "mt (boot_allocate_frame E) page f {PRESENT, WRITABLE} m b1 = Inr (Inr (), m', b')"
    by (auto simp: allocate_bitmap_frame_def res_iffs)
  from assms(1) mt obtain fs where "alloc_run (boot_allocate_frame E) b1 fs b'" "length fs \<le> 3"
    by (rule map_to_drawsE)
  then show ?thesis using alloc_run.run_some [of "boot_allocate_frame E", OF f, of fs b']
    by (intro exI [of _ "f # fs"]) simp
qed

lemma bitmap_loop_run:
  assumes "map_to_draws mt"
    and "for_each (\<lambda>i st. rbind (checked_mul i 0x1000) (\<lambda>off.
      rbind (checked_add BITMAP_START off) (\<lambda>addr. allocate_bitmap_frame E mt addr st))) xs (m, b) = Inr (m', b')"
  shows "\<exists>fs. alloc_run (boot_allocate_frame E) b fs b' \<and> length fs \<le> 4 * length xs"
  using assms(2)
proof (induction xs arbitrary: m b)
  case Nil
  then show ?case by (auto intro!: exI [of _ "[]"] alloc_run.run_done)
next
  case (Cons x xs)
  then obtain addr m1 b1 where 1: "allocate_bitmap_frame E mt addr (m, b) = Inr (m1, b1)"
    and rest: "for_each (\<lambda>i st. rbind (checked_mul i 0x1000) (\<lambda>off.
      rbind (checked_add BITMAP_START off) (\<lambda>addr. allocate_bitmap_frame E mt addr st))) xs (m1, b1) = Inr (m', b')"
    by (auto simp: res_iffs)
  obtain fs gs where "alloc_run (boot_allocate_frame E) b fs b1" "length fs \<le> 4"
    "alloc_run (boot_allocate_frame E) b1 gs b'" "length gs \<le> 4 * length xs"
    using allocate_bitmap_frame_run [OF assms(1) 1] Cons.IH [OF rest] by blast
  then show ?case by (intro exI [of _ "fs @ gs"]) (auto intro: alloc_run_append)
qed

lemma boot_fresh_fields [simp]:
  "boot_map (boot_fresh mm) = mm" "boot_taken (boot_fresh mm) = []" "boot_next (boot_fresh mm) = 0"
  by (simp_all add: boot_fresh_def boot_taken_def)

lemma map_bitmap_run:
  assumes "map_to_draws mt" and "map_bitmap E mt mm n m = Inr (m', b)"
  obtains fs where "alloc_run (boot_allocate_frame E) (boot_fresh mm) fs b" and "length fs \<le> 4 * unat n"
  using bitmap_loop_run [OF assms(1) assms(2) [unfolded map_bitmap_def]] by (auto simp: boot_fresh_def)

lemma boot_run_numbers:
  assumes E: "crates_ok E" and mm: "map_ok mm"
    and run: "alloc_run (boot_allocate_frame E) (boot_fresh mm) fs b"
  shows "{i. \<exists>j < length mm. region_start (mm ! j) \<le> unat i \<and>
      unat i < region_start (mm ! j) + unat (boot_used b ! j)} = (\<lambda>f. f div 0x1000) ` set fs"
    (is "?L = _")
proof -
  let ?N = "\<Union>j < length mm. {region_start (mm ! j) ..< region_start (mm ! j) + unat (boot_used b ! j)}"
  have g: "boot_good E (boot_fresh mm)" using E mm boot_inv_fresh by (simp add: boot_good_def)
  have fs: "set fs = frame_addr ` ?N" using bootstrap_counters [OF E mm run] by simp
  have "n < 2 ^ 40" if "n \<in> ?N" for n
  proof -
    from that obtain j where j: "j < length mm" "(n, j) \<in> set (boot_taken b)"
      using boot_taken_block [of b] boot.run_frames [OF run g] boot_run_taken [OF run g] mm
      by (auto simp: boot_good_def map_ok_def)
    then have "(n, j) \<in> set (boot_frames 0 mm)"
      using boot_run_taken [OF run g] by (auto simp: boot_taken_def dest: in_set_takeD)
    from boot_frames_bound(1) [OF mm this] show ?thesis by simp
  qed
  then have "(\<lambda>f. f div 0x1000) ` set fs = word_of_nat ` ?N" "\<forall>n \<in> ?N. n < 2 ^ 64"
    unfolding fs image_image by (force intro!: image_cong frame_addr_div)+
  moreover have "?L = word_of_nat ` ?N"
  proof (intro set_eqI iffI)
    fix i assume "i \<in> ?L"
    then show "i \<in> word_of_nat ` ?N" by (intro image_eqI [of _ _ "unat i"]) auto
  next
    fix i :: u64 assume "i \<in> word_of_nat ` ?N"
    then obtain n where "n \<in> ?N" "i = word_of_nat n" by blast
    moreover from this \<open>\<forall>n \<in> ?N. n < 2 ^ 64\<close> have "n < 2 ^ 64" by blast
    then have "unat i = n" by (simp add: \<open>i = word_of_nat n\<close> unat_of_nat)
    ultimately show "i \<in> ?L" by auto
  qed
  ultimately show ?thesis by simp
qed

section \<open>The state after the constructor\<close>

lemma bitmap_frames_eq:
  assumes "unat e < 2 ^ 40"
  shows "\<exists>n. bitmap_frames e = Inr n \<and> unat n = (unat e + 32767) div 32768"
proof -
  have "unat (e + 0x8000) = unat e + 0x8000" using assms by (simp add: unat_word_ariths)
  moreover from this have "unat (e + 0x8000 - 1) = unat e + 32767"
    by (subst unat_sub) (simp_all add: word_le_nat_alt)
  ultimately show ?thesis
    using assms by (simp add: bitmap_frames_def BITS_PER_FRAME_def checked_add_def checked_sub_def
        word_le_nat_alt unat_div_distrib)
qed

text \<open>The used set right after the bitmap has been mapped: the leftovers in the mapped memory.\<close>

definition raw_used :: "(u64 \<Rightarrow> u32) \<Rightarrow> MemoryMap \<Rightarrow> u64 set" where
  "raw_used raw mm = used_frames \<lparr>memory_map = mm, next_usable = 0,
     bitmap = bitmap_slice raw (end_frame_number (region_range (last mm)) + 1)\<rparr>"

lemma init_state:
  assumes E: "crates_ok E" and mm: "map_ok mm" and draws: "map_to_draws mt"
    and init: "frame_allocator_init E mt raw mm m = Inr (s, m')"
  obtains fs b where "alloc_run (boot_allocate_frame E) (boot_fresh mm) fs b"
    and "memory_map s = mm" and "next_usable s = 0"
    and "length (bitmap s) = Suc (region_end (last mm))"
    and "used_frames s = (\<lambda>f. f div 0x1000) ` set fs \<union>
      {i. \<exists>r \<in> set mm. withheld r \<and> region_start r \<le> unat i \<and> unat i < region_end r} \<union> raw_used raw mm"
    and "length fs \<le> 4 * ((region_end (last mm) + 32767) div 32768)"
proof -
  let ?fin = "end_frame_number (region_range (last mm))"
  from mm have ne: "mm \<noteq> []" and len: "length mm \<le> 64" by (simp_all add: map_ok_def)
  from init ne obtain n b l this where n: "bitmap_frames ?fin = Inr n"
    and mb: "map_bitmap E mt mm n m = Inr (m', b)" and l: "checked_add ?fin 1 = Inr l"
    and m1: "mark_bootstrap mm (boot_used b)
      \<lparr>memory_map = mm, next_usable = 0, bitmap = bitmap_slice raw l\<rparr> = Inr this"
    and m2: "mark_regions (boot_map b) this = Inr s"
    by (auto simp: frame_allocator_init_def res_iffs Let_def)
  obtain fs where run: "alloc_run (boot_allocate_frame E) (boot_fresh mm) fs b" and count: "length fs \<le> 4 * unat n"
    using map_bitmap_run [OF draws mb] .
  have "unat ?fin < 2 ^ 40" using mm by (simp add: map_ok_def region_end_def)
  then have un: "unat n = (region_end (last mm) + 32767) div 32768"
    using bitmap_frames_eq [of ?fin] n by (simp add: region_end_def)
  have g: "boot_good E (boot_fresh mm)" using E mm boot_inv_fresh by (simp add: boot_good_def)
  have inv: "boot_inv b" and bm: "boot_map b = mm"
    using boot.run_frames [OF run g] boot_run_taken [OF run g] by (simp_all add: boot_good_def)
  have l': "l = ?fin + 1" and ul: "unat l = Suc (region_end (last mm))"
    using l checked_add_unat [OF l] by (auto simp: checked_add_eq_Inr_iff region_end_def)
  have shape: "same_shape \<lparr>memory_map = mm, next_usable = 0, bitmap = bitmap_slice raw l\<rparr> s"
    using mark_bootstrap_shape [OF m1] mark_regions_shape [OF m2] by (rule same_shape_trans)
  have "used_frames this = {i. \<exists>j < length mm. region_start (mm ! j) \<le> unat i \<and>
      unat i < region_start (mm ! j) + unat (boot_used b ! j)} \<union> raw_used raw mm"
    using mark_bootstrap_used [OF m1 len] inv map_okD(3) [OF mm]
    by (simp add: raw_used_def l' boot_inv_def)
  also have "{i. \<exists>j < length mm. region_start (mm ! j) \<le> unat i \<and>
      unat i < region_start (mm ! j) + unat (boot_used b ! j)} = (\<lambda>f. f div 0x1000) ` set fs"
    using boot_run_numbers [OF E mm run] .
  finally have "used_frames s = (\<lambda>f. f div 0x1000) ` set fs \<union>
      {i. \<exists>r \<in> set mm. withheld r \<and> region_start r \<le> unat i \<and> unat i < region_end r} \<union> raw_used raw mm"
    using mark_regions_used [OF m2] by (auto simp: bm)
  with run shape ul count un that show thesis by (simp add: same_shape_def bitmap_slice_def)
qed

lemma init_inv:
  assumes "map_ok mm" and "memory_map s = mm" and "length (bitmap s) = Suc (region_end (last mm))"
  shows "allocator_inv s"
  unfolding allocator_inv_def assms(2)
proof (intro conjI ballI)
  show "sorted_wrt (<) (usable_frames mm)" using assms(1) by (simp add: map_ok_def)
  fix i assume "i \<in> set (usable_frames mm)"
  then obtain r where r: "r \<in> set mm" "i < end_frame_number (region_range r)"
    by (auto simp: usable_frames_def)
  then have lt: "unat i < region_end r" by (simp add: region_end_def word_less_nat_alt)
  also have "\<dots> \<le> region_end (last mm)" using assms(1) r(1) by (simp add: map_ok_def)
  finally show "in_bitmap s i" unfolding in_bitmap_def assms(3)
    by (meson div_le_dividend le_less_trans less_Suc_eq)
  show "unat i < 2 ^ 40" using lt map_okD(2) [OF assms(1) r(1)] by (rule order.strict_trans)
qed

section \<open>The constructor returns\<close>

text \<open>
  The documented behaviour of \<^verbatim>\<open>map_to\<close> on success: if the allocator has the three frames that may
  be needed and the page is not mapped, the page gets mapped and no other page changes.
\<close>

definition map_to_succeeds ::
    "crates \<Rightarrow> ('m, BootStrapAllocator) map_to_fn \<Rightarrow> ('m \<Rightarrow> u64 set) \<Rightarrow> bool" where
  "map_to_succeeds E mt mapped \<longleftrightarrow>
     (\<forall>page frame flags m b.
        boot_good E b \<and> 3 \<le> card (boot_avail b) \<and> page \<notin> mapped m \<longrightarrow>
        (\<exists>m' b'. mt (boot_allocate_frame E) page frame flags m b = Inr (Inr (), m', b') \<and>
           mapped m' = insert page (mapped m)))"

definition bitmap_page :: "nat \<Rightarrow> u64" where
  "bitmap_page k = BITMAP_START + word_of_nat k * 0x1000"

lemma finite_boot_avail [simp]: "finite (boot_avail b)"
  by (simp add: boot_avail_def)

lemma bitmap_page_step:
  assumes "k < 2 ^ 25"
  shows "checked_mul (word_of_nat k :: u64) 0x1000 = Inr (word_of_nat k * 0x1000)"
    and "checked_add BITMAP_START (word_of_nat k * 0x1000) = Inr (bitmap_page k)"
    and "unat (bitmap_page k) = 0x666666660000 + k * 4096"
proof -
  have u: "unat (word_of_nat k :: u64) = k" using assms by (simp add: unat_of_nat)
  then show m: "checked_mul (word_of_nat k :: u64) 0x1000 = Inr (word_of_nat k * 0x1000)"
    using assms by (simp add: checked_mul_def)
  have "unat (word_of_nat k * 0x1000 :: u64) = k * 4096" using checked_mul_unat [OF m] u by simp
  then show a: "checked_add BITMAP_START (word_of_nat k * 0x1000) = Inr (bitmap_page k)"
    using assms by (simp add: checked_add_def BITMAP_START_def bitmap_page_def)
  show "unat (bitmap_page k) = 0x666666660000 + k * 4096"
    using checked_add_unat [OF a] \<open>unat (word_of_nat k * 0x1000) = k * 4096\<close>
    by (simp add: BITMAP_START_def)
qed

lemma allocate_bitmap_frame_total:
  assumes E: "crates_ok E" and draws: "map_to_draws mt" and succ: "map_to_succeeds E mt mapped"
    and g: "boot_good E b" and av: "4 \<le> card (boot_avail b)"
    and page: "unat addr < 2 ^ 47" "addr \<notin> mapped m"
  obtains m' b' where "allocate_bitmap_frame E mt addr (m, b) = Inr (m', b')"
    and "boot_good E b'" and "card (boot_avail b) - 4 \<le> card (boot_avail b')"
    and "mapped m' = insert addr (mapped m)"
proof -
  have "boot_avail b \<noteq> {}" using av by auto
  from boot.alloc_progress [OF g this] obtain f b1 where
    f: "boot_allocate_frame E b = Inr (Some f, b1)" .
  have b1: "boot_good E b1" "card (boot_avail b1) = card (boot_avail b) - 1"
    using boot.alloc_some [OF g f] by simp_all
  have "3 \<le> card (boot_avail b1)" using b1(2) av by simp
  with succ page(2) b1(1) obtain m' b' where
    mt: "mt (boot_allocate_frame E) addr f {PRESENT, WRITABLE} m b1 = Inr (Inr (), m', b')"
    and m': "mapped m' = insert addr (mapped m)"
    unfolding map_to_succeeds_def by blast
  from draws mt obtain fs where fs: "alloc_run (boot_allocate_frame E) b1 fs b'" "length fs \<le> 3"
    by (rule map_to_drawsE)
  have b': "boot_good E b'" "boot_avail b' = boot_avail b1 - set fs" "set fs \<subseteq> boot_avail b1"
    using boot.run_frames [OF fs(1) b1(1)] by simp_all
  have "card (set fs) \<le> 3" using card_length [of fs] fs(2) by linarith
  then have "card (boot_avail b) - 4 \<le> card (boot_avail b')"
    using b' b1(2) by (simp add: card_Diff_subset finite_subset [OF b'(3)])
  with f mt m' b'(1) that show thesis
    by (simp add: allocate_bitmap_frame_def crates_VirtAddr_new [OF E page(1)])
qed

lemma map_bitmap_loop_total:
  assumes E: "crates_ok E" and draws: "map_to_draws mt" and succ: "map_to_succeeds E mt mapped"
    and "N \<le> 2 ^ 25" and "k \<le> N" and "boot_good E b" and "4 * (N - k) \<le> card (boot_avail b)"
    and "\<And>j. k \<le> j \<Longrightarrow> j < N \<Longrightarrow> bitmap_page j \<notin> mapped m"
  shows "\<exists>m'' b''. for_each (\<lambda>i st. rbind (checked_mul i 0x1000) (\<lambda>off.
      rbind (checked_add BITMAP_START off) (\<lambda>addr. allocate_bitmap_frame E mt addr st)))
    (map word_of_nat [k ..< N]) (m, b) = Inr (m'', b'') \<and> mapped m'' = mapped m \<union> bitmap_page ` {k ..< N}"
  using assms(4-)
proof (induction "N - k" arbitrary: k m b)
  case 0
  then show ?case by simp
next
  case (Suc n)
  then have k: "k < N" "k < 2 ^ 25" by auto
  note page = bitmap_page_step [OF k(2)]
  have "unat (bitmap_page k) < 2 ^ 47" "bitmap_page k \<notin> mapped m" "4 \<le> card (boot_avail b)"
    using page(3) k Suc.prems(4,5) by auto
  from allocate_bitmap_frame_total [OF E draws succ Suc.prems(3) this(3,1,2)]
  obtain m' b' where step: "allocate_bitmap_frame E mt (bitmap_page k) (m, b) = Inr (m', b')"
    and b': "boot_good E b'" "card (boot_avail b) - 4 \<le> card (boot_avail b')"
    and m': "mapped m' = insert (bitmap_page k) (mapped m)" .
  have "bitmap_page j \<notin> mapped m'" if "Suc k \<le> j" "j < N" for j
  proof -
    have "unat (bitmap_page j) \<noteq> unat (bitmap_page k)"
      using bitmap_page_step(3) [of j] page(3) that Suc.prems(1) by simp
    then show ?thesis using Suc.prems(5) [of j] that m' by auto
  qed
  then have "\<exists>m'' b''. for_each (\<lambda>i st. rbind (checked_mul i 0x1000) (\<lambda>off.
      rbind (checked_add BITMAP_START off) (\<lambda>addr. allocate_bitmap_frame E mt addr st)))
    (map word_of_nat [Suc k ..< N]) (m', b') = Inr (m'', b'') \<and> mapped m'' = mapped m' \<union> bitmap_page ` {Suc k ..< N}"
    using Suc.hyps(2) Suc.prems b' k by (intro Suc.hyps(1)) auto
  moreover have "{k ..< N} = insert k {Suc k ..< N}" using k by auto
  ultimately show ?case using k page step m' by (auto simp: upt_conv_Cons)
qed

lemma boot_used_block:
  assumes b: "boot_inv b" and j: "j < 64" "boot_used b ! j \<noteq> 0"
  shows "j < length (boot_map b)"
    and "region_start (boot_map b ! j) \<le> i \<Longrightarrow>
      i < region_start (boot_map b ! j) + unat (boot_used b ! j) \<Longrightarrow>
      (i, j) \<in> set (boot_frames 0 (boot_map b))"
proof -
  have "0 < unat (boot_used b ! j)" using j(2) by (simp add: unat_gt_0)
  then have "filter (\<lambda>x. snd x = j) (boot_taken b) \<noteq> []"
    using b j(1) by (simp add: boot_inv_def)
  then obtain x where "x \<in> set (boot_taken b)" "snd x = j"
    by (auto simp: filter_empty_conv)
  then show *: "j < length (boot_map b)"
    using boot_frames_snd [of x 0 "boot_map b"] by (auto simp: boot_taken_def dest: in_set_takeD)
  show "(i, j) \<in> set (boot_frames 0 (boot_map b))"
    if "region_start (boot_map b ! j) \<le> i" "i < region_start (boot_map b ! j) + unat (boot_used b ! j)"
    using boot_taken_block [OF b j(1), of i] that * by (auto simp: boot_taken_def dest: in_set_takeD)
qed

lemma boot_frames_in_bitmap:
  assumes "map_ok mm" and "(unat i, j) \<in> set (boot_frames 0 mm)"
    and "length (bitmap s) = Suc (region_end (last mm))"
  shows "in_bitmap s i"
proof -
  have "unat i \<in> set (map unat (usable_frames mm))"
    unfolding boot_frames_usable [of 0, symmetric] using assms(2) by force
  then have "i \<in> set (usable_frames mm)" by (auto simp flip: word_unat_eq_iff)
  then show ?thesis
    using init_inv [OF assms(1), of "\<lparr>memory_map = mm, next_usable = 0, bitmap = bitmap s\<rparr>"] assms(3)
    by (simp add: allocator_inv_def in_bitmap_def)
qed

lemma mark_bootstrap_total:
  assumes mm: "map_ok mm" and b: "boot_inv b" "boot_map b = mm"
    and s: "length (bitmap s) = Suc (region_end (last mm))"
  shows "\<exists>t. mark_bootstrap mm (boot_used b) s = Inr t"
proof -
  have "\<exists>t. mark_bootstrap mm (boot_used b) s = Inr t \<and> same_shape s t"
    unfolding mark_bootstrap_def
  proof (rule for_each_total, goal_cases)
    case (2 x t)
    obtain j n where x: "x = (j, n)" by fastforce
    have jn: "j < 64" "n = boot_used b ! j" "boot_used b ! j \<noteq> 0"
      using 2(1) b(1) unfolding x by (auto simp: in_set_enumerate_eq boot_inv_def)
    note blk = boot_used_block [OF b(1) jn(1,3), unfolded b(2) jn(2) [symmetric]]
    let ?r = "mm ! j" and ?s = "start_frame_number (region_range (mm ! j))"
    have pos: "0 < unat n" using jn by (simp add: unat_gt_0)
    have "region_start ?r + unat n - 1 < 2 ^ 40"
      using boot_frames_bound(1) [OF mm blk(2), of "region_start ?r + unat n - 1"] pos by simp
    then have "unat ?s + unat n < 2 ^ 64" by (simp add: region_start_def)
    then have e: "checked_add ?s n = Inr (?s + n)" by (simp add: checked_add_def)
    have "in_bitmap t i" if "i \<in> set (urange ?s (?s + n))" for i
      using that checked_add_unat [OF e] s 2(2)
      by (intro boot_frames_in_bitmap [OF mm blk(2)])
         (simp_all add: region_start_def word_le_nat_alt word_less_nat_alt same_shape_def)
    then obtain u where u: "for_each mark_used (urange ?s (?s + n)) t = Inr u"
      using mark_range_total by blast
    with mark_range_shape_trans [OF u 2(2)] show ?case
      using blk(1) jn(1) e by (simp add: x index_def unat_of_nat)
  qed simp
  then show ?thesis by blast
qed

lemma mark_regions_total:
  assumes "map_ok mm" and s: "length (bitmap s) = Suc (region_end (last mm))"
  shows "\<exists>t. mark_regions mm s = Inr t"
proof -
  have "\<exists>t. mark_regions mm s = Inr t \<and> same_shape s t"
    unfolding mark_regions_eq
  proof (rule for_each_total, goal_cases)
    case (2 r t)
    let ?xs = "urange (start_frame_number (region_range r)) (end_frame_number (region_range r))"
    have "in_bitmap t i" if "i \<in> set ?xs" for i
    proof -
      have "unat i < region_end (last mm)"
        using that 2(1) assms(1) by (fastforce simp: map_ok_def region_end_def word_less_nat_alt)
      then show ?thesis using s 2(2) by (simp add: in_bitmap_def same_shape_def)
    qed
    then obtain u where u: "for_each mark_used ?xs t = Inr u" using mark_range_total by blast
    with mark_range_shape_trans [OF u 2(2)] 2(2) show ?case by simp
  qed simp
  then show ?thesis by blast
qed

lemma init_returns:
  assumes E: "crates_ok E" and mm: "map_ok mm"
    and draws: "map_to_draws mt" and succ: "map_to_succeeds E mt mapped"
    and enough: "4 * ((region_end (last mm) + 32767) div 32768) \<le> length (usable_frames mm)"
    and unmapped: "\<And>k. k < (region_end (last mm) + 32767) div 32768 \<Longrightarrow> bitmap_page k \<notin> mapped m"
  shows "\<exists>s m'. frame_allocator_init E mt raw mm m = Inr (s, m') \<and>
     mapped m' = mapped m \<union> bitmap_page ` {..< (region_end (last mm) + 32767) div 32768}"
proof -
  let ?fin = "end_frame_number (region_range (last mm))"
  let ?N = "(region_end (last mm) + 32767) div 32768"
  have ne: "mm \<noteq> []" and e40: "unat ?fin < 2 ^ 40" using mm by (simp_all add: map_ok_def region_end_def)
  obtain n where n: "bitmap_frames ?fin = Inr n" "unat n = ?N"
    using bitmap_frames_eq [OF e40] by (auto simp: region_end_def)
  have g: "boot_good E (boot_fresh mm)" using E mm boot_inv_fresh by (simp add: boot_good_def)
  have "card (boot_avail (boot_fresh mm)) = length (boot_frames 0 mm)"
    using distinct_card [OF distinct_boot_frames [OF mm]] by (simp add: boot_avail_def)
  then have "card (boot_avail (boot_fresh mm)) = length (usable_frames mm)"
    using arg_cong [OF boot_frames_usable [of 0 mm], of length] by simp
  moreover have "?N \<le> 2 ^ 25"
    using e40 unfolding region_end_def [symmetric] by simp
  ultimately obtain m' b where mb: "map_bitmap E mt mm n m = Inr (m', b)"
    and pages: "mapped m' = mapped m \<union> bitmap_page ` {..< ?N}"
    using map_bitmap_loop_total [OF E draws succ _ _ g, of ?N 0 m] enough unmapped n(2)
    by (auto simp: map_bitmap_def urange_def boot_fresh_def lessThan_atLeast0)
  obtain fs where run: "alloc_run (boot_allocate_frame E) (boot_fresh mm) fs b"
    using map_bitmap_run [OF draws mb] .
  have b: "boot_inv b" "boot_map b = mm"
    using boot.run_frames [OF run g] boot_run_taken [OF run g] by (simp_all add: boot_good_def)
  have l: "checked_add ?fin 1 = Inr (?fin + 1)" using e40 by (simp add: checked_add_def)
  let ?s = "\<lparr>memory_map = mm, next_usable = 0, bitmap = bitmap_slice raw (?fin + 1)\<rparr>"
  have len: "length (bitmap ?s) = Suc (region_end (last mm))"
    using checked_add_unat [OF l] by (simp add: bitmap_slice_def region_end_def)
  obtain t where t: "mark_bootstrap mm (boot_used b) ?s = Inr t"
    using mark_bootstrap_total [OF mm b len] by blast
  have "length (bitmap t) = Suc (region_end (last mm))"
    using mark_bootstrap_shape [OF t] len by (simp add: same_shape_def)
  then obtain u where "mark_regions mm t = Inr u" using mark_regions_total [OF mm] by blast
  then show ?thesis
    using ne n(1) mb l t pages by (simp add: frame_allocator_init_def b(2))
qed

text \<open>
  How much is left: on a cleared bitmap and with usable frames outside of the withheld regions, every
  usable frame is free but the at most four per page of the bitmap.
\<close>

lemma init_leaves_free:
  assumes "crates_ok E" and mm: "map_ok mm" and "map_to_draws mt" and "frame_allocator_init E mt raw mm m = Inr (s, m')"
    and "raw_used raw mm = {}"
    and "\<And>r i. r \<in> set mm \<Longrightarrow> withheld r \<Longrightarrow> i \<in> set (usable_frames mm) \<Longrightarrow> \<not> (region_start r \<le> unat i \<and> unat i < region_end r)"
  shows "length (usable_frames mm) - 4 * ((region_end (last mm) + 32767) div 32768) \<le> card (free_frames s)"
proof -
  obtain fs b where st: "memory_map s = mm" "next_usable s = 0"
    and used: "used_frames s = (\<lambda>f. f div 0x1000) ` set fs \<union>
      {i. \<exists>r \<in> set mm. withheld r \<and> region_start r \<le> unat i \<and> unat i < region_end r} \<union> raw_used raw mm"
    and count: "length fs \<le> 4 * ((region_end (last mm) + 32767) div 32768)"
    using init_state [OF assms(1-4)] .
  have "set (usable_frames mm) - (\<lambda>f. f div 0x1000) ` set fs \<subseteq> free_frames s"
    using assms(5,6) by (auto simp: free_frames_def st used)
  then have "card (set (usable_frames mm) - (\<lambda>f. f div 0x1000) ` set fs) \<le> card (free_frames s)"
    by (rule card_mono [rotated]) simp
  moreover have "card (set (usable_frames mm)) = length (usable_frames mm)"
    using mm by (intro distinct_card) (simp add: map_ok_def strict_sorted_iff)
  moreover have "card ((\<lambda>f. f div 0x1000) ` set fs) \<le> length fs"
    using card_image_le [of "set fs"] card_length [of fs] by (meson List.finite_set le_trans)
  moreover have "card (set (usable_frames mm)) - card ((\<lambda>f. f div 0x1000) ` set fs) \<le>
      card (set (usable_frames mm) - (\<lambda>f. f div 0x1000) ` set fs)" by (rule diff_card_le_card_Diff) simp
  ultimately show ?thesis using count by linarith
qed

section \<open>A concrete boot\<close>

definition boot_example_map :: MemoryMap where
  "boot_example_map =
     [\<lparr>region_range = \<lparr>start_frame_number = 2, end_frame_number = 9\<rparr>, region_type = Usable\<rparr>,
      \<lparr>region_range = \<lparr>start_frame_number = 9, end_frame_number = 12\<rparr>, region_type = KernelStack\<rparr>]"

lemma flat_map_to_succeeds: "map_to_succeeds E flat_map_to dom"
  unfolding map_to_succeeds_def
proof (intro allI impI, elim conjE)
  fix page frame flags and m :: "u64 \<rightharpoonup> u64" and b
  assume b: "boot_good E b" "3 \<le> card (boot_avail b)" and page: "page \<notin> dom m"
  have "boot_avail b \<noteq> {}" using b(2) by auto
  from boot.alloc_progress [OF b(1) this] obtain f b' where
    "boot_allocate_frame E b = Inr (Some f, b')" .
  with page show "\<exists>m' b'. flat_map_to (boot_allocate_frame E) page frame flags m b =
      Inr (Inr (), m', b') \<and> dom m' = insert page (dom m)"
    by (simp add: flat_map_to_def domIff)
qed

lemma boot_example_map_ok: "map_ok boot_example_map"
  by (simp add: map_ok_def boot_example_map_def region_start_def region_end_def usable_frames_def
      urange_def)

lemma boot_example_enough:
  "4 * ((region_end (last boot_example_map) + 32767) div 32768) \<le> length (usable_frames boot_example_map)"
  by (simp add: boot_example_map_def region_end_def usable_frames_def)

lemma boot_example_init:
  obtains s m' where
    "frame_allocator_init std_crates flat_map_to (\<lambda>_. 0) boot_example_map Map.empty = Inr (s, m')"
proof -
  have "\<exists>s m'. frame_allocator_init std_crates flat_map_to (\<lambda>_. 0) boot_example_map Map.empty = Inr (s, m') \<and>
      dom m' = dom (Map.empty :: u64 \<rightharpoonup> u64) \<union> bitmap_page ` {..< (region_end (last boot_example_map) + 32767) div 32768}"
    by (rule init_returns [OF std_crates_ok boot_example_map_ok flat_map_to_draws flat_map_to_succeeds
        boot_example_enough]) simp
  then show thesis using that by blast
qed

section \<open>Properties\<close>





text \<open>
  C10. The constructor returns: on a well-formed map with four usable frames per bitmap page (the
  page itself and up to three page tables), with a mapper that can map the bitmap pages, it
  neither panics nor fails, whatever the memory contained.
\<close>

theorem init_total:
  assumes "crates_ok E" and "map_ok mm" and "map_to_draws mt" and "map_to_succeeds E mt mapped"
    and "4 * ((region_end (last mm) + 32767) div 32768) \<le> length (usable_frames mm)"
    and "\<And>k. k < (region_end (last mm) + 32767) div 32768 \<Longrightarrow> bitmap_page k \<notin> mapped m"
  shows "\<exists>s m'. frame_allocator_init E mt raw mm m = Inr (s, m')"
  using init_returns [OF assms] by blast

theorem init_total_witness:
  "\<exists>s m'. frame_allocator_init std_crates flat_map_to (\<lambda>_. 0) boot_example_map Map.empty = Inr (s, m')"
  by (rule init_total [OF std_crates_ok boot_example_map_ok flat_map_to_draws flat_map_to_succeeds
      boot_example_enough]) simp

text \<open>
  C29. Every bitmap access for a frame of the memory map stays inside the pages that were mapped for
  the bitmap: the word of frame \<open>i\<close> ends before \<^verbatim>\<open>bitmap_frames\<close> pages after the start.
\<close>

theorem bitmap_access_is_mapped:
  assumes "bitmap_frames end_frame = Inr n" and "i < end_frame"
  shows "4 * unat (fst (frame_idx_to_parts i)) + 4 \<le> unat n * 4096"
proof -
  from assms(1) obtain a b where a: "checked_add end_frame 0x8000 = Inr a"
    and b: "checked_sub a 1 = Inr b" and n: "n = b div 0x8000"
    by (auto simp: bitmap_frames_def BITS_PER_FRAME_def res_iffs)
  have "unat n = (unat end_frame + 32767) div 32768"
    using checked_add_unat [OF a] checked_sub_unat [OF b] by (simp add: n unat_div_distrib)
  moreover have "unat i < unat end_frame" using assms(2) by (simp add: word_less_nat_alt)
  ultimately have "unat i < 32 * (1024 * unat n)" by linarith
  then have "unat i div 32 < 1024 * unat n" by (simp add: less_mult_imp_div_less mult.commute)
  then show ?thesis by (simp add: frame_idx_to_parts_eq)
qed

theorem bitmap_access_is_mapped_witness:
  "bitmap_frames 0x8001 = Inr 2 \<and> 4 * unat (fst (frame_idx_to_parts 0x8000)) + 4 \<le> 2 * 4096"
proof -
  have "bitmap_frames 0x8001 = Inr 2"
    by (simp add: bitmap_frames_def BITS_PER_FRAME_def checked_add_def checked_sub_def)
  with bitmap_access_is_mapped [OF this, of "0x8000"] show ?thesis by simp
qed

text \<open>
  The slice that stands for the bitmap claims one \<^verbatim>\<open>u32\<close> per frame instead of one bit: from 4096
  frames on (16 MiB of memory), it reaches beyond the pages mapped for it.
\<close>

theorem bitmap_slice_exceeds_mapping:
  assumes "bitmap_frames end_frame = Inr n" and "checked_add end_frame 1 = Inr len"
    and "4096 \<le> unat end_frame"
  shows "unat n * 4096 < 4 * length (bitmap_slice raw len)"
proof -
  from assms(1) obtain a b where a: "checked_add end_frame 0x8000 = Inr a"
    and b: "checked_sub a 1 = Inr b" and n: "n = b div 0x8000"
    by (auto simp: bitmap_frames_def BITS_PER_FRAME_def res_iffs)
  have "unat n = (unat end_frame + 32767) div 32768"
    using checked_add_unat [OF a] checked_sub_unat [OF b] by (simp add: n unat_div_distrib)
  moreover have "unat len = unat end_frame + 1" using checked_add_unat [OF assms(2)] by simp
  ultimately show ?thesis using assms(3) by (simp add: bitmap_slice_def)
qed

theorem bitmap_slice_exceeds_mapping_witness:
  "bitmap_frames 0x8000 = Inr 1 \<and> checked_add 0x8000 (1 :: u64) = Inr 0x8001 \<and>
   1 * 4096 < 4 * length (bitmap_slice (\<lambda>_. 0) 0x8001)"
proof -
  have a: "bitmap_frames 0x8000 = Inr 1"
    by (simp add: bitmap_frames_def BITS_PER_FRAME_def checked_add_def checked_sub_def)
  have b: "checked_add 0x8000 (1 :: u64) = Inr 0x8001" by (simp add: checked_add_def)
  show ?thesis using bitmap_slice_exceeds_mapping [OF a b, of "\<lambda>_. 0"] a b by simp
qed

end
