(* ===== verification/Paging.thy ===== *)
theory Paging
  imports Allocator_Init
begin

text \<open>
  \<^verbatim>\<open>src/memory/mod.rs\<close> and \<^verbatim>\<open>src/allocator.rs\<close>: the paging context (page tables and frame
  allocator), device mappings with their guards, the mapping of page ranges and the kernel heap.
  The static \<^verbatim>\<open>PAGING_CTX\<close> is an optional context that the operations take and return. The page
  table operations of the \<^verbatim>\<open>x86_64\<close> crate are the record \<open>mapper_ops\<close>; \<open>mapper_ok\<close> states their
  documented behaviour over the translation \<open>tr\<close> that a page table stands for.
\<close>

section \<open>Page table operations of the x86\_64 crate\<close>

record 'm mapper_ops =
  map_to :: "('m, GlobalFrameAllocator) map_to_fn"
  identity_map :: "GlobalFrameAllocator alloc_fn \<Rightarrow> u64 \<Rightarrow> PageTableFlag set \<Rightarrow> 'm \<Rightarrow>
    GlobalFrameAllocator \<Rightarrow> ((MapToError + unit) \<times> 'm \<times> GlobalFrameAllocator) res"
  unmap_page :: "u64 \<Rightarrow> 'm \<Rightarrow> ((UnmapError + u64) \<times> 'm) res"

type_synonym translation = "u64 \<rightharpoonup> u64 \<times> PageTableFlag set"

text \<open>
  Mapping: on success the page was not mapped and now translates to the frame with the flags, on
  an error no translation changes; frames for page tables come from the allocator. An identity
  mapping maps the page with the address of the frame. Unmapping returns the frame of the page.
\<close>

definition map_effect ::
    "('m \<Rightarrow> translation) \<Rightarrow> u64 \<Rightarrow> u64 \<Rightarrow> PageTableFlag set \<Rightarrow> 'm \<Rightarrow> MapToError + unit \<Rightarrow> 'm \<Rightarrow> bool"
where
  "map_effect tr page frame flags m r m' \<longleftrightarrow>
     (case r of
        Inl _ \<Rightarrow> tr m' = tr m
      | Inr _ \<Rightarrow> tr m page = None \<and> tr m' = (tr m)(page \<mapsto> (frame, flags)))"

definition mapper_ok :: "'m mapper_ops \<Rightarrow> ('m \<Rightarrow> translation) \<Rightarrow> bool" where
  "mapper_ok M tr \<longleftrightarrow>
     (\<forall>alloc page frame flags m a r m' a'. map_to M alloc page frame flags m a = Inr (r, m', a') \<longrightarrow>
        map_effect tr page frame flags m r m' \<and> (\<exists>fs. alloc_run alloc a fs a')) \<and>
     (\<forall>alloc frame flags m a r m' a'. identity_map M alloc frame flags m a = Inr (r, m', a') \<longrightarrow>
        map_effect tr frame frame flags m r m' \<and> (\<exists>fs. alloc_run alloc a fs a')) \<and>
     (\<forall>page m. case tr m page of
        None \<Rightarrow> unmap_page M page m = Inr (Inl PageNotMapped, m)
      | Some (frame, _) \<Rightarrow>
          (\<exists>m'. unmap_page M page m = Inr (Inr frame, m') \<and> tr m' = (tr m)(page := None)))"

lemma mapper_map_to:
  assumes "mapper_ok M tr" and "map_to M alloc page frame flags m a = Inr (r, m', a')"
  obtains fs where "map_effect tr page frame flags m r m'" and "alloc_run alloc a fs a'"
  using assms unfolding mapper_ok_def by blast

lemma mapper_identity_map:
  assumes "mapper_ok M tr" and "identity_map M alloc frame flags m a = Inr (r, m', a')"
  obtains fs where "map_effect tr frame frame flags m r m'" and "alloc_run alloc a fs a'"
  using assms unfolding mapper_ok_def by blast

lemma mapper_unmap:
  assumes "mapper_ok M tr" and "tr m page = Some (frame, flags)"
  obtains m' where "unmap_page M page m = Inr (Inr frame, m')" and "tr m' = (tr m)(page := None)"
proof -
  have "case tr m page of None \<Rightarrow> unmap_page M page m = Inr (Inl PageNotMapped, m)
      | Some (frame, _) \<Rightarrow>
          (\<exists>m'. unmap_page M page m = Inr (Inr frame, m') \<and> tr m' = (tr m)(page := None))"
    using assms(1) unfolding mapper_ok_def by blast
  with assms(2) that show thesis by auto
qed

section \<open>State and operations\<close>

record 'm PagingContext =
  mapper :: 'm
  allocator :: GlobalFrameAllocator

record UnmapGuard =
  guard_page :: u64
  unmap_frame :: bool

text \<open>
  \<^verbatim>\<open>Cr3::read\<close> gives the frame of the level 4 table; \<open>new_table\<close> stands for
  \<^verbatim>\<open>OffsetPageTable::new\<close>, applied to the address of that table and the offset.
\<close>

definition active_level_4_table :: "crates \<Rightarrow> u64 \<Rightarrow> u64 \<Rightarrow> u64 res" where
  "active_level_4_table E cr3 physical_memory_offset = VirtAddr_add E physical_memory_offset cr3"

definition memory_init ::
    "crates \<Rightarrow> ('m, BootStrapAllocator) map_to_fn \<Rightarrow> (u64 \<Rightarrow> u64 \<Rightarrow> 'm) \<Rightarrow> (u64 \<Rightarrow> u32) \<Rightarrow> u64 \<Rightarrow>
     u64 \<Rightarrow> MemoryMap \<Rightarrow> 'm PagingContext option \<Rightarrow> 'm PagingContext option res" where
  "memory_init E boot_map_to new_table raw cr3 physical_memory_offset mm paging_ctx =
     rbind (active_level_4_table E cr3 physical_memory_offset) (\<lambda>level_4_table.
     rbind (frame_allocator_init E boot_map_to raw mm
         (new_table level_4_table physical_memory_offset)) (\<lambda>(al, m).
     Inr (case paging_ctx of
            None \<Rightarrow> Some \<lparr>mapper = m, allocator = al\<rparr>
          | Some ctx \<Rightarrow> Some ctx)))"

definition mmap_extra_flags :: "MemoryRegionType \<Rightarrow> bool \<Rightarrow> PageTableFlag set res" where
  "mmap_extra_flags ty acpi =
     (case ty of
        Reserved \<Rightarrow> Inr {WRITABLE}
      | FrameZero \<Rightarrow> Inr {WRITABLE}
      | KernelStack \<Rightarrow>
          if acpi then Inr {} else Inl (ExplicitPanic ''Tried to mmap a device'')
      | _ \<Rightarrow> Inl (ExplicitPanic ''Tried to mmap a device''))"

definition mmap_dev ::
    "crates \<Rightarrow> 'm mapper_ops \<Rightarrow> u64 \<Rightarrow> bool \<Rightarrow>
     ('m PagingContext option, MapToError + UnmapGuard) eff" where
  "mmap_dev E M frame acpi paging_ctx =
     rbind (unwrap paging_ctx) (\<lambda>ctx.
     case get_frame_ty E (allocator ctx) frame of
       None \<Rightarrow> Inr (Inl FrameAllocationFailed, Some ctx)
     | Some ty \<Rightarrow>
         rbind (mmap_extra_flags ty acpi) (\<lambda>extra_flags.
         rbind (VirtAddr_new E frame) (\<lambda>virt.
         rbind (identity_map M (allocate_frame E) frame
             ({PRESENT, NO_CACHE, WRITE_THROUGH} \<union> extra_flags) (mapper ctx) (allocator ctx))
           (\<lambda>(r, m, al).
         case r of
           Inl e \<Rightarrow> Inr (Inl e, Some \<lparr>mapper = m, allocator = al\<rparr>)
         | Inr _ \<Rightarrow>
             rbind (frame_in_use al frame) (\<lambda>in_use.
             Inr (Inr \<lparr>guard_page = containing_address E virt, unmap_frame = \<not> in_use\<rparr>,
                  Some \<lparr>mapper = m, allocator = al\<rparr>))))))"

definition unmap ::
    "'m mapper_ops \<Rightarrow> UnmapGuard \<Rightarrow> ('m PagingContext option, UnmapError + unit) eff" where
  "unmap M guard paging_ctx =
     rbind (unwrap paging_ctx) (\<lambda>ctx.
     rbind (unmap_page M (guard_page guard) (mapper ctx)) (\<lambda>(r, m).
     case r of
       Inl e \<Rightarrow> Inr (Inl e, Some (ctx\<lparr>mapper := m\<rparr>))
     | Inr frame \<Rightarrow>
         if unmap_frame guard then
           rbind (deallocate_frame frame (allocator ctx)) (\<lambda>al.
           Inr (Inr (), Some \<lparr>mapper = m, allocator = al\<rparr>))
         else Inr (Inr (), Some (ctx\<lparr>mapper := m\<rparr>))))"

fun map_pages ::
    "crates \<Rightarrow> 'm mapper_ops \<Rightarrow> PageTableFlag set \<Rightarrow> u64 list \<Rightarrow>
     ('m PagingContext, MapToError + unit) eff" where
  "map_pages E M flags [] ctx = Inr (Inr (), ctx)"
| "map_pages E M flags (page # pages) ctx =
     rbind (allocate_frame E (allocator ctx)) (\<lambda>(allocated, al).
     case allocated of
       None \<Rightarrow> Inr (Inl FrameAllocationFailed, ctx\<lparr>allocator := al\<rparr>)
     | Some frame \<Rightarrow>
         rbind (map_to M (allocate_frame E) page frame flags (mapper ctx) al) (\<lambda>(r, m, al').
         case r of
           Inl e \<Rightarrow> Inr (Inl e, \<lparr>mapper = m, allocator = al'\<rparr>)
         | Inr _ \<Rightarrow> map_pages E M flags pages \<lparr>mapper = m, allocator = al'\<rparr>))"

definition map_range ::
    "crates \<Rightarrow> 'm mapper_ops \<Rightarrow> u64 list \<Rightarrow> PageTableFlag set \<Rightarrow>
     ('m PagingContext option, MapToError + unit) eff" where
  "map_range E M pages flags paging_ctx =
     rbind (unwrap paging_ctx) (\<lambda>ctx.
     rmap (\<lambda>(r, ctx'). (r, Some ctx')) (map_pages E M flags pages ctx))"

section \<open>The kernel heap\<close>

definition HEAP_START :: usize where
  "HEAP_START = 0x444444440000"

definition HEAP_SIZE :: usize where
  "HEAP_SIZE = 500 * 1024"

definition heap_page_range :: "crates \<Rightarrow> u64 list res" where
  "heap_page_range E =
     rbind (VirtAddr_new E HEAP_START) (\<lambda>heap_start.
     rbind (VirtAddr_add E heap_start HEAP_SIZE) (\<lambda>heap_limit.
     rbind (VirtAddr_sub E heap_limit 1) (\<lambda>heap_end.
     let heap_start_page = containing_address E heap_start;
         heap_end_page = containing_address E heap_end
     in Inr (range_inclusive E heap_start_page heap_end_page))))"

text \<open>
  The state of the heap module: the region given to the buddy allocator, if any, and the flag
  \<^verbatim>\<open>INITIALIZED\<close>.
\<close>

record heap_state =
  heap_region :: "(usize \<times> usize) option"
  INITIALIZED :: bool

definition init_heap ::
    "crates \<Rightarrow> 'm mapper_ops \<Rightarrow> ('m PagingContext option \<times> heap_state, MapToError + unit) eff" where
  "init_heap E M = (\<lambda>(paging_ctx, heap).
     rbind (heap_page_range E) (\<lambda>page_range.
     rbind (map_range E M page_range {PRESENT, WRITABLE} paging_ctx) (\<lambda>(r, paging_ctx').
     case r of
       Inl e \<Rightarrow> Inr (Inl e, (paging_ctx', heap))
     | Inr _ \<Rightarrow>
         Inr (Inr (), (paging_ctx',
           heap\<lparr>heap_region := Some (HEAP_START, HEAP_SIZE), INITIALIZED := True\<rparr>)))))"

definition alloc_error_handler :: "heap_state \<Rightarrow> panic" where
  "alloc_error_handler heap =
     (if INITIALIZED heap then ExplicitPanic ''Allocation error''
      else ExplicitPanic ''Allocator not initialized'')"

section \<open>Correctness of page range mapping\<close>

lemma alloc_run_steps:
  assumes "crates_ok E" and "alloc_run (allocate_frame E) s fs s'" and "allocator_inv s"
  shows "allocator_inv s'" and "distinct fs" and "set fs \<subseteq> frame_bytes ` free_frames s"
    and "frame_bytes ` free_frames s' = frame_bytes ` free_frames s - set fs"
    and "used_frames s \<subseteq> used_frames s'"
    and "memory_map s' = memory_map s" and "length (bitmap s') = length (bitmap s)"
  using gfa.run_frames [OF assms(2)] alloc_run_used [OF assms] assms(1,3) by auto

text \<open>
  The frames that the loop gave to the pages it got to: \<open>fs\<close> is as long as the list of pages unless
  the loop stopped with an error.
\<close>

lemma map_pages_spec:
  assumes E: "crates_ok E" and M: "mapper_ok M tr"
    and "allocator_inv (allocator ctx)" and "map_pages E M flags pages ctx = Inr (r, ctx')"
  shows "\<exists>fs. (\<forall>u. r = Inr u \<longrightarrow> length fs = length pages) \<and>
    allocator_inv (allocator ctx') \<and> distinct fs \<and>
    set fs \<subseteq> frame_bytes ` free_frames (allocator ctx) \<and>
    set fs \<inter> frame_bytes ` free_frames (allocator ctx') = {} \<and>
    frame_bytes ` free_frames (allocator ctx') \<subseteq> frame_bytes ` free_frames (allocator ctx) \<and>
    used_frames (allocator ctx) \<union> (\<lambda>f. f div 0x1000) ` set fs \<subseteq> used_frames (allocator ctx') \<and>
    memory_map (allocator ctx') = memory_map (allocator ctx) \<and>
    length (bitmap (allocator ctx')) = length (bitmap (allocator ctx)) \<and>
    tr (mapper ctx') = (tr (mapper ctx))(pages [\<mapsto>] map (\<lambda>f. (f, flags)) fs)"
  using assms(3,4)
proof (induction pages arbitrary: ctx)
  case Nil
  then show ?case by (intro exI [of _ "[]"]) auto
next
  case (Cons page pages)
  from Cons.prems(2) obtain ao al where al: "allocate_frame E (allocator ctx) = Inr (ao, al)"
    by (auto simp: res_iffs)
  show ?case
  proof (cases ao)
    case None
    with al have run: "alloc_run (allocate_frame E) (allocator ctx) [] al"
      by (auto intro: alloc_run.intros)
    from None al Cons.prems(2) have "r = Inl FrameAllocationFailed" "ctx' = ctx\<lparr>allocator := al\<rparr>" by auto
    with alloc_run_steps [OF E run Cons.prems(1)] show ?thesis by (intro exI [of _ "[]"]) auto
  next
    case (Some f)
    with al Cons.prems(2) obtain r1 m al' where
      mt: "map_to M (allocate_frame E) page f flags (mapper ctx) al = Inr (r1, m, al')"
      by (auto simp: res_iffs)
    from M mt obtain ts where eff: "map_effect tr page f flags (mapper ctx) r1 m"
      and ts: "alloc_run (allocate_frame E) al ts al'" by (rule mapper_map_to)
    from Some al have "alloc_run (allocate_frame E) (allocator ctx) (f # ts) al'"
      using ts by (auto intro: alloc_run.run_some)
    note st = alloc_run_steps [OF E this Cons.prems(1)] and used = alloc_run_used [OF E this Cons.prems(1)]
    show ?thesis
    proof (cases r1)
      case (Inl e)
      with Some al mt Cons.prems(2) have "r = Inl e" "ctx' = \<lparr>mapper = m, allocator = al'\<rparr>" by auto
      with Inl eff st show ?thesis by (intro exI [of _ "[]"]) (auto simp: map_effect_def)
    next
      case (Inr u)
      with Some al mt Cons.prems(2) have
        rec: "map_pages E M flags pages \<lparr>mapper = m, allocator = al'\<rparr> = Inr (r, ctx')" by auto
      from Cons.IH [OF _ rec] st(1) obtain fs where fs:
        "\<forall>u. r = Inr u \<longrightarrow> length fs = length pages" "allocator_inv (allocator ctx')" "distinct fs"
        "set fs \<subseteq> frame_bytes ` free_frames al'"
        "set fs \<inter> frame_bytes ` free_frames (allocator ctx') = {}"
        "frame_bytes ` free_frames (allocator ctx') \<subseteq> frame_bytes ` free_frames al'"
        "used_frames al' \<union> (\<lambda>f. f div 0x1000) ` set fs \<subseteq> used_frames (allocator ctx')"
        "memory_map (allocator ctx') = memory_map al'" "length (bitmap (allocator ctx')) = length (bitmap al')"
        "tr (mapper ctx') = (tr m)(pages [\<mapsto>] map (\<lambda>f. (f, flags)) fs)" by auto
      from Inr eff have "tr m = (tr (mapper ctx))(page \<mapsto> (f, flags))" by (simp add: map_effect_def)
      with fs st used show ?thesis by (intro exI [of _ "f # fs"]) auto
    qed
  qed
qed

lemma map_pages_extends:
  assumes M: "mapper_ok M tr" and "map_pages E M flags pages ctx = Inr (r, ctx')"
  shows "tr (mapper ctx) \<subseteq>\<^sub>m tr (mapper ctx')"
  using assms(2)
proof (induction pages arbitrary: ctx)
  case (Cons page pages)
  from Cons.prems obtain ao al where al: "allocate_frame E (allocator ctx) = Inr (ao, al)" by (auto simp: res_iffs)
  show ?case
  proof (cases ao)
    case None
    with al Cons.prems show ?thesis by auto
  next
    case (Some f)
    with al Cons.prems obtain r1 m al' where
      mt: "map_to M (allocate_frame E) page f flags (mapper ctx) al = Inr (r1, m, al')" by (auto simp: res_iffs)
    from M mt have "map_effect tr page f flags (mapper ctx) r1 m" by (rule mapper_map_to)
    then have m: "tr (mapper ctx) \<subseteq>\<^sub>m tr m" by (auto simp: map_effect_def map_le_def split: sum.splits)
    show ?thesis
    proof (cases r1)
      case (Inl e)
      with Some al mt Cons.prems m show ?thesis by auto
    next
      case (Inr u)
      with Some al mt Cons.prems have "map_pages E M flags pages \<lparr>mapper = m, allocator = al'\<rparr> = Inr (r, ctx')" by auto
      from Cons.IH [OF this] m show ?thesis using map_le_trans by fastforce
    qed
  qed
qed simp

lemma map_upds_nth:
  "distinct xs \<Longrightarrow> length xs = length ys \<Longrightarrow> i < length xs \<Longrightarrow> (m(xs [\<mapsto>] ys)) (xs ! i) = Some (ys ! i)"
proof (induction xs arbitrary: m ys i)
  case (Cons x xs)
  then obtain y ys' where "ys = y # ys'" by (cases ys) auto
  with Cons show ?case by (cases i) (auto simp: map_upds_apply_nontin)
qed simp

section \<open>Device mappings\<close>

lemma frame_in_use_bitmap: "frame_in_use s frame = Inr u \<Longrightarrow> in_bitmap s (frame div 0x1000)"
  by (auto simp: frame_in_use_def is_used_eq split: if_splits)

lemma frame_in_use_iff: "frame_in_use s frame = Inr u \<Longrightarrow> u \<longleftrightarrow> frame div 0x1000 \<in> used_frames s"
  by (auto simp: frame_in_use_def used_frames_def)

lemma page_of_frame:
  assumes "crates_ok E" and "aligned frame" and "unat frame < 2 ^ 47"
  shows "VirtAddr_new E frame = Inr frame" and "containing_address E frame = frame"
  using assms by (simp_all add: crates_VirtAddr_new crates_containing aligned_eqI)

text \<open>A successful \<^verbatim>\<open>mmap_dev\<close>, taken apart.\<close>

lemma mmap_dev_ok:
  assumes E: "crates_ok E" and M: "mapper_ok M tr" and inv: "allocator_inv (allocator ctx)"
    and frame: "aligned frame" "unat frame < 2 ^ 47"
    and run: "mmap_dev E M frame acpi (Some ctx) = Inr (Inr g, c)"
  obtains ctx' ty extra fs where "c = Some ctx'" and "get_frame_ty E (allocator ctx) frame = Some ty"
    and "mmap_extra_flags ty acpi = Inr extra"
    and "tr (mapper ctx) frame = None"
    and "tr (mapper ctx') = (tr (mapper ctx))(frame \<mapsto> (frame, {PRESENT, NO_CACHE, WRITE_THROUGH} \<union> extra))"
    and "alloc_run (allocate_frame E) (allocator ctx) fs (allocator ctx')"
    and "guard_page g = frame"
    and "unmap_frame g \<longleftrightarrow> frame div 0x1000 \<notin> used_frames (allocator ctx')"
    and "in_bitmap (allocator ctx') (frame div 0x1000)"
proof -
  from run obtain ty where ty: "get_frame_ty E (allocator ctx) frame = Some ty"
    by (cases "get_frame_ty E (allocator ctx) frame") (auto simp: mmap_dev_def)
  with run obtain extra r m al where ex: "mmap_extra_flags ty acpi = Inr extra"
    and im: "identity_map M (allocate_frame E) frame ({PRESENT, NO_CACHE, WRITE_THROUGH} \<union> extra)
      (mapper ctx) (allocator ctx) = Inr (r, m, al)"
    and rest: "(case r of Inl e \<Rightarrow> Inr (Inl e, Some \<lparr>mapper = m, allocator = al\<rparr>)
       | Inr _ \<Rightarrow> rbind (frame_in_use al frame) (\<lambda>in_use. Inr (Inr \<lparr>guard_page =
           containing_address E frame, unmap_frame = \<not> in_use\<rparr>, Some \<lparr>mapper = m, allocator = al\<rparr>))) = Inr (Inr g, c)"
    by (auto simp: mmap_dev_def res_iffs page_of_frame(1) [OF E frame])
  from M im obtain fs where eff: "map_effect tr frame frame
      ({PRESENT, NO_CACHE, WRITE_THROUGH} \<union> extra) (mapper ctx) r m"
    and fs: "alloc_run (allocate_frame E) (allocator ctx) fs al" by (rule mapper_identity_map)
  from rest obtain x u where r: "r = Inr x" and u: "frame_in_use al frame = Inr u"
    and g: "g = \<lparr>guard_page = frame, unmap_frame = \<not> u\<rparr>" and c: "c = Some \<lparr>mapper = m, allocator = al\<rparr>"
    by (cases r) (auto simp: res_iffs page_of_frame(2) [OF E frame])
  show thesis
    by (rule that [OF c ty ex, of fs])
       (use eff r fs g frame_in_use_iff [OF u] frame_in_use_bitmap [OF u] in \<open>auto simp: map_effect_def\<close>)
qed

lemma unmap_ok:
  assumes M: "mapper_ok M tr" and inv: "allocator_inv (allocator ctx)"
    and tr: "tr (mapper ctx) (guard_page g) = Some (frame, flags)"
    and bit: "unmap_frame g \<Longrightarrow> in_bitmap (allocator ctx) (frame div 0x1000)"
  obtains ctx' where "unmap M g (Some ctx) = Inr (Inr (), Some ctx')"
    and "tr (mapper ctx') = (tr (mapper ctx))(guard_page g := None)"
    and "allocator_inv (allocator ctx')" and "memory_map (allocator ctx') = memory_map (allocator ctx)"
    and "length (bitmap (allocator ctx')) = length (bitmap (allocator ctx))"
    and "used_frames (allocator ctx') =
      (if unmap_frame g then used_frames (allocator ctx) - {frame div 0x1000} else used_frames (allocator ctx))"
proof -
  from M tr obtain m where m: "unmap_page M (guard_page g) (mapper ctx) = Inr (Inr frame, m)"
    "tr m = (tr (mapper ctx))(guard_page g := None)" by (rule mapper_unmap)
  show thesis
  proof (cases "unmap_frame g")
    case True
    with bit obtain al where al: "mark_unused (frame div 0x1000) (allocator ctx) = Inr al"
      using bm.unmark_defined by blast
    from True m al mark_unused_fields [OF al] used_frames_unmark [OF al] inv
      allocator_inv_cong [of al "allocator ctx"]
    show thesis by (intro that [of "\<lparr>mapper = m, allocator = al\<rparr>"]) (auto simp: unmap_def deallocate_frame_def)
  next
    case False
    with m inv show thesis by (intro that [of "ctx\<lparr>mapper := m\<rparr>"]) (auto simp: unmap_def)
  qed
qed

section \<open>The interface of device mappings\<close>

text \<open>
  What the users of device mappings rely on: a frame that is mapped successfully was not mapped
  before, and its guard names it; a guard of a mapped frame unmaps just that frame; and a guard
  stays usable while other frames are mapped and unmapped.
\<close>

locale device_mapper =
  fixes dmap :: "u64 \<Rightarrow> ('s, MapToError + 'g) eff"
    and dunmap :: "'g \<Rightarrow> ('s, UnmapError + unit) eff"
    and page_of :: "'g \<Rightarrow> u64"
    and mapped :: "'s \<Rightarrow> u64 set"
    and good :: "'s \<Rightarrow> bool"
    and guard_ok :: "'s \<Rightarrow> 'g \<Rightarrow> bool"
    and mappable :: "u64 \<Rightarrow> bool"
  assumes map_law: "good s \<Longrightarrow> mappable f \<Longrightarrow> dmap f s = Inr (Inr g, s') \<Longrightarrow>
      good s' \<and> f \<notin> mapped s \<and> mapped s' = insert f (mapped s) \<and> page_of g = f \<and> guard_ok s' g \<and>
      (\<forall>h. guard_ok s h \<longrightarrow> guard_ok s' h)"
    and unmap_law: "good s \<Longrightarrow> guard_ok s g \<Longrightarrow> page_of g \<in> mapped s \<Longrightarrow>
      \<exists>s'. dunmap g s = Inr (Inr (), s') \<and> good s' \<and> mapped s' = mapped s - {page_of g} \<and>
        (\<forall>h. guard_ok s h \<longrightarrow> guard_ok s' h)"

definition paging_good ::
    "crates \<Rightarrow> 'm mapper_ops \<Rightarrow> ('m \<Rightarrow> translation) \<Rightarrow> 'm PagingContext option \<Rightarrow> bool" where
  "paging_good E M tr c \<longleftrightarrow> crates_ok E \<and> mapper_ok M tr \<and> (\<exists>ctx. c = Some ctx \<and> allocator_inv (allocator ctx))"

definition paging_mapped :: "('m \<Rightarrow> translation) \<Rightarrow> 'm PagingContext option \<Rightarrow> u64 set" where
  "paging_mapped tr c = {p. \<exists>ctx flags. c = Some ctx \<and> tr (mapper ctx) p = Some (p, flags)}"

definition paging_guard_ok :: "'m PagingContext option \<Rightarrow> UnmapGuard \<Rightarrow> bool" where
  "paging_guard_ok c g \<longleftrightarrow>
     (unmap_frame g \<longrightarrow> (\<exists>ctx. c = Some ctx \<and> in_bitmap (allocator ctx) (guard_page g div 0x1000)))"

definition device_frame :: "u64 \<Rightarrow> bool" where
  "device_frame f \<longleftrightarrow> aligned f \<and> unat f < 2 ^ 47"

lemma paging_guard_ok_mono:
  "length (bitmap (allocator ctx')) = length (bitmap (allocator ctx)) \<Longrightarrow>
     paging_guard_ok (Some ctx) h \<Longrightarrow> paging_guard_ok (Some ctx') h"
  by (simp add: paging_guard_ok_def in_bitmap_def)

interpretation pg: device_mapper "\<lambda>f. mmap_dev E M f acpi" "unmap M" guard_page "paging_mapped tr"
    "paging_good E M tr" paging_guard_ok device_frame for E M acpi tr
proof unfold_locales
  fix s f g s'
  assume good: "paging_good E M tr s" and f: "device_frame f"
    and run: "mmap_dev E M f acpi s = Inr (Inr g, s')"
  from good obtain ctx where s: "s = Some ctx" "crates_ok E" "mapper_ok M tr" "allocator_inv (allocator ctx)"
    by (auto simp: paging_good_def)
  from f have "aligned f" "unat f < 2 ^ 47" by (simp_all add: device_frame_def)
  from mmap_dev_ok [OF s(2-4) this run [unfolded s(1)]] obtain ctx' ty extra fs where 1: "s' = Some ctx'"
    "tr (mapper ctx) f = None"
    "tr (mapper ctx') = (tr (mapper ctx))(f \<mapsto> (f, {PRESENT, NO_CACHE, WRITE_THROUGH} \<union> extra))"
    "alloc_run (allocate_frame E) (allocator ctx) fs (allocator ctx')" "guard_page g = f"
    "in_bitmap (allocator ctx') (f div 0x1000)" by metis
  note st = alloc_run_steps [OF s(2) 1(4) s(4)]
  show "paging_good E M tr s' \<and> f \<notin> paging_mapped tr s \<and> paging_mapped tr s' = insert f (paging_mapped tr s) \<and>
      guard_page g = f \<and> paging_guard_ok s' g \<and> (\<forall>h. paging_guard_ok s h \<longrightarrow> paging_guard_ok s' h)"
    using 1 s st paging_guard_ok_mono [OF st(7)] by (auto simp: paging_good_def paging_mapped_def paging_guard_ok_def)
next
  fix s g
  assume good: "paging_good E M tr s" and g: "paging_guard_ok s g" "guard_page g \<in> paging_mapped tr s"
  from good g(2) obtain ctx flags where s: "s = Some ctx" "crates_ok E" "mapper_ok M tr"
    "allocator_inv (allocator ctx)" "tr (mapper ctx) (guard_page g) = Some (guard_page g, flags)"
    by (auto simp: paging_good_def paging_mapped_def)
  from g(1) s(1) have "unmap_frame g \<Longrightarrow> in_bitmap (allocator ctx) (guard_page g div 0x1000)"
    by (simp add: paging_guard_ok_def)
  from unmap_ok [OF s(3-5) this] obtain ctx' where "unmap M g (Some ctx) = Inr (Inr (), Some ctx')"
    "tr (mapper ctx') = (tr (mapper ctx))(guard_page g := None)" "allocator_inv (allocator ctx')"
    "length (bitmap (allocator ctx')) = length (bitmap (allocator ctx))" by metis
  with s show "\<exists>s'. unmap M g s = Inr (Inr (), s') \<and> paging_good E M tr s' \<and>
      paging_mapped tr s' = paging_mapped tr s - {guard_page g} \<and> (\<forall>h. paging_guard_ok s h \<longrightarrow> paging_guard_ok s' h)"
    using paging_guard_ok_mono [of ctx' ctx]
    by (intro exI [of _ "Some ctx'"]) (auto simp: paging_good_def paging_mapped_def)
qed

section \<open>The heap is mapped\<close>

text \<open>
  The documented behaviour of \<^verbatim>\<open>map_to\<close> on success: with three frames left in the allocator, a page
  that is not mapped can be mapped, taking at most three frames for page tables.
\<close>

definition map_to_works :: "crates \<Rightarrow> 'm mapper_ops \<Rightarrow> ('m \<Rightarrow> translation) \<Rightarrow> bool" where
  "map_to_works E M tr \<longleftrightarrow>
     (\<forall>page frame flags m a. allocator_inv a \<and> 3 \<le> card (free_frames a) \<and> tr m page = None \<longrightarrow>
        (\<exists>m' a' fs. map_to M (allocate_frame E) page frame flags m a = Inr (Inr (), m', a') \<and>
           alloc_run (allocate_frame E) a fs a' \<and> length fs \<le> 3))"

lemma card_free_run:
  assumes "crates_ok E" and "alloc_run (allocate_frame E) s fs s'" and "allocator_inv s"
  shows "card (free_frames s) - length fs \<le> card (free_frames s')"
proof -
  note st = alloc_run_steps [OF assms]
  have "card (frame_bytes ` free_frames s) - card (set fs) \<le> card (frame_bytes ` free_frames s')"
    unfolding st(4) by (intro diff_card_le_card_Diff) simp
  then show ?thesis
    using card_image [OF frame_bytes_inj_free [OF assms(3)]] card_image [OF frame_bytes_inj_free [OF st(1)]]
      distinct_card [OF st(2)] by simp
qed

lemma map_pages_total:
  assumes E: "crates_ok E" and M: "mapper_ok M tr" and W: "map_to_works E M tr"
    and "allocator_inv (allocator ctx)" and "4 * length pages \<le> card (free_frames (allocator ctx))"
    and "distinct pages" and "\<forall>p \<in> set pages. tr (mapper ctx) p = None"
  shows "\<exists>ctx'. map_pages E M flags pages ctx = Inr (Inr (), ctx') \<and>
    card (free_frames (allocator ctx)) - 4 * length pages \<le> card (free_frames (allocator ctx'))"
  using assms(4-)
proof (induction pages arbitrary: ctx)
  case (Cons page pages)
  then have "free_frames (allocator ctx) \<noteq> {}" by auto
  from allocate_frame_some [OF E Cons.prems(1) this] obtain f al where
    al: "allocate_frame E (allocator ctx) = Inr (Some f, al)" by metis
  have inv: "allocator_inv al" by (rule allocate_frame_inv [OF E Cons.prems(1) al])
  have c1: "card (free_frames (allocator ctx)) - 1 \<le> card (free_frames al)"
    using card_free_run [OF E alloc_run_single [of "allocate_frame E", OF al] Cons.prems(1)] by simp
  then have "3 \<le> card (free_frames al)" using Cons.prems(2) by simp
  moreover have "tr (mapper ctx) page = None" using Cons.prems(4) by simp
  ultimately obtain m al' fs where
    mt: "map_to M (allocate_frame E) page f flags (mapper ctx) al = Inr (Inr (), m, al')"
    and fs: "alloc_run (allocate_frame E) al fs al'" "length fs \<le> 3"
    using W inv unfolding map_to_works_def by blast
  from M mt have tr: "tr m = (tr (mapper ctx))(page \<mapsto> (f, flags))"
    by (rule mapper_map_to) (simp add: map_effect_def)
  have left: "card (free_frames (allocator ctx)) - 4 \<le> card (free_frames al')"
    using card_free_run [OF E fs(1) inv] c1 fs(2) by simp
  then have "4 * length pages \<le> card (free_frames al')" using Cons.prems(2) by simp
  moreover have "\<forall>p \<in> set pages. tr m p = None" using Cons.prems(3,4) tr by auto
  ultimately show ?case
    using Cons.IH [of "\<lparr>mapper = m, allocator = al'\<rparr>"] alloc_run_steps(1) [OF E fs(1) inv] Cons.prems(3) left
    by (auto simp: al mt)
qed simp

lemma heap_pages_eq:
  assumes "crates_ok E"
  shows "heap_page_range E = Inr (map frame_addr [frame_no HEAP_START ..< frame_no HEAP_START + 125])"
proof -
  have "frame_no (HEAP_START + HEAP_SIZE - 1) = frame_no HEAP_START + 124"
    by (simp add: frame_no_def HEAP_START_def HEAP_SIZE_def)
  moreover have "unat HEAP_START < 2 ^ 47" "unat HEAP_START + unat HEAP_SIZE < 2 ^ 47"
    "1 \<le> HEAP_START + HEAP_SIZE" "unat (HEAP_START + HEAP_SIZE) < 2 ^ 47"
    by (simp_all add: HEAP_START_def HEAP_SIZE_def)
  ultimately show ?thesis
    using assms
    by (simp add: heap_page_range_def crates_VirtAddr_new crates_VirtAddr_add crates_VirtAddr_sub
        crates_containing crates_range_inclusive add.commute del: upt_Suc)
qed

section \<open>Concrete page tables\<close>

text \<open>A page table that is its own translation, for closed examples.\<close>

definition flat_mapper :: "translation mapper_ops" where
  "flat_mapper =
     (let map_page = (\<lambda>alloc page frame flags m a.
        case m page of
          Some (f, _) \<Rightarrow> Inr (Inl (PageAlreadyMapped f), m, a)
        | None \<Rightarrow> rbind (alloc a) (\<lambda>(t, a').
            case t of
              None \<Rightarrow> Inr (Inl FrameAllocationFailed, m, a')
            | Some _ \<Rightarrow> Inr (Inr (), m(page \<mapsto> (frame, flags)), a')))
      in \<lparr>map_to = map_page,
          identity_map = (\<lambda>alloc frame. map_page alloc frame frame),
          unmap_page = (\<lambda>page m. case m page of
              None \<Rightarrow> Inr (Inl PageNotMapped, m)
            | Some (f, _) \<Rightarrow> Inr (Inr f, m(page := None)))\<rparr>)"

lemma flat_mapper_ok: "mapper_ok flat_mapper (\<lambda>m. m)"
  unfolding mapper_ok_def
proof (intro conjI allI impI)
  fix alloc page frame flags m r m' and a a' :: GlobalFrameAllocator
  have run: "\<exists>fs. alloc_run alloc a fs a'" if "a' = a \<or> (\<exists>t. alloc a = Inr (t, a'))"
    using that by (auto intro: alloc_run.intros) (metis alloc_run.intros option.exhaust)
  show "map_effect (\<lambda>m. m) page frame flags m r m'" "\<exists>fs. alloc_run alloc a fs a'"
    if "map_to flat_mapper alloc page frame flags m a = Inr (r, m', a')"
    using that by (auto simp: flat_mapper_def map_effect_def res_iffs split: option.splits intro!: run)
  show "map_effect (\<lambda>m. m) frame frame flags m r m'" "\<exists>fs. alloc_run alloc a fs a'"
    if "identity_map flat_mapper alloc frame flags m a = Inr (r, m', a')"
    using that by (auto simp: flat_mapper_def map_effect_def res_iffs split: option.splits intro!: run)
qed (auto simp: flat_mapper_def split: option.splits)

definition device_map :: MemoryMap where
  "device_map =
     [\<lparr>region_range = \<lparr>start_frame_number = 2, end_frame_number = 9\<rparr>, region_type = Usable\<rparr>,
      \<lparr>region_range = \<lparr>start_frame_number = 9, end_frame_number = 12\<rparr>, region_type = Reserved\<rparr>]"

definition example_ctx :: "translation PagingContext" where
  "example_ctx = \<lparr>mapper = Map.empty,
     allocator = \<lparr>memory_map = device_map, next_usable = 0, bitmap = replicate 13 0\<rparr>\<rparr>"

lemma example_ctx_inv: "allocator_inv (allocator example_ctx)"
  by (rule init_inv [of device_map])
     (simp_all add: example_ctx_def device_map_def map_ok_def region_start_def region_end_def
       usable_frames_def urange_def)

lemma example_ctx_mapper [simp]: "mapper example_ctx = Map.empty"
  by (simp add: example_ctx_def)

lemma example_ctx_usable: "usable_frames device_map = [2, 3, 4, 5, 6, 7, 8]"
  by (simp add: device_map_def usable_frames_def urange_def)

lemma example_ctx_alloc:
  "allocate_frame std_crates (allocator example_ctx) =
     Inr (Some 0x2000, \<lparr>memory_map = device_map, next_usable = 2, bitmap = (replicate 13 0)[0 := 4]\<rparr>)"
  by (simp add: example_ctx_def allocate_frame_def recalculate_next_usable_def example_ctx_usable
      is_used_eq mark_used_eq in_bitmap_def checked_mul_def std_crates_def)

section \<open>Properties\<close>

text \<open>
  C11. When \<^verbatim>\<open>map_range\<close> succeeds, every page of the range translates to a frame of its own with the
  requested flags; these frames were free before and cannot be handed out any more; no other page
  changes; and the allocator keeps its invariant.
\<close>

theorem map_range_maps_fresh_frames:
  assumes "crates_ok E" and "mapper_ok M tr" and "allocator_inv (allocator ctx)"
    and "distinct pages" and "map_range E M pages flags (Some ctx) = Inr (Inr (), c)"
  shows "\<exists>ctx' fs. c = Some ctx' \<and> allocator_inv (allocator ctx') \<and>
    length fs = length pages \<and> distinct fs \<and>
    set fs \<subseteq> frame_bytes ` free_frames (allocator ctx) \<and>
    set fs \<inter> frame_bytes ` free_frames (allocator ctx') = {} \<and>
    (\<forall>i < length pages. tr (mapper ctx') (pages ! i) = Some (fs ! i, flags)) \<and>
    (\<forall>p. p \<notin> set pages \<longrightarrow> tr (mapper ctx') p = tr (mapper ctx) p)"
proof -
  from assms(5) obtain ctx' where c: "c = Some ctx'"
    and run: "map_pages E M flags pages ctx = Inr (Inr (), ctx')"
    by (auto simp: map_range_def res_iffs)
  from map_pages_spec [OF assms(1-3) run] obtain fs where fs: "length fs = length pages"
    "allocator_inv (allocator ctx')" "distinct fs" "set fs \<subseteq> frame_bytes ` free_frames (allocator ctx)"
    "set fs \<inter> frame_bytes ` free_frames (allocator ctx') = {}"
    "tr (mapper ctx') = (tr (mapper ctx))(pages [\<mapsto>] map (\<lambda>f. (f, flags)) fs)" by auto
  have "tr (mapper ctx') (pages ! i) = Some (fs ! i, flags)" if "i < length pages" for i
    using map_upds_nth [OF assms(4), of "map (\<lambda>f. (f, flags)) fs" i] that fs(1,6) by simp
  with c fs show ?thesis by (intro exI [of _ ctx'] exI [of _ fs]) (auto simp: map_upds_apply_nontin)
qed

theorem map_range_maps_fresh_frames_witness:
  "\<exists>ctx'. map_range std_crates flat_mapper [0x5000] {PRESENT} (Some example_ctx) = Inr (Inr (), Some ctx') \<and>
     allocator_inv (allocator ctx')"
proof -
  have "\<exists>al. map_to flat_mapper (allocate_frame std_crates) 0x5000 0x2000 {PRESENT} Map.empty
      \<lparr>memory_map = device_map, next_usable = 2, bitmap = (replicate 13 0)[0 := 4]\<rparr> =
      Inr (Inr (), [0x5000 \<mapsto> (0x2000, {PRESENT})], al)"
    by (simp add: flat_mapper_def allocate_frame_def recalculate_next_usable_def example_ctx_usable
      is_used_eq mark_used_eq in_bitmap_def checked_mul_def std_crates_def)
  then have "\<exists>c. map_range std_crates flat_mapper [0x5000] {PRESENT} (Some example_ctx) = Inr (Inr (), c)"
    using example_ctx_alloc by (auto simp: map_range_def)
  then obtain c where c: "map_range std_crates flat_mapper [0x5000] {PRESENT} (Some example_ctx) = Inr (Inr (), c)"
    by blast
  from map_range_maps_fresh_frames [OF std_crates_ok flat_mapper_ok example_ctx_inv _ c] c show ?thesis
    by auto
qed

text \<open>
  C12. What a device mapping grants: the page of the frame itself, uncached and write-through, and
  writable exactly if the allocator reports the frame as reserved or as frame zero; a frame
  reported as kernel stack is mapped only for ACPI and read-only, and a frame of any other type is
  never mapped. No other page changes.
\<close>

theorem mmap_dev_grants:
  assumes "crates_ok E" and "mapper_ok M tr" and "allocator_inv (allocator ctx)"
    and "aligned frame" and "unat frame < 2 ^ 47"
    and "mmap_dev E M frame acpi (Some ctx) = Inr (Inr g, c)"
  shows "\<exists>ctx' ty flags. c = Some ctx' \<and> allocator_inv (allocator ctx') \<and>
    get_frame_ty E (allocator ctx) frame = Some ty \<and>
    (ty = Reserved \<or> ty = FrameZero \<or> ty = KernelStack \<and> acpi) \<and>
    tr (mapper ctx) frame = None \<and> tr (mapper ctx') = (tr (mapper ctx))(frame \<mapsto> (frame, flags)) \<and>
    {PRESENT, NO_CACHE, WRITE_THROUGH} \<subseteq> flags \<and>
    (WRITABLE \<in> flags \<longleftrightarrow> ty = Reserved \<or> ty = FrameZero)"
proof (rule mmap_dev_ok [OF assms], goal_cases)
  case (1 ctx' ty extra fs)
  then have "(ty = Reserved \<or> ty = FrameZero \<or> ty = KernelStack \<and> acpi) \<and>
      (WRITABLE \<in> extra \<longleftrightarrow> ty = Reserved \<or> ty = FrameZero)"
    by (auto simp: mmap_extra_flags_def split: MemoryRegionType.splits if_splits)
  with 1 alloc_run_steps(1) [OF assms(1) 1(6) assms(3)] show ?thesis by auto
qed

lemma example_mmap:
  "\<exists>g c. mmap_dev std_crates flat_mapper 0x9000 acpi (Some example_ctx) = Inr (Inr g, Some c)"
proof -
  have ty: "get_frame_ty std_crates (allocator example_ctx) 0x9000 = Some Reserved"
    by (simp add: get_frame_ty_def example_ctx_def device_map_def std_crates_def)
  have "\<exists>m al. identity_map flat_mapper (allocate_frame std_crates) 0x9000 F (mapper example_ctx)
      (allocator example_ctx) = Inr (Inr (), m, al) \<and> length (bitmap al) = 13" for F
    by (simp add: flat_mapper_def example_ctx_alloc)
  then obtain m al where "identity_map flat_mapper (allocate_frame std_crates) 0x9000
      {PRESENT, NO_CACHE, WRITE_THROUGH, WRITABLE} (mapper example_ctx) (allocator example_ctx) =
      Inr (Inr (), m, al)" "length (bitmap al) = 13" by metis
  moreover from this(2) obtain u where "frame_in_use al 0x9000 = Inr u"
    by (simp add: frame_in_use_def is_used_eq in_bitmap_def)
  moreover have "VirtAddr_new std_crates 0x9000 = Inr 0x9000" by (simp add: std_crates_def)
  ultimately show ?thesis using ty by (simp add: mmap_dev_def mmap_extra_flags_def)
qed

lemma aligned_9000: "aligned 0x9000" "unat (0x9000 :: u64) < 2 ^ 47"
  by (simp_all add: aligned_def)

theorem mmap_dev_grants_witness:
  "\<exists>g ctx' flags. mmap_dev std_crates flat_mapper 0x9000 False (Some example_ctx) = Inr (Inr g, Some ctx') \<and>
     mapper ctx' 0x9000 = Some (0x9000, flags) \<and> WRITABLE \<in> flags"
proof -
  obtain g c where g: "mmap_dev std_crates flat_mapper 0x9000 False (Some example_ctx) = Inr (Inr g, Some c)"
    using example_mmap by blast
  from mmap_dev_grants [OF std_crates_ok flat_mapper_ok example_ctx_inv aligned_9000 g]
  obtain flags where "mapper c 0x9000 = Some (0x9000, flags)" "WRITABLE \<in> flags"
    by (auto simp: get_frame_ty_def example_ctx_def device_map_def std_crates_def)
  with g show ?thesis by blast
qed

text \<open>
  C13. Mapping a device frame and giving the guard back is a round trip: \<^verbatim>\<open>unmap\<close> succeeds, the
  translation is the one before \<^verbatim>\<open>mmap_dev\<close>, and the used set does not change, so a frame that is in
  use is not freed by its guard.
\<close>

theorem mmap_dev_unmap_roundtrip:
  assumes "crates_ok E" and "mapper_ok M tr" and "allocator_inv (allocator ctx)"
    and "aligned frame" and "unat frame < 2 ^ 47"
    and "mmap_dev E M frame acpi (Some ctx) = Inr (Inr g, Some ctx')"
  shows "\<exists>ctx''. unmap M g (Some ctx') = Inr (Inr (), Some ctx'') \<and>
    tr (mapper ctx'') = tr (mapper ctx) \<and> allocator_inv (allocator ctx'') \<and>
    used_frames (allocator ctx'') = used_frames (allocator ctx')"
proof (rule mmap_dev_ok [OF assms], goal_cases)
  case (1 c ty extra fs)
  then have c: "c = ctx'" by simp
  have inv: "allocator_inv (allocator c)" by (rule alloc_run_steps(1) [OF assms(1) 1(6) assms(3)])
  have "tr (mapper c) (guard_page g) = Some (frame, {PRESENT, NO_CACHE, WRITE_THROUGH} \<union> extra)"
    using 1(5,7) by simp
  from unmap_ok [OF assms(2) inv this] 1(9) obtain d where
    "unmap M g (Some c) = Inr (Inr (), Some d)" "tr (mapper d) = (tr (mapper c))(guard_page g := None)"
    "allocator_inv (allocator d)" "used_frames (allocator d) =
      (if unmap_frame g then used_frames (allocator c) - {frame div 0x1000} else used_frames (allocator c))"
    by blast
  with 1(4,5,7,8) show ?thesis unfolding c by (intro exI [of _ d]) (auto simp: fun_eq_iff)
qed

theorem mmap_dev_unmap_roundtrip_witness:
  "\<exists>g ctx' ctx''. mmap_dev std_crates flat_mapper 0x9000 False (Some example_ctx) = Inr (Inr g, Some ctx') \<and>
     unmap flat_mapper g (Some ctx') = Inr (Inr (), Some ctx'') \<and> mapper ctx'' = Map.empty"
proof -
  obtain g c where g: "mmap_dev std_crates flat_mapper 0x9000 False (Some example_ctx) = Inr (Inr g, Some c)"
    using example_mmap by blast
  with mmap_dev_unmap_roundtrip [OF std_crates_ok flat_mapper_ok example_ctx_inv aligned_9000 g]
  show ?thesis by auto
qed

lemma init_heap_succeeds:
  assumes "crates_ok E" and "mapper_ok M tr" and "map_to_works E M tr"
    and "allocator_inv (allocator ctx)" and "500 \<le> card (free_frames (allocator ctx))"
    and "\<forall>n < 125. tr (mapper ctx) (frame_addr (frame_no HEAP_START + n)) = None"
  shows "\<exists>ctx' backing. init_heap E M (Some ctx, h) =
      Inr (Inr (), (Some ctx', \<lparr>heap_region = Some (HEAP_START, HEAP_SIZE), INITIALIZED = True\<rparr>)) \<and>
    allocator_inv (allocator ctx') \<and> inj_on backing {frame_no HEAP_START ..< frame_no HEAP_START + 125} \<and>
    (\<forall>a. HEAP_START \<le> a \<and> a < HEAP_START + HEAP_SIZE \<longrightarrow>
       tr (mapper ctx') (frame_addr (frame_no a)) = Some (backing (frame_no a), {PRESENT, WRITABLE}) \<and>
       backing (frame_no a) \<in> frame_bytes ` free_frames (allocator ctx) \<and>
       backing (frame_no a) \<notin> frame_bytes ` free_frames (allocator ctx')) \<and>
    (\<forall>k. frame_no HEAP_START \<le> k \<and> k < frame_no HEAP_START + 125 \<longrightarrow>
       tr (mapper ctx') (frame_addr k) = Some (backing k, {PRESENT, WRITABLE}) \<and>
       backing k div 0x1000 \<in> used_frames (allocator ctx')) \<and>
    memory_map (allocator ctx') = memory_map (allocator ctx) \<and>
    length (bitmap (allocator ctx')) = length (bitmap (allocator ctx)) \<and>
    (\<forall>p. p \<notin> frame_addr ` {frame_no HEAP_START ..< frame_no HEAP_START + 125} \<longrightarrow>
       tr (mapper ctx') p = tr (mapper ctx) p) \<and>
    card (free_frames (allocator ctx)) - 500 \<le> card (free_frames (allocator ctx'))"
proof -
  let ?n = "frame_no HEAP_START" let ?pages = "map frame_addr [?n ..< ?n + 125]"
  have "?n + 125 < 2 ^ 52" by (simp add: frame_no_def HEAP_START_def)
  then have dist: "distinct ?pages" by (auto simp: distinct_map inj_on_def frame_addr_inj)
  have "\<forall>p \<in> set ?pages. tr (mapper ctx) p = None"
  proof
    fix p assume "p \<in> set ?pages"
    then obtain k where k: "?n \<le> k" "k < ?n + 125" "p = frame_addr k" by auto
    then show "tr (mapper ctx) p = None" using assms(6) [rule_format, of "k - ?n"] by simp
  qed
  from map_pages_total [OF assms(1-4) _ dist this] assms(5) obtain ctx' where
    run: "map_pages E M {PRESENT, WRITABLE} ?pages ctx = Inr (Inr (), ctx')"
    and left: "card (free_frames (allocator ctx)) - 4 * length ?pages \<le> card (free_frames (allocator ctx'))" by auto
  from map_pages_spec [OF assms(1,2,4) run] obtain fs where fs: "length fs = 125"
    "allocator_inv (allocator ctx')" "distinct fs" "set fs \<subseteq> frame_bytes ` free_frames (allocator ctx)"
    "set fs \<inter> frame_bytes ` free_frames (allocator ctx') = {}"
    "(\<lambda>f. f div 0x1000) ` set fs \<subseteq> used_frames (allocator ctx')"
    "memory_map (allocator ctx') = memory_map (allocator ctx)" "length (bitmap (allocator ctx')) = length (bitmap (allocator ctx))"
    "tr (mapper ctx') = (tr (mapper ctx))(?pages [\<mapsto>] map (\<lambda>f. (f, {PRESENT, WRITABLE})) fs)" by auto
  have tr: "tr (mapper ctx') (frame_addr k) = Some (fs ! (k - ?n), {PRESENT, WRITABLE})"
    if "?n \<le> k" "k < ?n + 125" for k
    using map_upds_nth [OF dist, of "map (\<lambda>f. (f, {PRESENT, WRITABLE})) fs" "k - ?n"] that fs(1,9) by simp
  have other: "tr (mapper ctx') p = tr (mapper ctx) p" if "p \<notin> frame_addr ` {?n ..< ?n + 125}" for p
    using that fs(9) by (simp add: map_upds_apply_nontin del: upt_Suc)
  have page: "?n \<le> frame_no a \<and> frame_no a < ?n + 125"
    if "HEAP_START \<le> a" "a < HEAP_START + HEAP_SIZE" for a
    using that by (simp add: frame_no_def HEAP_START_def HEAP_SIZE_def word_le_nat_alt word_less_nat_alt
        less_eq_div_iff_mult_less_eq div_less_iff_less_mult)
  have mem: "fs ! (k - ?n) \<in> set fs" if "?n \<le> k" "k < ?n + 125" for k
    by (rule nth_mem) (use that fs(1) in simp)
  have inj: "inj_on (\<lambda>k. fs ! (k - ?n)) {?n ..< ?n + 125}"
    using fs(1,3) by (auto simp: inj_on_def nth_eq_iff_index_eq)
  have "init_heap E M (Some ctx, h) =
      Inr (Inr (), (Some ctx', \<lparr>heap_region = Some (HEAP_START, HEAP_SIZE), INITIALIZED = True\<rparr>))"
    using run by (simp add: init_heap_def heap_pages_eq [OF assms(1)] map_range_def del: upt_Suc)
  moreover have "fs ! (k - ?n) div 0x1000 \<in> used_frames (allocator ctx')" if "?n \<le> k" "k < ?n + 125" for k
    using fs(6) mem [OF that] by blast
  moreover have "card (free_frames (allocator ctx)) - 500 \<le> card (free_frames (allocator ctx'))" using left by simp
  ultimately show ?thesis
    using fs(2,4,5,7,8) tr other page mem inj by (intro exI [of _ ctx'] exI [of _ "\<lambda>k. fs ! (k - ?n)"]) blast
qed

text \<open>
  The heap comes up: with 500 free frames (125 pages, each taking a frame and at most three page
  tables) and nothing mapped at the heap, \<^verbatim>\<open>init_heap\<close> succeeds, gives the region to the allocator
  and sets \<^verbatim>\<open>INITIALIZED\<close>; after it every byte of the region is backed by a writable page, bytes
  of different pages by different frames, and no frame of the heap can be handed out again.
\<close>

theorem init_heap_maps_heap:
  assumes "crates_ok E" and "mapper_ok M tr" and "map_to_works E M tr"
    and "allocator_inv (allocator ctx)" and "500 \<le> card (free_frames (allocator ctx))"
    and "\<forall>n < 125. tr (mapper ctx) (frame_addr (frame_no HEAP_START + n)) = None"
  shows "\<exists>ctx' backing. init_heap E M (Some ctx, h) =
      Inr (Inr (), (Some ctx', \<lparr>heap_region = Some (HEAP_START, HEAP_SIZE), INITIALIZED = True\<rparr>)) \<and>
    allocator_inv (allocator ctx') \<and> inj_on backing {frame_no HEAP_START ..< frame_no HEAP_START + 125} \<and>
    (\<forall>a. HEAP_START \<le> a \<and> a < HEAP_START + HEAP_SIZE \<longrightarrow>
       tr (mapper ctx') (frame_addr (frame_no a)) = Some (backing (frame_no a), {PRESENT, WRITABLE}) \<and>
       backing (frame_no a) \<in> frame_bytes ` free_frames (allocator ctx) \<and>
       backing (frame_no a) \<notin> frame_bytes ` free_frames (allocator ctx'))"
  using init_heap_succeeds [OF assms, of h] by blast

lemma flat_mapper_works:
  assumes E: "crates_ok E" shows "map_to_works E flat_mapper (\<lambda>m. m)"
  unfolding map_to_works_def
proof (intro allI impI, elim conjE)
  fix page frame flags and m :: translation and a
  assume a: "allocator_inv a" "3 \<le> card (free_frames a)" and m: "m page = None"
  then have "free_frames a \<noteq> {}" by auto
  from allocate_frame_some [OF E a(1) this] obtain f a' where
    al: "allocate_frame E a = Inr (Some f, a')" by metis
  show "\<exists>m' a' fs. map_to flat_mapper (allocate_frame E) page frame flags m a = Inr (Inr (), m', a') \<and>
      alloc_run (allocate_frame E) a fs a' \<and> length fs \<le> 3"
    using alloc_run_single [of "allocate_frame E", OF al] al m
    by (intro exI [of _ "m(page \<mapsto> (frame, flags))"] exI [of _ a'] exI [of _ "[f]"])
       (simp add: flat_mapper_def)
qed

definition heap_ctx :: "translation PagingContext" where
  "heap_ctx = \<lparr>mapper = Map.empty,
     allocator = \<lparr>memory_map = [\<lparr>region_range = \<lparr>start_frame_number = 2, end_frame_number = 1000\<rparr>,
         region_type = Usable\<rparr>], next_usable = 0, bitmap = replicate 1001 0\<rparr>\<rparr>"

lemma heap_ctx_ok:
  "allocator_inv (allocator heap_ctx)" "500 \<le> card (free_frames (allocator heap_ctx))"
proof -
  show "allocator_inv (allocator heap_ctx)"
    by (rule init_inv [of "memory_map (allocator heap_ctx)"])
       (simp_all add: heap_ctx_def map_ok_def region_start_def region_end_def
         usable_frames_def strict_sorted_iff)
  have "free_frames (allocator heap_ctx) = set (urange 2 1000)"
    by (auto simp: free_frames_def used_frames_def heap_ctx_def usable_frames_def is_used_eq
        in_bitmap_def split: if_splits)
  moreover have "card (set (urange 2 (1000 :: u64))) = 998"
    using distinct_card [OF distinct_urange, of 2 "1000 :: u64"] by (simp del: set_urange)
  ultimately show "500 \<le> card (free_frames (allocator heap_ctx))" by simp
qed

theorem init_heap_maps_heap_witness:
  "\<exists>ctx'. init_heap std_crates flat_mapper (Some heap_ctx, \<lparr>heap_region = None, INITIALIZED = False\<rparr>) =
     Inr (Inr (), (Some ctx', \<lparr>heap_region = Some (HEAP_START, HEAP_SIZE), INITIALIZED = True\<rparr>))"
proof -
  have "\<forall>n < 125. mapper heap_ctx (frame_addr (frame_no HEAP_START + n)) = None" by (simp add: heap_ctx_def)
  from init_heap_maps_heap [where tr = "\<lambda>m. m", OF std_crates_ok flat_mapper_ok flat_mapper_works [OF std_crates_ok]
      heap_ctx_ok this, of "\<lparr>heap_region = None, INITIALIZED = False\<rparr>"]
  show ?thesis by blast
qed

end
