(* ===== verification/Hardware.thy ===== *)
theory Hardware
  imports Rust_Prelude
begin

text \<open>
  The machine below the kernel. Every access that the code makes to it is an event, and the state
  \<open>hw\<close> keeps the events so far, oldest first, and the interrupt flag of the processor. The devices
  are a parameter: what a port read or a volatile load returns is a function of the events before
  it. The state record is extended by the components that have state of their own, so all
  operations are polymorphic in the extension.

  \<^verbatim>\<open>u8::read_from_port\<close>, \<^verbatim>\<open>u32::write_to_port\<close>, \<^verbatim>\<open>read_volatile\<close> and the like are one operation each,
  polymorphic in the width of the word.
\<close>

section \<open>Events and devices\<close>

datatype io_event =
    PortIn nat u16 nat
  | PortOut nat u16 nat
  | Load nat u64 nat
  | Store nat u64 nat
  | Halt

record hw =
  trace :: "io_event list"
  interrupt_flag :: bool

record devices =
  port_answer :: "io_event list \<Rightarrow> nat \<Rightarrow> u16 \<Rightarrow> nat"
  load_answer :: "io_event list \<Rightarrow> nat \<Rightarrow> u64 \<Rightarrow> nat"

definition emit :: "io_event \<Rightarrow> 'z hw_scheme \<Rightarrow> 'z hw_scheme" where
  "emit e s = s\<lparr>trace := trace s @ [e]\<rparr>"

definition emits :: "io_event list \<Rightarrow> 'z hw_scheme \<Rightarrow> 'z hw_scheme" where
  "emits es s = s\<lparr>trace := trace s @ es\<rparr>"

section \<open>Accesses\<close>

definition read_from_port :: "devices \<Rightarrow> u16 \<Rightarrow> ('z hw_scheme, 'w::len word) eff" where
  "read_from_port D port s =
     (let v = word_of_nat (port_answer D (trace s) LENGTH('w) port) :: 'w word
      in Inr (v, emit (PortIn LENGTH('w) port (unat v)) s))"

definition write_to_port :: "u16 \<Rightarrow> 'w::len word \<Rightarrow> ('z hw_scheme, unit) eff" where
  "write_to_port port v s = Inr ((), emit (PortOut LENGTH('w) port (unat v)) s)"

definition read_volatile :: "devices \<Rightarrow> u64 \<Rightarrow> ('z hw_scheme, 'w::len word) eff" where
  "read_volatile D address s =
     (let v = word_of_nat (load_answer D (trace s) LENGTH('w) address) :: 'w word
      in Inr (v, emit (Load LENGTH('w) address (unat v)) s))"

definition write_volatile :: "u64 \<Rightarrow> 'w::len word \<Rightarrow> ('z hw_scheme, unit) eff" where
  "write_volatile address v s = Inr ((), emit (Store LENGTH('w) address (unat v)) s)"

definition hlt :: "('z hw_scheme, unit) eff" where
  "hlt s = Inr ((), emit Halt s)"

definition enable_interrupts :: "('z hw_scheme, unit) eff" where
  "enable_interrupts s = Inr ((), s\<lparr>interrupt_flag := True\<rparr>)"

section \<open>Lemmas\<close>

lemma emit_fields [simp]:
  "trace (emit e s) = trace s @ [e]" "interrupt_flag (emit e s) = interrupt_flag s"
  "hw.more (emit e s) = hw.more s"
  by (simp_all add: emit_def)

lemma emits_fields [simp]:
  "trace (emits es s) = trace s @ es" "interrupt_flag (emits es s) = interrupt_flag s"
  "hw.more (emits es s) = hw.more s"
  by (simp_all add: emits_def)

lemma emits_Nil [simp]: "emits [] s = s"
  by (simp add: emits_def)

lemma emits_emits [simp]: "emits es' (emits es s) = emits (es @ es') s"
  by (simp add: emits_def)

lemma emit_emits: "emit e s = emits [e] s"
  by (simp add: emit_def emits_def)

text \<open>Runs of accesses as one list of events.\<close>

lemma access_runs [res_simps]:
  fixes v :: "'w::len word"
  shows "write_to_port port v s = Inr ((), emits [PortOut LENGTH('w) port (unat v)] s)"
    and "write_volatile a v s = Inr ((), emits [Store LENGTH('w) a (unat v)] s)"
    and "hlt s = Inr ((), emits [Halt] s)"
  by (simp_all add: write_to_port_def write_volatile_def hlt_def emit_emits)

lemma read_runs [res_simps]:
  "(read_from_port D port :: ('z hw_scheme, 'w::len word) eff) s =
     (let v = word_of_nat (port_answer D (trace s) LENGTH('w) port) :: 'w word
      in Inr (v, emits [PortIn LENGTH('w) port (unat v)] s))"
  "(read_volatile D a :: ('z hw_scheme, 'w::len word) eff) s =
     (let v = word_of_nat (load_answer D (trace s) LENGTH('w) a) :: 'w word
      in Inr (v, emits [Load LENGTH('w) a (unat v)] s))"
  by (simp_all add: read_from_port_def read_volatile_def emit_emits)

section \<open>Operations that only access devices\<close>

text \<open>
  An operation whose only effect is events: it leaves the interrupt flag and the state of the kernel
  alone. The collection \<open>emits_intros\<close> proves this along the structure of an operation.
\<close>

named_theorems emits_intros \<open>operations that only emit events\<close>

definition only_emits :: "('z hw_scheme, 'a) eff \<Rightarrow> bool" where
  "only_emits f \<longleftrightarrow> (\<forall>s r s'. f s = Inr (r, s') \<longrightarrow> (\<exists>u. s' = emits u s))"

lemma only_emitsD: "only_emits f \<Longrightarrow> f s = Inr (r, s') \<Longrightarrow> \<exists>u. s' = emits u s"
  by (auto simp: only_emits_def)

lemma only_emits_ret [emits_intros]: "only_emits (ret x)"
  by (auto simp: only_emits_def intro: exI [of _ "[]"])

lemma only_emits_lift [emits_intros]: "only_emits (lift_res m)"
  by (auto simp: only_emits_def lift_res_eq_Inr_iff intro: exI [of _ "[]"])

lemma only_emits_bnd [emits_intros]: "only_emits m \<Longrightarrow> (\<And>x. only_emits (f x)) \<Longrightarrow> only_emits (bnd m f)"
  unfolding only_emits_def bnd_eq_Inr_iff by (metis emits_emits)

lemma only_emits_if [emits_intros]: "only_emits f \<Longrightarrow> only_emits g \<Longrightarrow> only_emits (if b then f else g)"
  by simp

lemma only_emits_let [emits_intros]: "(\<And>x. only_emits (f x)) \<Longrightarrow> only_emits (let x = v in f x)"
  by simp

lemma only_emits_seq [emits_intros]: "(\<And>m. m \<in> set ms \<Longrightarrow> only_emits m) \<Longrightarrow> only_emits (seq ms)"
  by (induction ms) (auto intro: emits_intros)

lemma only_emits_access [emits_intros]:
  "only_emits (read_from_port D port)" "only_emits (write_to_port port v)"
  "only_emits (read_volatile D a)" "only_emits (write_volatile a v)" "only_emits hlt"
  by (auto simp: only_emits_def res_simps Let_def)

end
