(* ===== verification/Interrupt_Controller.thy ===== *)
theory Interrupt_Controller
  imports Hardware
begin

text \<open>
  \<^verbatim>\<open>src/interrupts/controller.rs\<close>: the interrupt controller, which starts as the pair of chained
  8259 PICs and is handed over to the local APIC. The operations are sequences of port writes and
  register accesses. What they mean is stated against a specification of the 8259: its command
  and data port, the four initialisation words, the mask register and the in-service register.
\<close>

section \<open>Operations\<close>

definition PIC1_CMD_PORT :: u16 where "PIC1_CMD_PORT = 0x20"
definition PIC1_DATA_PORT :: u16 where "PIC1_DATA_PORT = 0x21"
definition PIC2_CMD_PORT :: u16 where "PIC2_CMD_PORT = 0xA0"
definition PIC2_DATA_PORT :: u16 where "PIC2_DATA_PORT = 0xA1"
definition PICS_8086_MODE :: u8 where "PICS_8086_MODE = 0x01"
definition PICS_EOI_CMD :: u8 where "PICS_EOI_CMD = 0x20"
definition PICS_INIT_CMD :: u8 where "PICS_INIT_CMD = 0x11"

lemmas pic_consts = PIC1_CMD_PORT_def PIC1_DATA_PORT_def PIC2_CMD_PORT_def PIC2_DATA_PORT_def
  PICS_8086_MODE_def PICS_EOI_CMD_def PICS_INIT_CMD_def

datatype InterruptController =
    Pics (pic1_offset: u8) (pic2_offset: u8)
  | Apic (base_address: u64)

definition read_apic_reg :: "devices \<Rightarrow> u64 \<Rightarrow> usize \<Rightarrow> ('z hw_scheme, u32) eff" where
  "read_apic_reg D base offset = bnd (lift_res (checked_add base offset)) (read_volatile D)"

definition write_apic_reg :: "u64 \<Rightarrow> usize \<Rightarrow> u32 \<Rightarrow> ('z hw_scheme, unit) eff" where
  "write_apic_reg base offset val =
     bnd (lift_res (checked_add base offset)) (\<lambda>ptr. write_volatile ptr val)"

definition controller_new :: "u8 \<Rightarrow> u8 \<Rightarrow> InterruptController" where
  "controller_new o1 o2 = Pics o1 o2"

definition init_pics :: "devices \<Rightarrow> u8 \<Rightarrow> u8 \<Rightarrow> ('z hw_scheme, unit) eff" where
  "init_pics D o1 o2 =
     (let wait = write_to_port 0x80 (0 :: u8)
      in bnd (read_from_port D PIC1_DATA_PORT) (\<lambda>pic1_mask :: u8.
         bnd (read_from_port D PIC2_DATA_PORT) (\<lambda>pic2_mask :: u8.
         seq [write_to_port PIC1_CMD_PORT PICS_INIT_CMD, wait,
              write_to_port PIC2_CMD_PORT PICS_INIT_CMD, wait,
              write_to_port PIC1_DATA_PORT o1, wait,
              write_to_port PIC2_DATA_PORT o2, wait,
              write_to_port PIC1_DATA_PORT (2 :: u8), wait,
              write_to_port PIC2_DATA_PORT (4 :: u8), wait,
              write_to_port PIC1_DATA_PORT PICS_8086_MODE, wait,
              write_to_port PIC2_DATA_PORT PICS_8086_MODE, wait,
              write_to_port PIC1_DATA_PORT pic1_mask,
              write_to_port PIC2_DATA_PORT pic2_mask])))"

definition controller_init :: "devices \<Rightarrow> InterruptController \<Rightarrow> ('z hw_scheme, unit) eff" where
  "controller_init D c =
     (case c of
        Pics o1 o2 \<Rightarrow> init_pics D o1 o2
      | Apic base \<Rightarrow>
          bnd (read_apic_reg D base 0xF0) (\<lambda>siv_reg.
          seq [write_apic_reg base 0xF0 (siv_reg OR 0x100),
               write_to_port PIC1_DATA_PORT (0xFF :: u8),
               write_to_port PIC2_DATA_PORT (0xFF :: u8)]))"

text \<open>\<^verbatim>\<open>(offset..(offset + 8)).contains(&id)\<close>; the addition is on \<^verbatim>\<open>u8\<close>.\<close>

definition pic_range_contains :: "u8 \<Rightarrow> u8 \<Rightarrow> bool res" where
  "pic_range_contains offset irq =
     rbind (checked_add offset 8) (\<lambda>fin. Inr (offset \<le> irq \<and> irq < fin))"

definition notify_end_of_interrupt ::
    "InterruptController \<Rightarrow> u8 \<Rightarrow> ('z hw_scheme, unit) eff" where
  "notify_end_of_interrupt c irq =
     (case c of
        Pics o1 o2 \<Rightarrow>
          bnd (lift_res (pic_range_contains o2 irq)) (\<lambda>in2.
          if in2 then
            seq [write_to_port PIC2_CMD_PORT PICS_EOI_CMD, write_to_port PIC1_CMD_PORT PICS_EOI_CMD]
          else
            bnd (lift_res (pic_range_contains o1 irq)) (\<lambda>in1.
            if in1 then write_to_port PIC1_CMD_PORT PICS_EOI_CMD else ret ()))
      | Apic base \<Rightarrow> write_apic_reg base 0xB0 0)"

definition apic_handover ::
    "devices \<Rightarrow> u64 \<Rightarrow> InterruptController \<Rightarrow> ('z hw_scheme, InterruptController) eff" where
  "apic_handover D base self =
     (let self = Apic base in bnd (controller_init D self) (\<lambda>_. ret self))"

lemma only_emits_apic_regs [emits_intros]:
  "only_emits (read_apic_reg D base offset)" "only_emits (write_apic_reg base offset v)"
  unfolding read_apic_reg_def write_apic_reg_def by (intro emits_intros)+

lemma only_emits_controller [emits_intros]:
  "only_emits (controller_init D c)" "only_emits (notify_end_of_interrupt c irq)" "only_emits (apic_handover D base c)"
proof -
  show init: "only_emits (controller_init D c)" for c
    by (cases c) (auto simp: controller_init_def init_pics_def Let_def intro!: emits_intros)
  show "only_emits (notify_end_of_interrupt c irq)"
    by (cases c) (auto simp: notify_end_of_interrupt_def intro!: emits_intros)
  show "only_emits (apic_handover D base c)"
    unfolding apic_handover_def Let_def by (intro emits_intros init)
qed

section \<open>Specification of the 8259\<close>

text \<open>
  A write to the command port with bit 4 set is the first initialisation word: the chip clears its
  mask and in-service register and takes the next three data writes as vector offset, cascade
  configuration and mode. Otherwise \<open>0x20\<close> is a non-specific end of interrupt, which clears the
  interrupt of highest priority (the lowest line) in service. In operation, a data write sets the
  mask.
\<close>

datatype pic_phase = Ready | Icw2 | Icw3 | Icw4

record pic =
  phase :: pic_phase
  vector_offset :: u8
  cascade :: u8
  mode :: u8
  imr :: u8
  in_service :: "nat set"

definition pic_command :: "u8 \<Rightarrow> pic \<Rightarrow> pic" where
  "pic_command v p =
     (if bit v 4 then p\<lparr>phase := Icw2, imr := 0, in_service := {}\<rparr>
      else if v = 0x20 \<and> in_service p \<noteq> {} then
        p\<lparr>in_service := in_service p - {Min (in_service p)}\<rparr>
      else p)"

definition pic_data :: "u8 \<Rightarrow> pic \<Rightarrow> pic" where
  "pic_data v p =
     (case phase p of
        Icw2 \<Rightarrow> p\<lparr>vector_offset := v AND 0xF8, phase := Icw3\<rparr>
      | Icw3 \<Rightarrow> p\<lparr>cascade := v, phase := Icw4\<rparr>
      | Icw4 \<Rightarrow> p\<lparr>mode := v, phase := Ready\<rparr>
      | Ready \<Rightarrow> p\<lparr>imr := v\<rparr>)"

text \<open>One chip at a command port and a data port; the pair of chips of a PC.\<close>

fun pic_event :: "u16 \<Rightarrow> u16 \<Rightarrow> io_event \<Rightarrow> pic \<Rightarrow> pic" where
  "pic_event cmd data (PortOut n port v) p =
     (if n = 8 \<and> port = cmd then pic_command (word_of_nat v) p
      else if n = 8 \<and> port = data then pic_data (word_of_nat v) p
      else p)"
| "pic_event cmd data _ p = p"

definition pic1_after :: "io_event list \<Rightarrow> pic \<Rightarrow> pic" where
  "pic1_after = fold (pic_event 0x20 0x21)"

definition pic2_after :: "io_event list \<Rightarrow> pic \<Rightarrow> pic" where
  "pic2_after = fold (pic_event 0xA0 0xA1)"

text \<open>
  The devices contain the pair: the chips start as \<open>p1\<close> and \<open>p2\<close>, and in operation a read of the
  data port returns the mask.
\<close>

definition has_pics :: "devices \<Rightarrow> pic \<Rightarrow> pic \<Rightarrow> bool" where
  "has_pics D p1 p2 \<longleftrightarrow>
     (\<forall>t. port_answer D t 8 0x21 = unat (imr (pic1_after t p1)) \<and>
          port_answer D t 8 0xA1 = unat (imr (pic2_after t p2)))"

lemma pics_after_append [simp]:
  "pic1_after (t @ u) p = pic1_after u (pic1_after t p)"
  "pic2_after (t @ u) p = pic2_after u (pic2_after t p)"
  by (simp_all add: pic1_after_def pic2_after_def)

lemma pics_after_sim [simp]:
  "pic1_after [] p = p" "pic1_after (e # t) p = pic1_after t (pic_event 0x20 0x21 e p)"
  "pic2_after [] p = p" "pic2_after (e # t) p = pic2_after t (pic_event 0xA0 0xA1 e p)"
  by (simp_all add: pic1_after_def pic2_after_def)

section \<open>Properties\<close>

text \<open>
  C25. \<^verbatim>\<open>init\<close> on the PICs always returns and programs both chips whatever they were doing before: each
  is back in operation with its own vector offset (rounded down to a multiple of eight), in 8086
  mode, with nothing in service and the interrupt mask it had before.
\<close>

theorem init_pics_programs_pics:
  assumes "has_pics D p1 p2"
  shows "\<exists>s'. controller_init D (Pics o1 o2) s = Inr ((), s') \<and>
    (let q1 = pic1_after (trace s) p1; q1' = pic1_after (trace s') p1;
         q2 = pic2_after (trace s) p2; q2' = pic2_after (trace s') p2
     in phase q1' = Ready \<and> vector_offset q1' = o1 AND 0xF8 \<and> mode q1' = 1 \<and>
        imr q1' = imr q1 \<and> in_service q1' = {} \<and>
        phase q2' = Ready \<and> vector_offset q2' = o2 AND 0xF8 \<and> mode q2' = 1 \<and>
        imr q2' = imr q2 \<and> in_service q2' = {})"
  using assms
  by (simp add: has_pics_def controller_init_def init_pics_def res_simps Let_def pic_consts
      pic_command_def pic_data_def bit_numeral_word_iff)

text \<open>
  Two chips with nothing masked, the second programmed and with an interrupt in service, for closed
  examples.
\<close>

definition example_pic :: pic where
  "example_pic = \<lparr>phase = Ready, vector_offset = 8, cascade = 0, mode = 0, imr = 0xB8, in_service = {1}\<rparr>"

definition pic_devices :: devices where
  "pic_devices = \<lparr>
     port_answer = (\<lambda>t n port.
       if port = 0x21 then unat (imr (pic1_after t example_pic))
       else if port = 0xA1 then unat (imr (pic2_after t example_pic)) else 0),
     load_answer = (\<lambda>t n a. 0)\<rparr>"

lemma pic_devices_ok: "has_pics pic_devices example_pic example_pic"
  by (simp add: has_pics_def pic_devices_def)

theorem init_pics_programs_pics_witness:
  "\<exists>s'. controller_init pic_devices (Pics 32 40) \<lparr>trace = [], interrupt_flag = False\<rparr> = Inr ((), s') \<and>
     vector_offset (pic1_after (trace s') example_pic) = 32 \<and>
     vector_offset (pic2_after (trace s') example_pic) = 40 \<and>
     imr (pic1_after (trace s') example_pic) = 0xB8"
  using init_pics_programs_pics [OF pic_devices_ok, of 32 40 "\<lparr>trace = [], interrupt_flag = False\<rparr>"]
  by (auto simp: Let_def) (simp add: example_pic_def)

text \<open>
  The cascade words of \<^verbatim>\<open>init\<close>: the master is told that its slave is on line 1 (a mask, so the
  slave on line 2 of a PC would need 4) and the slave that its identity is 4 (a line number, which
  would have to be 2).
\<close>

theorem init_pics_cascade:
  assumes "controller_init D (Pics o1 o2) s = Inr ((), s')"
  shows "cascade (pic1_after (trace s') p1) = 2 ^ 1 \<and> cascade (pic2_after (trace s') p2) = 4"
  using assms by (auto simp: controller_init_def init_pics_def res_simps Let_def pic_consts
      pic_command_def pic_data_def bit_numeral_word_iff)

theorem init_pics_cascade_witness:
  "\<exists>s'. controller_init pic_devices (Pics 32 40) \<lparr>trace = [], interrupt_flag = False\<rparr> = Inr ((), s') \<and>
     cascade (pic1_after (trace s') example_pic) = 2 \<and> \<not> bit (cascade (pic1_after (trace s') example_pic)) 2"
proof -
  have "\<exists>s'. controller_init pic_devices (Pics 32 40) \<lparr>trace = [], interrupt_flag = False\<rparr> = Inr ((), s')"
    by (simp add: controller_init_def init_pics_def res_simps Let_def)
  then obtain s' where s': "controller_init pic_devices (Pics 32 40)
      \<lparr>trace = [], interrupt_flag = False\<rparr> = Inr ((), s')" by blast
  with init_pics_cascade [OF s', of example_pic] show ?thesis by (auto simp: bit_numeral_word_iff)
qed



lemma end_of_interrupt_overflow:
  "247 < unat o2 \<Longrightarrow> notify_end_of_interrupt (Pics o1 o2) irq s = Inl ArithmeticOverflow"
  by (simp add: notify_end_of_interrupt_def res_simps pic_range_contains_def checked_add_def)

text \<open>
  C27. The hand-over to the local APIC: the controller becomes the APIC at the given address, the
  spurious-interrupt register is written back as it was read with the enable bit 8 set, both PICs
  (if in operation) end up with every line masked, and from then on the end of any interrupt is one
  write of zero to the EOI register of the APIC and reaches no PIC.
\<close>

theorem apic_handover_masks_pics:
  assumes "unat base + 0xF0 < 2 ^ 64"
    and "phase (pic1_after (trace s) p1) = Ready" and "phase (pic2_after (trace s) p2) = Ready"
  shows "\<exists>s'. apic_handover D base c s = Inr (Apic base, s') \<and>
    (let siv = word_of_nat (load_answer D (trace s) 32 (base + 0xF0)) :: u32
     in take 2 (drop (length (trace s)) (trace s')) =
          [Load 32 (base + 0xF0) (unat siv), Store 32 (base + 0xF0) (unat (siv OR 0x100))]) \<and>
    imr (pic1_after (trace s') p1) = 0xFF \<and> imr (pic2_after (trace s') p2) = 0xFF \<and>
    notify_end_of_interrupt (Apic base) irq s' = Inr ((), emits [Store 32 (base + 0xB0) 0] s')"
  using assms
  by (simp add: apic_handover_def controller_init_def read_apic_reg_def write_apic_reg_def res_simps
      Let_def checked_add_def pic_consts pic_data_def notify_end_of_interrupt_def)

theorem apic_handover_masks_pics_witness:
  "\<exists>s'. apic_handover pic_devices 0xFEE00000 (Pics 32 40) \<lparr>trace = [], interrupt_flag = False\<rparr> =
       Inr (Apic 0xFEE00000, s') \<and>
     imr (pic1_after (trace s') example_pic) = 0xFF \<and> imr (pic2_after (trace s') example_pic) = 0xFF"
proof -
  have "phase example_pic = Ready" by (simp add: example_pic_def)
  then show ?thesis
    using apic_handover_masks_pics [where base = "0xFEE00000" and s = "\<lparr>trace = [], interrupt_flag = False\<rparr>"
        and ?p1.0 = example_pic and ?p2.0 = example_pic and D = pic_devices and c = "Pics 32 40"]
    by auto
qed

end
