(* ===== verification/Machine.thy ===== *)
theory Machine
  imports Paging Interrupt_Controller
begin

text \<open>
  The state of the whole machine: the events and the interrupt flag of \<open>hw\<close>, and the statics of
  the kernel: the paging context of \<^verbatim>\<open>src/memory/mod.rs\<close>, the heap of \<^verbatim>\<open>src/allocator.rs\<close> and the
  interrupt controller \<^verbatim>\<open>PICS\<close> of \<^verbatim>\<open>src/interrupts/mod.rs\<close>. An operation of one component is run on
  its part of the state.
\<close>

record 'm machine = hw +
  paging_ctx :: "'m PagingContext option"
  heap :: heap_state
  PICS :: InterruptController

definition on_paging ::
    "('m PagingContext option, 'a) eff \<Rightarrow> (('m, 'z) machine_scheme, 'a) eff" where
  "on_paging f s = rmap (\<lambda>(r, c). (r, s\<lparr>paging_ctx := c\<rparr>)) (f (paging_ctx s))"

lemma on_paging_eq_Inr_iff:
  "on_paging f s = Inr (r, s') \<longleftrightarrow> (\<exists>c. f (paging_ctx s) = Inr (r, c) \<and> s' = s\<lparr>paging_ctx := c\<rparr>)"
  by (auto simp: on_paging_def res_iffs)

text \<open>Device mappings on the whole machine keep the contract of the paging context.\<close>

definition machine_mmap ::
    "crates \<Rightarrow> 'm mapper_ops \<Rightarrow> bool \<Rightarrow> u64 \<Rightarrow> (('m, 'z) machine_scheme, MapToError + UnmapGuard) eff" where
  "machine_mmap E M acpi frame = on_paging (mmap_dev E M frame acpi)"

definition machine_unmap ::
    "'m mapper_ops \<Rightarrow> UnmapGuard \<Rightarrow> (('m, 'z) machine_scheme, UnmapError + unit) eff" where
  "machine_unmap M guard = on_paging (unmap M guard)"

definition machine_good ::
    "crates \<Rightarrow> 'm mapper_ops \<Rightarrow> ('m \<Rightarrow> translation) \<Rightarrow> ('m, 'z) machine_scheme \<Rightarrow> bool" where
  "machine_good E M tr s = paging_good E M tr (paging_ctx s)"

definition machine_mapped :: "('m \<Rightarrow> translation) \<Rightarrow> ('m, 'z) machine_scheme \<Rightarrow> u64 set" where
  "machine_mapped tr s = paging_mapped tr (paging_ctx s)"

definition machine_guard_ok :: "('m, 'z) machine_scheme \<Rightarrow> UnmapGuard \<Rightarrow> bool" where
  "machine_guard_ok s = paging_guard_ok (paging_ctx s)"

interpretation dev: device_mapper "machine_mmap E M acpi" "machine_unmap M" guard_page
    "machine_mapped tr" "machine_good E M tr" machine_guard_ok device_frame for E M acpi tr
proof unfold_locales
  fix s f g s'
  assume "machine_good E M tr s" "device_frame f" "machine_mmap E M acpi f s = Inr (Inr g, s')"
  then show "machine_good E M tr s' \<and> f \<notin> machine_mapped tr s \<and>
      machine_mapped tr s' = insert f (machine_mapped tr s) \<and> guard_page g = f \<and> machine_guard_ok s' g \<and>
      (\<forall>h. machine_guard_ok s h \<longrightarrow> machine_guard_ok s' h)"
    using pg.map_law [of E M tr "paging_ctx s" f acpi g]
    by (auto simp: machine_good_def machine_mapped_def machine_guard_ok_def machine_mmap_def on_paging_eq_Inr_iff)
next
  fix s g
  assume "machine_good E M tr s" "machine_guard_ok s g" "guard_page g \<in> machine_mapped tr s"
  then obtain c where "unmap M g (paging_ctx s) = Inr (Inr (), c)" "paging_good E M tr c"
    "paging_mapped tr c = paging_mapped tr (paging_ctx s) - {guard_page g}"
    "\<forall>h. paging_guard_ok (paging_ctx s) h \<longrightarrow> paging_guard_ok c h"
    using pg.unmap_law [of E M tr "paging_ctx s" g]
    by (auto simp: machine_good_def machine_mapped_def machine_guard_ok_def)
  then show "\<exists>s'. machine_unmap M g s = Inr (Inr (), s') \<and> machine_good E M tr s' \<and>
      machine_mapped tr s' = machine_mapped tr s - {guard_page g} \<and>
      (\<forall>h. machine_guard_ok s h \<longrightarrow> machine_guard_ok s' h)"
    by (intro exI [of _ "s\<lparr>paging_ctx := c\<rparr>"])
       (simp add: machine_good_def machine_mapped_def machine_guard_ok_def machine_unmap_def on_paging_eq_Inr_iff)
qed

end
