(* ===== verification/Vga_Buffer.thy ===== *)
theory Vga_Buffer
  imports Rust_Prelude
begin

text \<open>
  The text console of \<^verbatim>\<open>src/vga_buffer.rs\<close>: colours, the buffer of 25 rows of 80 characters, and the
  writer that appends to the last row and scrolls. A character is reached through the buffer's own
  index checks, which panic outside of it; the volatile accesses of the crate \<^verbatim>\<open>volatile\<close> read and write
  the cell.
\<close>

section \<open>Data\<close>

datatype Color =
    Black | Blue | Green | Cyan | Red | Magenta | Brown | LightGray
  | DarkGray | LightBlue | LightGreen | LightCyan | LightRed | Pink | Yellow | White

definition Color_as_u8 :: "Color \<Rightarrow> u8" where
  "Color_as_u8 c =
     (case c of
        Black \<Rightarrow> 0 | Blue \<Rightarrow> 1 | Green \<Rightarrow> 2 | Cyan \<Rightarrow> 3 | Red \<Rightarrow> 4 | Magenta \<Rightarrow> 5 | Brown \<Rightarrow> 6
      | LightGray \<Rightarrow> 7 | DarkGray \<Rightarrow> 8 | LightBlue \<Rightarrow> 9 | LightGreen \<Rightarrow> 10 | LightCyan \<Rightarrow> 11
      | LightRed \<Rightarrow> 12 | Pink \<Rightarrow> 13 | Yellow \<Rightarrow> 14 | White \<Rightarrow> 15)"

type_synonym ColorCode = u8

definition ColorCode_new :: "Color \<Rightarrow> Color \<Rightarrow> ColorCode" where
  "ColorCode_new foreground background = push_bit 4 (Color_as_u8 background) OR Color_as_u8 foreground"

record ScreenChar =
  ascii_character :: u8
  screen_color :: ColorCode

definition BUFFER_HEIGHT :: usize where "BUFFER_HEIGHT = 25"
definition BUFFER_WIDTH :: usize where "BUFFER_WIDTH = 80"

type_synonym Buffer = "ScreenChar list list"

record Writer =
  column_position :: usize
  color_code :: ColorCode
  buffer :: Buffer

text \<open>The initial value of the static \<^verbatim>\<open>WRITER\<close>, over the contents of the video memory.\<close>

definition WRITER_new :: "Buffer \<Rightarrow> Writer" where
  "WRITER_new memory = \<lparr>column_position = 0, color_code = ColorCode_new Yellow Black, buffer = memory\<rparr>"

section \<open>Operations\<close>

text \<open>\<^verbatim>\<open>get_char_mut(row, col)\<close> followed by \<^verbatim>\<open>read\<close> and by \<^verbatim>\<open>write\<close>.\<close>

definition read_char :: "usize \<Rightarrow> usize \<Rightarrow> Writer \<Rightarrow> ScreenChar res" where
  "read_char row col self = rbind (index (buffer self) row) (\<lambda>r. index r col)"

definition write_char :: "usize \<Rightarrow> usize \<Rightarrow> ScreenChar \<Rightarrow> Writer \<Rightarrow> Writer res" where
  "write_char row col c self =
     rbind (index (buffer self) row) (\<lambda>r.
     rbind (index_set r col c) (\<lambda>r'.
     rbind (index_set (buffer self) row r') (\<lambda>b.
     Inr (self\<lparr>buffer := b\<rparr>))))"

definition clear_row :: "usize \<Rightarrow> Writer \<Rightarrow> Writer res" where
  "clear_row row self =
     (let blank = \<lparr>ascii_character = 0x20, screen_color = color_code self\<rparr>
      in for_each (\<lambda>col. write_char row col blank) (urange 0 BUFFER_WIDTH) self)"

definition copy_char :: "usize \<Rightarrow> usize \<Rightarrow> Writer \<Rightarrow> Writer res" where
  "copy_char row col self =
     rbind (read_char row col self) (\<lambda>character.
     rbind (checked_sub row 1) (\<lambda>above.
     write_char above col character self))"

definition new_line :: "Writer \<Rightarrow> Writer res" where
  "new_line self =
     rbind (for_each (\<lambda>row. for_each (copy_char row) (urange 0 BUFFER_WIDTH)) (urange 1 BUFFER_HEIGHT) self)
       (\<lambda>w.
     rbind (checked_sub BUFFER_HEIGHT 1) (\<lambda>row.
     rbind (clear_row row w) (\<lambda>w'.
     Inr (w'\<lparr>column_position := 0\<rparr>))))"

definition write_byte :: "u8 \<Rightarrow> Writer \<Rightarrow> Writer res" where
  "write_byte byte self =
     (if byte = 10 then new_line self
      else
        rbind (if column_position self \<ge> BUFFER_WIDTH then new_line self else Inr self) (\<lambda>w.
        rbind (checked_sub BUFFER_HEIGHT 1) (\<lambda>row.
        let col = column_position w; color = color_code w
        in rbind (write_char row col \<lparr>ascii_character = byte, screen_color = color\<rparr> w) (\<lambda>w'.
           rbind (checked_add (column_position w') 1) (\<lambda>c.
           Inr (w'\<lparr>column_position := c\<rparr>))))))"

definition write_string :: "u8 list \<Rightarrow> Writer \<Rightarrow> Writer res" where
  "write_string s =
     for_each (\<lambda>byte.
       if (0x20 \<le> byte \<and> byte \<le> 0x7E) \<or> byte = 10 then write_byte byte else write_byte 0xFE) s"

definition vga_write_str :: "u8 list \<Rightarrow> (Writer, fmt_result) eff" where
  "vga_write_str s self = rmap (\<lambda>w. (Inr (), w)) (write_string s self)"

section \<open>Colours\<close>

text \<open>
  A colour code holds the foreground in its low and the background in its high half, so different
  pairs of colours have different codes.
\<close>

theorem color_code_halves:
  "ColorCode_new f b AND 0xF = Color_as_u8 f \<and> drop_bit 4 (ColorCode_new f b) = Color_as_u8 b \<and>
   (ColorCode_new f b = ColorCode_new f' b' \<longleftrightarrow> f = f' \<and> b = b')"
proof -
  have h: "ColorCode_new f b AND 0xF = Color_as_u8 f" "drop_bit 4 (ColorCode_new f b) = Color_as_u8 b" for f b
    by (cases f; cases b; simp add: ColorCode_new_def Color_as_u8_def)+
  have "Color_as_u8 f = Color_as_u8 f' \<longleftrightarrow> f = f'" for f f'
    by (cases f; cases f'; simp add: Color_as_u8_def)
  then show ?thesis using h by metis
qed

section \<open>The shape of the buffer\<close>

definition buffer_wf :: "Buffer \<Rightarrow> bool" where
  "buffer_wf b \<longleftrightarrow> length b = 25 \<and> (\<forall>r \<in> set b. length r = 80)"

definition writer_wf :: "Writer \<Rightarrow> bool" where
  "writer_wf w \<longleftrightarrow> buffer_wf (buffer w) \<and> column_position w \<le> 80"

definition blank_char :: "ColorCode \<Rightarrow> ScreenChar" where
  "blank_char color = \<lparr>ascii_character = 0x20, screen_color = color\<rparr>"

lemma buffer_wf_nth [simp]: "buffer_wf b \<Longrightarrow> i < 25 \<Longrightarrow> length (b ! i) = 80"
  by (simp add: buffer_wf_def)

lemma buffer_wf_length [simp]: "buffer_wf b \<Longrightarrow> length b = 25"
  by (simp add: buffer_wf_def)

lemma buffer_wf_update: "buffer_wf b \<Longrightarrow> length r = 80 \<Longrightarrow> buffer_wf (b[i := r])"
  unfolding buffer_wf_def using set_update_subset_insert [of b i r] by auto

lemma write_char_nat:
  assumes "buffer_wf (buffer w)" "r < 25" "c < 80"
  shows "write_char (word_of_nat r) (word_of_nat c) ch w =
     Inr (w\<lparr>buffer := (buffer w)[r := (buffer w ! r)[c := ch]]\<rparr>)"
  using assms by (simp add: write_char_def index_of_nat index_set_of_nat)

lemma read_char_nat:
  "buffer_wf (buffer w) \<Longrightarrow> r < 25 \<Longrightarrow> c < 80 \<Longrightarrow>
     read_char (word_of_nat r) (word_of_nat c) w = Inr (buffer w ! r ! c)"
  by (simp add: read_char_def index_of_nat)

lemma overwrite_step:
  "length xs = length ys \<Longrightarrow> k < length xs \<Longrightarrow>
     (take k xs @ drop k ys)[k := xs ! k] = take (Suc k) xs @ drop (Suc k) ys"
  by (simp add: list_update_append take_Suc_conv_app_nth Cons_nth_drop_Suc [symmetric])

section \<open>Scrolling\<close>

lemma copy_row:
  assumes "buffer_wf (buffer w)" "0 < r" "r < 25"
  shows "for_each (copy_char (word_of_nat r)) (urange 0 BUFFER_WIDTH) w =
     Inr (w\<lparr>buffer := (buffer w)[r - 1 := buffer w ! r]\<rparr>)"
proof -
  let ?b = "buffer w"
  define S where "S k = w\<lparr>buffer := ?b[r - 1 := take k (?b ! r) @ drop k (?b ! (r - 1))]\<rparr>" for k
  have "for_each (copy_char (word_of_nat r)) (map word_of_nat [0 ..< 80]) (S 0) = Inr (S 80)"
  proof (rule for_each_upt)
    fix k :: nat assume "k < 80"
    have wf: "buffer_wf (buffer (S k))" using assms by (simp add: S_def buffer_wf_update)
    show "copy_char (word_of_nat r) (word_of_nat k) (S k) = Inr (S (Suc k))"
      using assms \<open>k < 80\<close> read_char_nat [OF wf, of r k] write_char_nat [OF wf, of "r - 1" k]
      by (simp add: copy_char_def checked_sub_of_nat S_def overwrite_step)
  qed simp
  then show ?thesis using assms by (simp add: S_def urange_def BUFFER_WIDTH_def)
qed

lemma clear_row_run:
  assumes "buffer_wf (buffer w)" and "r < 25"
  shows "clear_row (word_of_nat r) w =
     Inr (w\<lparr>buffer := (buffer w)[r := replicate 80 (blank_char (color_code w))]\<rparr>)"
proof -
  let ?b = "buffer w" and ?x = "replicate 80 (blank_char (color_code w))"
  define S where "S k = w\<lparr>buffer := ?b[r := take k ?x @ drop k (?b ! r)]\<rparr>" for k
  have "for_each (\<lambda>col. write_char (word_of_nat r) col (blank_char (color_code w))) (map word_of_nat [0 ..< 80]) (S 0) =
      Inr (S 80)"
  proof (rule for_each_upt)
    fix k :: nat assume k: "k < 80"
    have wf: "buffer_wf (buffer (S k))" using assms by (simp add: S_def buffer_wf_update)
    have "?x ! k = blank_char (color_code w)" using k by (rule nth_replicate)
    then show "write_char (word_of_nat r) (word_of_nat k) (blank_char (color_code w)) (S k) = Inr (S (Suc k))"
      using assms k write_char_nat [OF wf assms(2), of k] overwrite_step [of ?x "?b ! r" k] by (simp add: S_def)
  qed simp
  then show ?thesis using assms
    by (simp add: S_def urange_def BUFFER_WIDTH_def clear_row_def blank_char_def)
qed

lemma new_line_run:
  assumes "buffer_wf (buffer w)"
  shows "new_line w = Inr (w\<lparr>buffer := tl (buffer w) @ [replicate 80 (blank_char (color_code w))], column_position := 0\<rparr>)"
proof -
  let ?b = "buffer w"
  have ne: "?b \<noteq> []" using assms by (auto simp: buffer_wf_def)
  define S where "S k = w\<lparr>buffer := take (k - 1) (tl ?b) @ drop (k - 1) ?b\<rparr>" for k
  have "for_each (\<lambda>row. for_each (copy_char row) (urange 0 BUFFER_WIDTH)) (map word_of_nat [1 ..< 25]) (S 1) =
      Inr (S 25)"
  proof (rule for_each_upt)
    fix k :: nat assume k: "1 \<le> k" "k < 25"
    have "set (buffer (S k)) \<subseteq> set ?b"
      using ne by (auto simp: S_def dest!: in_set_takeD in_set_dropD list.set_sel(2) [rotated])
    then have wf: "buffer_wf (buffer (S k))" using assms k by (auto simp: buffer_wf_def S_def)
    have "(buffer (S k))[k - 1 := buffer (S k) ! k] = buffer (S (Suc k))"
      using assms k by (intro nth_equalityI) (auto simp: S_def nth_append nth_list_update nth_tl)
    then show "for_each (copy_char (word_of_nat k)) (urange 0 BUFFER_WIDTH) (S k) = Inr (S (Suc k))"
      using k copy_row [OF wf, of k] by (simp add: S_def)
  qed simp
  moreover have "urange 1 BUFFER_HEIGHT = map word_of_nat [1 ..< 25]" by (simp add: urange_def BUFFER_HEIGHT_def)
  moreover have "S 1 = w" by (simp add: S_def)
  moreover have wf: "buffer_wf (buffer (S 25))"
    using assms ne by (auto simp: buffer_wf_def S_def dest!: in_set_takeD in_set_dropD list.set_sel(2) [rotated])
  moreover have "(buffer (S 25))[24 := x] = tl ?b @ [x]" for x
    using assms by (intro nth_equalityI) (auto simp: S_def nth_append nth_list_update nth_tl)
  moreover have "checked_sub BUFFER_HEIGHT 1 = Inr (24)"
    by (simp add: BUFFER_HEIGHT_def checked_sub_def)
  ultimately show ?thesis using clear_row_run [OF wf, of 24] by (simp add: new_line_def) (simp add: S_def)
qed

section \<open>Every operation keeps the shape\<close>

lemma new_line_wf: "writer_wf w \<Longrightarrow> \<exists>w'. new_line w = Inr w' \<and> writer_wf w' \<and> column_position w' = 0 \<and> color_code w' = color_code w"
  by (cases "buffer w") (auto simp: writer_wf_def new_line_run buffer_wf_def)

lemma put_byte_wf:
  assumes "writer_wf v" and "column_position v < 80"
  shows "\<exists>w'. rbind (write_char 24 (column_position v) ch v) (\<lambda>v'.
      rbind (checked_add (column_position v') 1) (\<lambda>c. Inr (v'\<lparr>column_position := c\<rparr>))) = Inr w' \<and>
    writer_wf w' \<and> color_code w' = color_code v"
proof -
  have c: "unat (column_position v) < 80" using assms(2) by (simp add: word_less_nat_alt)
  have wf: "buffer_wf (buffer v)" using assms(1) by (simp add: writer_wf_def)
  have u: "unat (column_position v + 1) = unat (column_position v) + 1" using c by (simp add: unat_word_ariths)
  have "write_char 24 (column_position v) ch v =
      Inr (v\<lparr>buffer := (buffer v)[24 := (buffer v ! 24)[unat (column_position v) := ch]]\<rparr>)"
    using write_char_nat [OF wf _ c, of 24 ch] by simp
  moreover have "checked_add (column_position v) 1 = Inr (column_position v + 1)" "column_position v + 1 \<le> 80"
    using c u by (simp_all add: checked_add_def word_le_nat_alt)
  ultimately show ?thesis using wf by (simp add: writer_wf_def buffer_wf_update)
qed

lemma write_byte_wf:
  assumes "writer_wf w"
  shows "\<exists>w'. write_byte b w = Inr w' \<and> writer_wf w' \<and> color_code w' = color_code w"
proof -
  obtain w1 where w1: "new_line w = Inr w1" "writer_wf w1" "column_position w1 = 0" "color_code w1 = color_code w"
    using new_line_wf [OF assms] by blast
  have h: "checked_sub BUFFER_HEIGHT 1 = Inr 24" by (simp add: BUFFER_HEIGHT_def checked_sub_def)
  consider "b = 10" | "b \<noteq> 10" "column_position w < 80" | "b \<noteq> 10" "80 \<le> column_position w" by force
  then show ?thesis
  proof cases
    case 1
    then show ?thesis using w1 by (simp add: write_byte_def)
  next
    case 2
    then show ?thesis using put_byte_wf [OF assms 2(2)] leD by (auto simp: write_byte_def BUFFER_WIDTH_def h Let_def)
  next
    case 3
    have "column_position w1 < 80" using w1(3) by simp
    from put_byte_wf [OF w1(2) this] 3 w1 show ?thesis by (simp add: write_byte_def BUFFER_WIDTH_def h Let_def)
  qed
qed

text \<open>
  C17. The screen keeps its type: every operation of the writer on a buffer of 25 rows of 80 cells with
  the cursor in column 80 at most returns such a buffer and cursor, in the same colour; no byte and no
  string makes it panic. The one argument that can be wrong, a row of \<^verbatim>\<open>clear_row\<close>, panics from 25 on.
\<close>

theorem writer_stays_well_formed:
  assumes "writer_wf w"
  shows "(\<exists>w'. new_line w = Inr w' \<and> writer_wf w' \<and> color_code w' = color_code w) \<and>
    (\<exists>w'. write_byte b w = Inr w' \<and> writer_wf w' \<and> color_code w' = color_code w) \<and>
    (\<exists>w'. write_string str w = Inr w' \<and> writer_wf w' \<and> color_code w' = color_code w) \<and>
    (if row < 25 then \<exists>w'. clear_row row w = Inr w' \<and> writer_wf w' \<and> color_code w' = color_code w
     else clear_row row w = Inl IndexOutOfBounds)"
proof (intro conjI)
  show "\<exists>w'. write_string str w = Inr w' \<and> writer_wf w' \<and> color_code w' = color_code w"
    using assms
  proof (induction str arbitrary: w)
    case (Cons c str)
    let ?f = "if (0x20 \<le> c \<and> c \<le> 0x7E) \<or> c = 10 then write_byte c else write_byte 0xFE"
    have "\<exists>w'. ?f w = Inr w' \<and> writer_wf w' \<and> color_code w' = color_code w"
      using write_byte_wf [OF Cons.prems] by simp
    then obtain w1 where "?f w = Inr w1" "writer_wf w1" "color_code w1 = color_code w" by blast
    with Cons.IH [of w1] show ?case by (simp add: write_string_def)
  qed (simp add: write_string_def)
  show "if row < 25 then \<exists>w'. clear_row row w = Inr w' \<and> writer_wf w' \<and> color_code w' = color_code w
     else clear_row row w = Inl IndexOutOfBounds"
  proof (cases "row < 25")
    case True
    then have r: "unat row < 25" "word_of_nat (unat row) = row" by (simp_all add: word_less_nat_alt)
    then show ?thesis using True assms clear_row_run [of w "unat row"] by (simp add: writer_wf_def buffer_wf_update)
  next
    case False
    then have "write_char row c x w = Inl IndexOutOfBounds" for c x
      using assms by (simp add: write_char_def index_def writer_wf_def buffer_wf_def word_less_nat_alt)
    moreover have "urange 0 BUFFER_WIDTH = 0 # map word_of_nat [1 ..< 80]"
      by (simp add: urange_def BUFFER_WIDTH_def upt_conv_Cons del: upt_rec_numeral)
    ultimately show ?thesis using False by (simp add: clear_row_def del: upt_rec_numeral)
  qed
qed (use new_line_wf [OF assms] write_byte_wf [OF assms] in blast)+

section \<open>Text on the screen\<close>

text \<open>
  The rows of a text on a screen of 80 columns, without reference to a cursor: the text is split at
  the newlines, and every line into rows of at most 80 characters.
\<close>

fun split_lines :: "u8 list \<Rightarrow> u8 list list" where
  "split_lines [] = [[]]"
| "split_lines (b # bs) =
     (if b = 10 then [] # split_lines bs else (b # hd (split_lines bs)) # tl (split_lines bs))"

function line_rows :: "'a list \<Rightarrow> 'a list list" where
  "line_rows xs = (if length xs \<le> 80 then [xs] else take 80 xs # line_rows (drop 80 xs))"
  by pat_completeness auto
termination by (relation "measure length") auto

declare line_rows.simps [simp del]

definition text_rows :: "u8 list \<Rightarrow> u8 list list" where
  "text_rows s = concat (map line_rows (split_lines s))"

definition printable :: "u8 \<Rightarrow> u8" where
  "printable b = (if (0x20 \<le> b \<and> b \<le> 0x7E) \<or> b = 10 then b else 0xFE)"

text \<open>A row of text over a row of the screen, and the rows of a text that starts in the row \<open>old\<close>.\<close>

definition overlay :: "ColorCode \<Rightarrow> ScreenChar list \<Rightarrow> u8 list \<Rightarrow> ScreenChar list" where
  "overlay color old cs =
     map (\<lambda>b. \<lparr>ascii_character = b, screen_color = color\<rparr>) cs @ drop (length cs) old"

definition render :: "ColorCode \<Rightarrow> ScreenChar list \<Rightarrow> u8 list list \<Rightarrow> Buffer" where
  "render color old rows =
     overlay color old (hd rows) # map (overlay color (replicate 80 (blank_char color))) (tl rows)"

definition last_rows :: "'a list \<Rightarrow> 'a list" where
  "last_rows xs = drop (length xs - 25) xs"

text \<open>
  The screen shows the text \<open>t\<close>, begun in the row \<open>old\<close> below the rows \<open>upper\<close>: the last 25 rows of all of
  it, with the cursor after the last character.
\<close>

definition shows_rows :: "Buffer \<Rightarrow> ScreenChar list \<Rightarrow> Writer \<Rightarrow> u8 list list \<Rightarrow> bool" where
  "shows_rows upper old w rows \<longleftrightarrow>
     length upper = 24 \<and> (\<forall>r \<in> set upper. length r = 80) \<and> length old = 80 \<and>
     buffer w = last_rows (upper @ render (color_code w) old rows) \<and>
     unat (column_position w) = length (last rows)"

definition shows_text :: "Buffer \<Rightarrow> ScreenChar list \<Rightarrow> Writer \<Rightarrow> u8 list \<Rightarrow> bool" where
  "shows_text upper old w t \<longleftrightarrow> shows_rows upper old w (text_rows t)"

lemma split_lines_nonempty [simp]: "split_lines s \<noteq> []"
  by (cases s) auto

lemma line_rows_nonempty [simp]: "line_rows xs \<noteq> []"
  by (subst line_rows.simps) simp

lemma line_rows_length: "r \<in> set (line_rows xs) \<Longrightarrow> length r \<le> 80"
proof (induction xs rule: line_rows.induct)
  case (1 xs)
  then show ?case by (cases "length xs \<le> 80") (auto simp: line_rows.simps [of xs])
qed

lemma text_rows_nonempty [simp]: "text_rows s \<noteq> []"
  by (simp add: text_rows_def)

lemma text_rows_length: "r \<in> set (text_rows s) \<Longrightarrow> length r \<le> 80"
  by (auto simp: text_rows_def line_rows_length)

text \<open>Appending a character to the text: what the cursor does.\<close>

definition add_row :: "'a \<Rightarrow> 'a list list \<Rightarrow> 'a list list" where
  "add_row b rows =
     (if length (last rows) \<ge> 80 then rows @ [[b]] else butlast rows @ [last rows @ [b]])"

lemma line_rows_snoc: "line_rows (xs @ [b]) = add_row b (line_rows xs)"
proof (induction xs rule: line_rows.induct)
  case (1 xs)
  show ?case
  proof (cases "length xs \<le> 80")
    case True
    then show ?thesis
      by (cases "length xs = 80") (simp_all add: line_rows.simps [of xs] line_rows.simps [of "xs @ [b]"] line_rows.simps [of "[b]"] add_row_def)
  next
    case False
    then show ?thesis using 1
      by (simp add: line_rows.simps [of xs] line_rows.simps [of "xs @ [b]"] add_row_def)
  qed
qed

lemma split_lines_snoc:
  "split_lines (s @ [b]) =
     (if b = 10 then split_lines s @ [[]] else butlast (split_lines s) @ [last (split_lines s) @ [b]])"
proof (induction s)
  case (Cons a s)
  then show ?case using split_lines_nonempty [of s] by (cases "split_lines s") auto
qed simp

lemma text_rows_snoc: "text_rows (s @ [b]) = (if b = 10 then text_rows s @ [[]] else add_row b (text_rows s))"
proof (cases "b = 10")
  case True
  then show ?thesis by (simp add: text_rows_def split_lines_snoc line_rows.simps)
next
  case False
  obtain ls l where s: "split_lines s = ls @ [l]" using split_lines_nonempty rev_exhaust by blast
  obtain rs r where l: "line_rows l = rs @ [r]" using line_rows_nonempty rev_exhaust by blast
  show ?thesis using False by (simp add: text_rows_def split_lines_snoc s line_rows_snoc l add_row_def butlast_append)
qed

section \<open>The writer shows the text\<close>

lemma last_rows_snoc:
  assumes "25 \<le> length xs"
  shows "last_rows (xs @ [x]) = tl (last_rows xs) @ [x]"
proof -
  have "length xs - 24 = Suc (length xs - 25)" using assms by simp
  then show ?thesis using assms by (simp add: last_rows_def tl_drop drop_Suc)
qed

lemma last_rows_put: "25 \<le> length xs \<Longrightarrow> last_rows (xs[length xs - 1 := x]) = (last_rows xs)[24 := x]"
  by (simp add: last_rows_def drop_update_swap)

lemma last_rows_last: "25 \<le> length xs \<Longrightarrow> last_rows xs ! 24 = last xs"
  by (cases "xs = []") (simp_all add: last_rows_def last_conv_nth)

lemma length_overlay: "length cs \<le> length old \<Longrightarrow> length (overlay color old cs) = length old"
  by (simp add: overlay_def)

lemma length_render [simp]: "rows \<noteq> [] \<Longrightarrow> length (render color old rows) = length rows"
  by (simp add: render_def)

lemma overlay_put:
  "length cs < length old \<Longrightarrow>
     overlay color old (cs @ [b]) = (overlay color old cs)[length cs := \<lparr>ascii_character = b, screen_color = color\<rparr>]"
  by (simp add: overlay_def list_update_append Cons_nth_drop_Suc [symmetric])

lemma render_newline: "rows \<noteq> [] \<Longrightarrow> render color old (rows @ [[]]) = render color old rows @ [replicate 80 (blank_char color)]"
  by (simp add: render_def overlay_def)

lemma render_put:
  assumes "rows \<noteq> []" "length (last rows) < 80" "length old = 80"
  shows "render color old (butlast rows @ [last rows @ [b]]) =
     (render color old rows)[length rows - 1 :=
        (last (render color old rows))[length (last rows) := \<lparr>ascii_character = b, screen_color = color\<rparr>]]"
proof -
  obtain rs r where rows: "rows = rs @ [r]" using assms(1) rev_exhaust by blast
  show ?thesis using assms by (cases rs) (simp_all add: rows render_def overlay_put list_update_append)
qed

lemma shows_rows_wf:
  assumes "shows_rows upper old w rows" "rows \<noteq> []" "\<forall>r \<in> set rows. length r \<le> 80"
  shows "writer_wf w"
proof -
  have "\<forall>r \<in> set (render (color_code w) old rows). length r = 80"
    using assms by (cases rows) (auto simp: render_def shows_rows_def length_overlay)
  then have "buffer_wf (buffer w)"
    using assms by (auto simp: buffer_wf_def shows_rows_def last_rows_def Suc_le_eq dest: in_set_dropD)
  moreover have "length (last rows) \<le> 80" using assms(2,3) by simp
  ultimately show ?thesis using assms(1) by (simp add: writer_wf_def shows_rows_def word_le_nat_alt)
qed

lemma new_line_shows:
  assumes "shows_rows upper old w rows" "rows \<noteq> []" "\<forall>r \<in> set rows. length r \<le> 80"
  shows "\<exists>w'. new_line w = Inr w' \<and> color_code w' = color_code w \<and> shows_rows upper old w' (rows @ [[]])"
proof -
  have "buffer_wf (buffer w)" using shows_rows_wf [OF assms] by (simp add: writer_wf_def)
  moreover have "25 \<le> length (upper @ render (color_code w) old rows)"
    using assms(1,2) by (cases rows) (auto simp: shows_rows_def)
  ultimately show ?thesis using assms(1,2)
    by (simp add: new_line_run shows_rows_def render_newline last_rows_snoc flip: append_assoc)
qed

lemma put_char_shows:
  assumes "shows_rows upper old w rows" "rows \<noteq> []" "\<forall>r \<in> set rows. length r \<le> 80" "length (last rows) < 80"
  shows "\<exists>w'. rbind (write_char (24) (column_position w) \<lparr>ascii_character = b, screen_color = color_code w\<rparr> w)
       (\<lambda>w'. rbind (checked_add (column_position w') 1) (\<lambda>c. Inr (w'\<lparr>column_position := c\<rparr>))) = Inr w' \<and>
     color_code w' = color_code w \<and> shows_rows upper old w' (butlast rows @ [last rows @ [b]])"
proof -
  let ?ch = "\<lparr>ascii_character = b, screen_color = color_code w\<rparr>" and ?X = "upper @ render (color_code w) old rows"
  have wf: "buffer_wf (buffer w)" using shows_rows_wf [OF assms(1-3)] by (simp add: writer_wf_def)
  have col: "unat (column_position w) = length (last rows)" and old: "length old = 80" and upper: "length upper = 24"
    and b: "buffer w = last_rows ?X" using assms(1) by (simp_all add: shows_rows_def)
  have len: "25 \<le> length ?X" using upper assms(2) by (cases rows) auto
  have "write_char (24) (column_position w) ?ch w =
      Inr (w\<lparr>buffer := (buffer w)[24 := (buffer w ! 24)[length (last rows) := ?ch]]\<rparr>)"
    using write_char_nat [OF wf, of 24 "length (last rows)" ?ch] assms(4) by (simp flip: col)
  moreover have "upper @ render (color_code w) old (butlast rows @ [last rows @ [b]]) =
      ?X[length ?X - 1 := (last ?X)[length (last rows) := ?ch]]"
    using render_put [OF assms(2,4) old] assms(2) upper
    by (simp add: list_update_append) (metis last_appendR length_greater_0_conv length_render list.size(3))
  ultimately show ?thesis
    using assms(1,4) col last_rows_put [OF len] last_rows_last [OF len]
    by (simp add: shows_rows_def checked_add_def unat_word_ariths b)
qed

lemma write_byte_shows:
  assumes "shows_text upper old w t"
  shows "\<exists>w'. write_byte b w = Inr w' \<and> color_code w' = color_code w \<and> shows_text upper old w' (t @ [b])"
proof (cases "b = 10")
  case True
  then show ?thesis using assms new_line_shows [of upper old w "text_rows t"] text_rows_length
    by (auto simp: shows_text_def write_byte_def text_rows_snoc)
next
  case False
  let ?rows = "text_rows t" and ?full = "length (last (text_rows t)) \<ge> 80"
  have R: "shows_rows upper old w ?rows" "\<forall>r \<in> set ?rows. length r \<le> 80"
    using assms text_rows_length by (auto simp: shows_text_def)
  define rows' where "rows' = (if ?full then ?rows @ [[]] else ?rows)"
  have full: "column_position w \<ge> BUFFER_WIDTH \<longleftrightarrow> ?full"
    using R(1) by (simp add: shows_rows_def BUFFER_WIDTH_def word_le_nat_alt)
  obtain w1 where w1: "(if column_position w \<ge> BUFFER_WIDTH then new_line w else Inr w) = Inr w1"
    "color_code w1 = color_code w" "shows_rows upper old w1 rows'"
    using new_line_shows [OF R(1) _ R(2)] R(1) by (cases ?full) (auto simp: full rows'_def)
  have "\<forall>r \<in> set rows'. length r \<le> 80" "rows' \<noteq> []" "length (last rows') < 80"
    using R(2) by (auto simp: rows'_def)
  then obtain w2 where "rbind (write_char (24) (column_position w1) \<lparr>ascii_character = b, screen_color = color_code w1\<rparr> w1)
       (\<lambda>w'. rbind (checked_add (column_position w') 1) (\<lambda>c. Inr (w'\<lparr>column_position := c\<rparr>))) = Inr w2"
    "color_code w2 = color_code w1" "shows_rows upper old w2 (butlast rows' @ [last rows' @ [b]])"
    using put_char_shows [OF w1(3)] by blast
  moreover have "checked_sub BUFFER_HEIGHT 1 = Inr (24)" by (simp add: BUFFER_HEIGHT_def checked_sub_def)
  moreover have "text_rows (t @ [b]) = butlast rows' @ [last rows' @ [b]]"
    using False by (simp add: text_rows_snoc add_row_def rows'_def)
  ultimately show ?thesis using False w1 by (simp add: write_byte_def Let_def shows_text_def)
qed

lemma write_string_run:
  assumes "shows_text upper old w t"
  shows "\<exists>w'. write_string s w = Inr w' \<and> color_code w' = color_code w \<and> shows_text upper old w' (t @ map printable s)"
  using assms
proof (induction s arbitrary: w t)
  case Nil
  then show ?case by (simp add: write_string_def)
next
  case (Cons b s)
  obtain w1 where w1: "write_byte (printable b) w = Inr w1" "color_code w1 = color_code w"
    "shows_text upper old w1 (t @ [printable b])" using write_byte_shows [OF Cons.prems] by blast
  with Cons.IH [OF w1(3)] show ?case by (auto simp: write_string_def printable_def split: if_splits)
qed

lemma shows_nothing:
  assumes "writer_wf w" "column_position w = 0"
  shows "shows_text (butlast (buffer w)) (last (buffer w)) w []"
proof -
  have "buffer w \<noteq> []" using assms by (auto simp: writer_wf_def buffer_wf_def)
  then show ?thesis using assms
    by (auto simp: shows_text_def shows_rows_def text_rows_def line_rows.simps render_def overlay_def last_rows_def
        writer_wf_def buffer_wf_def dest: in_set_butlastD)
qed

text \<open>
  C16. The screen is a window on the text: starting in a row of its own, after any sequence of strings the
  buffer shows the last 25 rows of everything written since, split at the newlines and wrapped at 80
  columns, with bytes outside the printable range as 0xFE, and the cursor after the last character.
  Writing never panics and keeps the shape of the buffer and the colour.
\<close>

theorem console_shows_text:
  assumes "writer_wf w" and "column_position w = 0"
  shows "\<exists>w'. write_fmt vga_write_str strings w = Inr (Inr (), w') \<and> writer_wf w' \<and> color_code w' = color_code w \<and>
     (let rows = text_rows (map printable (concat strings))
      in buffer w' = last_rows (butlast (buffer w) @ render (color_code w) (last (buffer w)) rows) \<and>
         unat (column_position w') = length (last rows))"
proof -
  let ?P = "\<lambda>acc w'. color_code w' = color_code w \<and>
    shows_text (butlast (buffer w)) (last (buffer w)) w' (map printable acc)"
  have "\<exists>w'. write_fmt vga_write_str strings w = Inr (Inr (), w') \<and> ?P ([] @ concat strings) w'"
  proof (rule write_fmt_total)
    show "?P [] w" using shows_nothing [OF assms] by simp
    fix p acc w' assume "?P acc w'"
    then show "\<exists>w''. vga_write_str p w' = Inr (Inr (), w'') \<and> ?P (acc @ p) w''"
      using write_string_run [of _ _ w' "map printable acc" p] by (fastforce simp: vga_write_str_def)
  qed
  then obtain w' where w': "write_fmt vga_write_str strings w = Inr (Inr (), w')" "color_code w' = color_code w"
    "shows_rows (butlast (buffer w)) (last (buffer w)) w' (text_rows (map printable (concat strings)))"
    by (auto simp: shows_text_def)
  then have "writer_wf w'" using shows_rows_wf text_rows_length text_rows_nonempty by blast
  with w' show ?thesis by (simp add: shows_rows_def)
qed

definition empty_screen :: Buffer where
  "empty_screen = replicate 25 (replicate 80 (blank_char 0))"

theorem console_shows_text_witness:
  "writer_wf (WRITER_new empty_screen) \<and>
   (\<exists>w'. write_fmt vga_write_str [[72, 105], [10]] (WRITER_new empty_screen) = Inr (Inr (), w') \<and>
      column_position w' = 0)"
proof -
  have wf: "writer_wf (WRITER_new empty_screen)"
    by (simp add: writer_wf_def WRITER_new_def empty_screen_def buffer_wf_def)
  have "text_rows (map printable (concat [[72, 105], [10]])) = [[72, 105], []]"
    by (simp add: printable_def text_rows_def line_rows.simps)
  then show ?thesis using console_shows_text [OF wf, of "[[72, 105], [10]]"] wf
    by (auto simp: WRITER_new_def Let_def unat_eq_0)
qed

theorem writer_stays_well_formed_witness:
  "writer_wf (WRITER_new empty_screen) \<and> clear_row 25 (WRITER_new empty_screen) = Inl IndexOutOfBounds \<and>
   (\<exists>w'. write_string [0x48, 10, 0x80] (WRITER_new empty_screen) = Inr w' \<and> writer_wf w')"
proof -
  have wf: "writer_wf (WRITER_new empty_screen)"
    by (simp add: writer_wf_def WRITER_new_def empty_screen_def buffer_wf_def)
  from writer_stays_well_formed [OF wf, of _ "[0x48, 10, 0x80]" 25] wf show ?thesis by auto
qed

end
