(* ===== verification/Descriptor_Tables.thy ===== *)
theory Descriptor_Tables
  imports Paging_Interface
begin

text \<open>
  The descriptor tables of the processor: the task state segment and the global descriptor table of
  \<^verbatim>\<open>src/gdt.rs\<close>, the interrupt descriptor table of \<^verbatim>\<open>src/interrupts/mod.rs\<close>, and the loading of both.
  The selector that \<^verbatim>\<open>GlobalDescriptorTable::add_entry\<close> of the crate \<^verbatim>\<open>x86_64\<close> returns for a descriptor
  is a parameter.
\<close>

section \<open>The global descriptor table\<close>

definition DOUBLE_FAULT_IST_INDEX :: u16 where "DOUBLE_FAULT_IST_INDEX = 0"

record TaskStateSegment =
  interrupt_stack_table :: "u64 list"

datatype Descriptor = kernel_code_segment | tss_segment TaskStateSegment

text \<open>A table is the list of its entries with their selectors, oldest first.\<close>

type_synonym GlobalDescriptorTable = "(u16 \<times> Descriptor) list"

record Selectors =
  code_selector :: u16
  tss_selector :: u16

definition STACK_SIZE :: usize where "STACK_SIZE = 4096 * 5"

text \<open>The static \<^verbatim>\<open>STACK\<close> starts at the address \<open>stack_start\<close>; a new segment has seven empty entries.\<close>

definition TSS :: "crates \<Rightarrow> u64 \<Rightarrow> TaskStateSegment res" where
  "TSS E stack_start =
     rbind (VirtAddr_add E stack_start STACK_SIZE) (\<lambda>stack_end.
     rbind (index_set (replicate 7 0) (ucast DOUBLE_FAULT_IST_INDEX) stack_end) (\<lambda>table.
     Inr \<lparr>interrupt_stack_table = table\<rparr>))"

definition add_entry ::
    "(GlobalDescriptorTable \<Rightarrow> Descriptor \<Rightarrow> u16) \<Rightarrow> Descriptor \<Rightarrow> GlobalDescriptorTable \<Rightarrow>
     u16 \<times> GlobalDescriptorTable" where
  "add_entry selector d gdt = (selector gdt d, gdt @ [(selector gdt d, d)])"

definition GDT ::
    "crates \<Rightarrow> (GlobalDescriptorTable \<Rightarrow> Descriptor \<Rightarrow> u16) \<Rightarrow> u64 \<Rightarrow> (GlobalDescriptorTable \<times> Selectors) res" where
  "GDT E selector stack_start =
     (let (code, gdt) = add_entry selector kernel_code_segment []
      in rbind (TSS E stack_start) (\<lambda>tss.
         let (tss_sel, gdt) = add_entry selector (tss_segment tss) gdt
         in Inr (gdt, \<lparr>code_selector = code, tss_selector = tss_sel\<rparr>)))"

section \<open>The interrupt descriptor table\<close>

definition PIC_1_OFFSET :: u8 where "PIC_1_OFFSET = 32"
definition PIC_2_OFFSET :: u8 where "PIC_2_OFFSET = PIC_1_OFFSET + 8"

datatype InterruptIndex = Timer_irq | Keyboard_irq

definition InterruptIndex_as_u8 :: "InterruptIndex \<Rightarrow> u8" where
  "InterruptIndex_as_u8 i = (case i of Timer_irq \<Rightarrow> PIC_1_OFFSET | Keyboard_irq \<Rightarrow> PIC_1_OFFSET + 1)"

datatype handler_fn =
    breakpoint_fn | page_fault_fn | double_fault_fn | timer_interrupt_fn | keyboard_interrupt_fn

record idt_entry =
  entry_fn :: handler_fn
  stack_index :: "u16 option"

type_synonym InterruptDescriptorTable = "u8 \<rightharpoonup> idt_entry"

text \<open>The vectors of the exceptions: breakpoint 3, double fault 8, page fault 14.\<close>

definition IDT :: InterruptDescriptorTable where
  "IDT = Map.empty
     (3 \<mapsto> \<lparr>entry_fn = breakpoint_fn, stack_index = None\<rparr>,
      14 \<mapsto> \<lparr>entry_fn = page_fault_fn, stack_index = None\<rparr>,
      8 \<mapsto> \<lparr>entry_fn = double_fault_fn, stack_index = Some DOUBLE_FAULT_IST_INDEX\<rparr>,
      InterruptIndex_as_u8 Timer_irq \<mapsto> \<lparr>entry_fn = timer_interrupt_fn, stack_index = None\<rparr>,
      InterruptIndex_as_u8 Keyboard_irq \<mapsto> \<lparr>entry_fn = keyboard_interrupt_fn, stack_index = None\<rparr>)"

section \<open>Loading\<close>

record cpu_tables =
  gdtr :: GlobalDescriptorTable
  cs_register :: u16
  task_register :: u16
  idtr :: InterruptDescriptorTable

definition gdt_init ::
    "crates \<Rightarrow> (GlobalDescriptorTable \<Rightarrow> Descriptor \<Rightarrow> u16) \<Rightarrow> u64 \<Rightarrow> cpu_tables \<Rightarrow> cpu_tables res" where
  "gdt_init E selector stack_start cpu =
     rbind (GDT E selector stack_start) (\<lambda>(gdt, sel).
     let cpu = cpu\<lparr>gdtr := gdt\<rparr>;
         cpu = cpu\<lparr>cs_register := code_selector sel\<rparr>
     in Inr (cpu\<lparr>task_register := tss_selector sel\<rparr>))"

definition init_idt :: "cpu_tables \<Rightarrow> cpu_tables" where
  "init_idt cpu = cpu\<lparr>idtr := IDT\<rparr>"

text \<open>
  The stack that the processor switches to for an interrupt: the entry names an index into the stack
  table of the segment that the task register selects in the loaded table.
\<close>

definition loaded_tss :: "cpu_tables \<Rightarrow> TaskStateSegment option" where
  "loaded_tss cpu =
     (case map_of (gdtr cpu) (task_register cpu) of Some (tss_segment t) \<Rightarrow> Some t | _ \<Rightarrow> None)"

definition interrupt_stack :: "cpu_tables \<Rightarrow> u8 \<Rightarrow> u64 option" where
  "interrupt_stack cpu v =
     (case idtr cpu v of
        None \<Rightarrow> None
      | Some e \<Rightarrow>
          (case stack_index e of
             None \<Rightarrow> None
           | Some i \<Rightarrow> map_option (\<lambda>t. interrupt_stack_table t ! unat i) (loaded_tss cpu)))"

lemma gdt_init_run:
  assumes "crates_ok E" and "unat stack_start + 20480 < 2 ^ 47"
  shows "gdt_init E selector stack_start cpu =
     (let code = selector [] kernel_code_segment;
          tss = \<lparr>interrupt_stack_table = (replicate 7 0)[0 := stack_start + 20480]\<rparr>;
          task = selector [(code, kernel_code_segment)] (tss_segment tss)
      in Inr (cpu\<lparr>gdtr := [(code, kernel_code_segment), (task, tss_segment tss)], cs_register := code,
             task_register := task\<rparr>))"
  using assms
  by (simp add: gdt_init_def GDT_def TSS_def STACK_SIZE_def crates_VirtAddr_add add_entry_def Let_def
      index_set_def DOUBLE_FAULT_IST_INDEX_def)

lemma double_fault_stack_run:
  assumes "crates_ok E" and "unat stack_start + 20480 < 2 ^ 47"
    and "\<And>t. selector [(selector [] kernel_code_segment, kernel_code_segment)] (tss_segment t) \<noteq> selector [] kernel_code_segment"
  shows "\<exists>cpu'. gdt_init E selector stack_start cpu = Inr cpu' \<and>
     (\<forall>v. interrupt_stack (init_idt cpu') v = (if v = 8 then Some (stack_start + 20480) else None)) \<and>
     map_of (gdtr (init_idt cpu')) (cs_register (init_idt cpu')) = Some kernel_code_segment \<and>
     map (\<lambda>v. map_option entry_fn (idtr (init_idt cpu') v)) [3, 8, 14, PIC_1_OFFSET, PIC_1_OFFSET + 1] =
       map Some [breakpoint_fn, double_fault_fn, page_fault_fn, timer_interrupt_fn, keyboard_interrupt_fn]"
  using assms
  by (simp add: gdt_init_run Let_def interrupt_stack_def init_idt_def loaded_tss_def IDT_def PIC_1_OFFSET_def
      InterruptIndex_as_u8_def DOUBLE_FAULT_IST_INDEX_def)

text \<open>
  After the tables are loaded every vector the kernel programs has its handler, and the double fault
  has a stack of its own: the processor switches to the end of the 20 KiB stack of the task state
  segment, whatever the selectors are, as long as the two differ. No other vector switches stacks.
\<close>

theorem double_fault_stack:
  assumes "crates_ok E" and "unat stack_start + 20480 < 2 ^ 47"
    and "\<And>t. selector [(selector [] kernel_code_segment, kernel_code_segment)] (tss_segment t) \<noteq> selector [] kernel_code_segment"
  shows "\<exists>cpu'. gdt_init E selector stack_start cpu = Inr cpu' \<and>
     (\<forall>v. interrupt_stack (init_idt cpu') v = (if v = 8 then Some (stack_start + 20480) else None)) \<and>
     map_of (gdtr (init_idt cpu')) (cs_register (init_idt cpu')) = Some kernel_code_segment \<and>
     map (\<lambda>v. map_option entry_fn (idtr (init_idt cpu') v)) [3, 8, 14, PIC_1_OFFSET, PIC_1_OFFSET + 1] =
       map Some [breakpoint_fn, double_fault_fn, page_fault_fn, timer_interrupt_fn, keyboard_interrupt_fn]"
  using assms by (rule double_fault_stack_run)

text \<open>The selectors of the crate: the index of the first slot times eight; the null descriptor is first.\<close>

definition example_selector :: "GlobalDescriptorTable \<Rightarrow> Descriptor \<Rightarrow> u16" where
  "example_selector gdt d = 8 * (1 + word_of_nat (length gdt))"

definition example_cpu :: cpu_tables where
  "example_cpu = \<lparr>gdtr = [], cs_register = 0, task_register = 0, idtr = Map.empty\<rparr>"

theorem double_fault_stack_witness:
  "\<exists>cpu'. gdt_init std_crates example_selector 0x10000 example_cpu = Inr cpu' \<and>
     interrupt_stack (init_idt cpu') 8 = Some 0x15000"
  using double_fault_stack [OF std_crates_ok, where stack_start = "0x10000" and selector = example_selector and cpu = example_cpu]
  by (auto simp: example_selector_def)

end
