(* ===== verification/Console.thy ===== *)
theory Console
  imports Machine Vga_Buffer Descriptor_Tables
begin

text \<open>
  The state of the running kernel with its statics and its spin locks (those of the screen, the serial
  port, the interrupt controller, the keyboard, the paging context, the heap and the ACPI handler), and the two consoles: the macros \<^verbatim>\<open>print!\<close> and
  \<^verbatim>\<open>serial_print!\<close> of \<^verbatim>\<open>src/vga_buffer.rs\<close> and \<^verbatim>\<open>src/serial.rs\<close>, and the logger of \<^verbatim>\<open>src/logger.rs\<close>.

  The crates \<^verbatim>\<open>x86_64\<close> (\<^verbatim>\<open>without_interrupts\<close>) and \<^verbatim>\<open>uart_16550\<close> are parameters, in the record
  \<open>console_crates\<close>.
\<close>

section \<open>State\<close>

datatype lock =
    WRITER_lock | SERIAL1_lock | PICS_lock | KEYBOARD_lock | PAGING_CTX_lock | ALLOCATOR_lock | HANDLER_lock

record ('m, 'sp, 'kb) kernel = "'m machine" +
  held :: "lock set"
  WRITER :: Writer
  SERIAL1 :: "'sp option"
  KEYBOARD :: 'kb
  cpu :: cpu_tables

text \<open>
  \<^verbatim>\<open>Mutex::lock\<close> of the crate \<^verbatim>\<open>spin\<close> waits until the lock is free. On the one processor that runs the
  kernel nothing else runs while an operation waits, so a lock that is held stays held. \<^verbatim>\<open>try_lock\<close>
  gives up instead.
\<close>

definition with_lock ::
    "lock \<Rightarrow> (('m, 'sp, 'kb) kernel, 'a) eff \<Rightarrow> (('m, 'sp, 'kb) kernel, 'a) eff" where
  "with_lock l body s =
     (if l \<in> held s then Inl SpinsForever
      else rbind (body (s\<lparr>held := insert l (held s)\<rparr>)) (\<lambda>(r, s'). Inr (r, s'\<lparr>held := held s' - {l}\<rparr>)))"

definition try_lock ::
    "lock \<Rightarrow> (('m, 'sp, 'kb) kernel, unit) eff \<Rightarrow> (('m, 'sp, 'kb) kernel, unit) eff" where
  "try_lock l body s = (if l \<in> held s then Inr ((), s) else with_lock l body s)"

record ('m, 'sp, 'kb) console_crates =
  without_interrupts ::
    "(('m, 'sp, 'kb) kernel, unit) eff \<Rightarrow> (('m, 'sp, 'kb) kernel, unit) eff"
  SerialPort_new :: "u16 \<Rightarrow> 'sp"
  SerialPort_init :: "('sp \<times> hw, unit) eff"
  SerialPort_write_str :: "u8 list \<Rightarrow> ('sp \<times> hw, fmt_result) eff"

definition hw_of :: "('m, 'sp, 'kb) kernel \<Rightarrow> hw" where
  "hw_of s = \<lparr>trace = trace s, interrupt_flag = interrupt_flag s\<rparr>"

definition with_hw :: "hw \<Rightarrow> ('m, 'sp, 'kb) kernel \<Rightarrow> ('m, 'sp, 'kb) kernel" where
  "with_hw h s = s\<lparr>trace := trace h, interrupt_flag := interrupt_flag h\<rparr>"

section \<open>Printing\<close>

definition vga_print :: "('m, 'sp, 'kb) console_crates \<Rightarrow> u8 list list \<Rightarrow> (('m, 'sp, 'kb) kernel, unit) eff" where
  "vga_print C args =
     without_interrupts C
       (with_lock WRITER_lock (\<lambda>s.
          rbind (write_fmt vga_write_str args (WRITER s)) (\<lambda>(r, w).
          rbind (unwrap_ok r) (\<lambda>_.
          Inr ((), s\<lparr>WRITER := w\<rparr>)))))"

text \<open>\<^verbatim>\<open>println!\<close> adds a newline to the arguments.\<close>

definition println :: "('m, 'sp, 'kb) console_crates \<Rightarrow> u8 list list \<Rightarrow> (('m, 'sp, 'kb) kernel, unit) eff" where
  "println C args = vga_print C (args @ [bytes [CHR 10]])"

text \<open>The static \<^verbatim>\<open>SERIAL1\<close> is made and initialised at its first use.\<close>

definition force_serial :: "('m, 'sp, 'kb) console_crates \<Rightarrow> (('m, 'sp, 'kb) kernel, unit) eff" where
  "force_serial C s =
     (case SERIAL1 s of
        Some _ \<Rightarrow> Inr ((), s)
      | None \<Rightarrow>
          rbind (SerialPort_init C (SerialPort_new C 0x3F8, hw_of s)) (\<lambda>(_, port, h).
          Inr ((), (with_hw h s)\<lparr>SERIAL1 := Some port\<rparr>)))"

definition on_serial ::
    "('sp \<times> hw, 'a) eff \<Rightarrow> (('m, 'sp, 'kb) kernel, 'a) eff" where
  "on_serial f s =
     rbind (unwrap (SERIAL1 s)) (\<lambda>port.
     rbind (f (port, hw_of s)) (\<lambda>(r, port', h).
     Inr (r, (with_hw h s)\<lparr>SERIAL1 := Some port'\<rparr>)))"

definition serial_print :: "('m, 'sp, 'kb) console_crates \<Rightarrow> u8 list list \<Rightarrow> (('m, 'sp, 'kb) kernel, unit) eff" where
  "serial_print C args =
     without_interrupts C
       (bnd (force_serial C) (\<lambda>_.
        with_lock SERIAL1_lock
          (bnd (on_serial (write_fmt (SerialPort_write_str C) args)) (\<lambda>r.
           lift_res (expect_ok ''Printing to serial failed'' r)))))"

definition serial_println :: "('m, 'sp, 'kb) console_crates \<Rightarrow> u8 list list \<Rightarrow> (('m, 'sp, 'kb) kernel, unit) eff" where
  "serial_println C args = serial_print C (args @ [bytes [CHR 10]])"

section \<open>The logger\<close>

text \<open>A \<^verbatim>\<open>log::Record\<close>: its level and target as they are displayed, the place, and the message.\<close>

record log_record =
  log_level :: "u8 list"
  log_target :: "u8 list"
  log_file :: "u8 list option"
  log_line :: "u32 option"
  log_args :: "u8 list list"

definition logger_enabled :: bool where "logger_enabled = True"

definition logger_log :: "('m, 'sp, 'kb) console_crates \<Rightarrow> log_record \<Rightarrow> (('m, 'sp, 'kb) kernel, unit) eff" where
  "logger_log C rec =
     (if \<not> logger_enabled then ret ()
      else
        bnd (serial_print C [bytes ''['', log_level rec, bytes ''][''  , log_target rec, bytes '']'']) (\<lambda>_.
        bnd (case log_file rec of
               None \<Rightarrow> ret ()
             | Some f \<Rightarrow>
                 bnd (serial_print C [bytes ''['', f]) (\<lambda>_.
                 bnd (case log_line rec of
                        None \<Rightarrow> ret ()
                      | Some n \<Rightarrow> serial_print C [bytes '':'', decimal (unat n)]) (\<lambda>_.
                 serial_print C [bytes '']'']))) (\<lambda>_.
        serial_println C (log_args rec))))"

definition logger_flush :: "(('m, 'sp, 'kb) kernel, unit) eff" where
  "logger_flush = ret ()"

section \<open>What the crates do\<close>

text \<open>
  \<^verbatim>\<open>without_interrupts\<close> disables interrupts for the closure and enables them again if they were enabled.
  The serial port sends every byte of a string; a backspace and a delete, 8 and 0x7F, are sent as
  backspace, space, backspace. \<open>sent\<close> reads the bytes off the accesses to the hardware.
\<close>

definition interrupts_off ::
    "((('m, 'sp, 'kb) kernel, unit) eff \<Rightarrow> (('m, 'sp, 'kb) kernel, unit) eff) \<Rightarrow> bool" where
  "interrupts_off WI \<longleftrightarrow>
     (\<forall>f s. WI f s =
        rmap (\<lambda>(r, s'). (r, s'\<lparr>interrupt_flag := interrupt_flag s \<or> interrupt_flag s'\<rparr>))
          (f (s\<lparr>interrupt_flag := False\<rparr>)))"

definition serial_bytes :: "u8 list \<Rightarrow> u8 list" where
  "serial_bytes bs = concat (map (\<lambda>b. if b = 8 \<or> b = 0x7F then [8, 0x20, 8] else [b]) bs)"

definition uart_ok :: "('m, 'sp, 'kb) console_crates \<Rightarrow> (io_event list \<Rightarrow> u8 list) \<Rightarrow> bool" where
  "uart_ok C sent \<longleftrightarrow>
     (\<forall>h. \<exists>port u. SerialPort_init C (SerialPort_new C 0x3F8, h) = Inr ((), port, emits u h) \<and>
        sent (trace h @ u) = sent (trace h)) \<and>
     (\<forall>port h bs. \<exists>port' u. SerialPort_write_str C bs (port, h) = Inr (Inr (), port', emits u h) \<and>
        sent (trace h @ u) = sent (trace h) @ serial_bytes bs)"

section \<open>Output to the screen\<close>

lemma serial_bytes_append [simp]: "serial_bytes (xs @ ys) = serial_bytes xs @ serial_bytes ys"
  by (simp add: serial_bytes_def)

lemma interrupts_off_run:
  assumes "interrupts_off WI" and "f (s\<lparr>interrupt_flag := False\<rparr>) = Inr (r, s')" and "\<not> interrupt_flag s'"
  shows "WI f s = Inr (r, s'\<lparr>interrupt_flag := interrupt_flag s\<rparr>)"
  using assms by (simp add: interrupts_off_def)

lemma vga_print_run:
  assumes "interrupts_off (without_interrupts C)" and "WRITER_lock \<notin> held s" and "shows_text upper old (WRITER s) t"
  shows "\<exists>w'. vga_print C strings s = Inr ((), s\<lparr>WRITER := w'\<rparr>) \<and>
     shows_text upper old w' (t @ map printable (concat strings))"
proof -
  let ?P = "\<lambda>acc w. shows_text upper old w (t @ map printable acc)"
  have "\<exists>w'. write_fmt vga_write_str strings (WRITER s) = Inr (Inr (), w') \<and> ?P ([] @ concat strings) w'"
  proof (rule write_fmt_total)
    show "?P [] (WRITER s)" using assms(3) by simp
    fix p acc w assume "?P acc w"
    then show "\<exists>w'. vga_write_str p w = Inr (Inr (), w') \<and> ?P (acc @ p) w'"
      using write_string_run [of upper old w _ p] by (fastforce simp: vga_write_str_def)
  qed
  then show ?thesis
    using assms(1,2) by (auto simp: vga_print_def interrupts_off_def with_lock_def)
qed

text \<open>
  Printing to the screen is atomic and leaves no trace but the text: with the lock free it always
  returns, releases the lock, restores the interrupt flag and changes no other part of the kernel, and
  the screen shows everything printed so far; with the lock held it never returns.
\<close>

theorem vga_print_effect:
  assumes "interrupts_off (without_interrupts C)"
  shows "if WRITER_lock \<in> held s then vga_print C strings s = Inl SpinsForever
    else \<forall>upper old t. shows_text upper old (WRITER s) t \<longrightarrow>
      (\<exists>w'. vga_print C strings s = Inr ((), s\<lparr>WRITER := w'\<rparr>) \<and>
         shows_text upper old w' (t @ map printable (concat strings)))"
proof (cases "WRITER_lock \<in> held s")
  case True
  then show ?thesis using assms by (simp add: vga_print_def interrupts_off_def with_lock_def)
next
  case False
  then show ?thesis using vga_print_run [OF assms] by simp
qed

section \<open>Output to the serial line\<close>

lemma serial_print_run:
  fixes C :: "('m, 'sp, 'kb) console_crates"
  assumes "interrupts_off (without_interrupts C)" and "uart_ok C sent" and "SERIAL1_lock \<notin> held s"
  shows "\<exists>port u. serial_print C strings s = Inr ((), (emits u s)\<lparr>SERIAL1 := Some port\<rparr>) \<and>
     sent (trace s @ u) = sent (trace s) @ serial_bytes (concat strings)"
proof -
  let ?s = "s\<lparr>interrupt_flag := False\<rparr>"
  obtain p0 u0 where 0: "force_serial C ?s = Inr ((), (emits u0 ?s)\<lparr>SERIAL1 := Some p0\<rparr>)" "sent (trace s @ u0) = sent (trace s)"
  proof (cases "SERIAL1 s")
    case None
    obtain port u where "SerialPort_init C (SerialPort_new C 0x3F8, hw_of ?s) = Inr ((), port, emits u (hw_of ?s))"
      "sent (trace s @ u) = sent (trace s)" using assms(2) unfolding uart_ok_def by (fastforce simp: hw_of_def)
    with None show ?thesis by (intro that [of port u]) (simp_all add: force_serial_def with_hw_def hw_of_def emits_def)
  next
    case (Some p)
    then show ?thesis by (intro that [of p "[]"]) (simp_all add: force_serial_def)
  qed
  let ?h = "\<lparr>trace = trace s @ u0, interrupt_flag = False\<rparr>"
  let ?P = "\<lambda>acc (p, h). \<exists>u. h = emits u ?h \<and> sent (trace s @ u0 @ u) = sent (trace s) @ serial_bytes acc"
  have "\<exists>ph. write_fmt (SerialPort_write_str C) strings (p0, ?h) = Inr (Inr (), ph) \<and> ?P ([] @ concat strings) ph"
  proof (rule write_fmt_total)
    show "?P [] (p0, ?h)" using 0(2) by (auto simp: serial_bytes_def intro!: exI [of _ "[]"])
    fix bs acc and ph :: "'sp \<times> hw"
    assume P: "?P acc ph"
    then obtain p u where ph: "ph = (p, emits u ?h)" and u: "sent (trace s @ u0 @ u) = sent (trace s) @ serial_bytes acc"
      by (cases ph) auto
    obtain p' v where "SerialPort_write_str C bs ph = Inr (Inr (), p', emits v (emits u ?h))"
      "sent (trace (emits u ?h) @ v) = sent (trace (emits u ?h)) @ serial_bytes bs"
      using assms(2) ph unfolding uart_ok_def by metis
    with u show "\<exists>ph'. SerialPort_write_str C bs ph = Inr (Inr (), ph') \<and> ?P (acc @ bs) ph'"
      by (intro exI [of _ "(p', emits v (emits u ?h))"]) (auto simp: emits_def)
  qed
  then obtain p u where w: "write_fmt (SerialPort_write_str C) strings (p0, ?h) = Inr (Inr (), p, emits u ?h)"
    "sent (trace s @ u0 @ u) = sent (trace s) @ serial_bytes (concat strings)" by auto
  have "serial_print C strings s = Inr ((), (emits (u0 @ u) s)\<lparr>SERIAL1 := Some p\<rparr>)"
    using assms(1,3) 0(1) w(1)
    by (simp add: serial_print_def interrupts_off_def bnd_run with_lock_def on_serial_def hw_of_def with_hw_def emits_def)
  with w(2) show ?thesis by blast
qed

text \<open>The text of a log line.\<close>

definition log_text :: "log_record \<Rightarrow> u8 list" where
  "log_text r =
     bytes ''['' @ log_level r @ bytes ''][''  @ log_target r @ bytes '']'' @
     (case log_file r of
        None \<Rightarrow> []
      | Some f \<Rightarrow> bytes ''['' @ f @ (case log_line r of None \<Rightarrow> [] | Some n \<Rightarrow> bytes '':'' @ decimal (unat n)) @ bytes '']'') @
     concat (log_args r) @ [10]"

text \<open>An operation whose only effects are the bytes \<open>t\<close> on the line and the state of the port.\<close>

definition sends :: "(io_event list \<Rightarrow> u8 list) \<Rightarrow> u8 list \<Rightarrow> (('m, 'sp, 'kb) kernel, unit) eff \<Rightarrow> bool" where
  "sends sent t f \<longleftrightarrow>
     (\<forall>s. SERIAL1_lock \<notin> held s \<longrightarrow>
        (\<exists>sp u. f s = Inr ((), (emits u s)\<lparr>SERIAL1 := sp\<rparr>) \<and> sent (trace s @ u) = sent (trace s) @ serial_bytes t))"

lemma sends_ret: "sends sent [] (ret ())"
  unfolding sends_def
proof (intro allI impI exI conjI)
  fix s :: "('m, 'sp, 'kb) kernel"
  show "ret () s = Inr ((), (emits [] s)\<lparr>SERIAL1 := SERIAL1 s\<rparr>)" "sent (trace s @ []) = sent (trace s) @ serial_bytes []"
    by (simp_all add: serial_bytes_def)
qed

lemma sends_bnd:
  assumes "sends sent t f" and "sends sent t' g"
  shows "sends sent (t @ t') (bnd f (\<lambda>_. g))"
  unfolding sends_def
proof (intro allI impI)
  fix s :: "('a, 'b, 'c) kernel" assume s: "SERIAL1_lock \<notin> held s"
  obtain sp u where 1: "f s = Inr ((), (emits u s)\<lparr>SERIAL1 := sp\<rparr>)" "sent (trace s @ u) = sent (trace s) @ serial_bytes t"
    using assms(1) s unfolding sends_def by blast
  have "SERIAL1_lock \<notin> held ((emits u s)\<lparr>SERIAL1 := sp\<rparr>)" using s by (simp add: emits_def)
  then obtain sp' u' where "g ((emits u s)\<lparr>SERIAL1 := sp\<rparr>) = Inr ((), (emits u' ((emits u s)\<lparr>SERIAL1 := sp\<rparr>))\<lparr>SERIAL1 := sp'\<rparr>)"
    "sent (trace ((emits u s)\<lparr>SERIAL1 := sp\<rparr>) @ u') = sent (trace ((emits u s)\<lparr>SERIAL1 := sp\<rparr>)) @ serial_bytes t'"
    using assms(2) unfolding sends_def by blast
  with 1 show "\<exists>sp'' v. bnd f (\<lambda>_. g) s = Inr ((), (emits v s)\<lparr>SERIAL1 := sp''\<rparr>) \<and>
      sent (trace s @ v) = sent (trace s) @ serial_bytes (t @ t')"
    by (intro exI [of _ sp'] exI [of _ "u @ u'"]) (simp add: bnd_run emits_def)
qed

lemma sends_serial_print:
  "interrupts_off (without_interrupts C) \<Longrightarrow> uart_ok C sent \<Longrightarrow> sends sent (concat strings) (serial_print C strings)"
  unfolding sends_def using serial_print_run by blast

lemma sends_serial_println:
  "interrupts_off (without_interrupts C) \<Longrightarrow> uart_ok C sent \<Longrightarrow> sends sent (concat strings @ [10]) (serial_println C strings)"
  using sends_serial_print [of C sent "strings @ [bytes [CHR 10]]"] by (simp add: serial_println_def bytes_def)

lemma sends_log:
  assumes "interrupts_off (without_interrupts C)" and "uart_ok C sent"
  shows "sends sent (log_text r) (logger_log C r)"
proof -
  note p = sends_serial_print [OF assms] and pl = sends_serial_println [OF assms]
  have n: "sends sent (case log_line r of None \<Rightarrow> [] | Some n \<Rightarrow> bytes '':'' @ decimal (unat n))
      (case log_line r of None \<Rightarrow> ret () | Some n \<Rightarrow> serial_print C [bytes '':'', decimal (unat n)])"
    using p [of "[bytes '':'', decimal (unat n)]" for n] by (cases "log_line r") (simp_all add: sends_ret)
  have f: "sends sent (case log_file r of None \<Rightarrow> [] | Some f \<Rightarrow> (bytes ''['' @ f) @
        (case log_line r of None \<Rightarrow> [] | Some n \<Rightarrow> bytes '':'' @ decimal (unat n)) @ bytes '']'')
      (case log_file r of None \<Rightarrow> ret () | Some f \<Rightarrow> bnd (serial_print C [bytes ''['', f]) (\<lambda>_.
         bnd (case log_line r of None \<Rightarrow> ret () | Some n \<Rightarrow> serial_print C [bytes '':'', decimal (unat n)])
           (\<lambda>_. serial_print C [bytes '']''])))"
    using sends_bnd [OF p [of "[bytes ''['', f]" for f] sends_bnd [OF n p [of "[bytes '']'']"]]]
    by (cases "log_file r") (simp_all add: sends_ret)
  show ?thesis
    using sends_bnd [OF p [of "[bytes ''['', log_level r, bytes '']['' , log_target r, bytes '']'']"] sends_bnd [OF f pl [of "log_args r"]]]
    by (simp add: logger_log_def logger_enabled_def log_text_def split: option.splits)
qed

text \<open>
  C31. A log record becomes one line on the serial port, \<^verbatim>\<open>[level][target][file:line]message\<close> with the place
  only as far as it is known. Logging always returns when the port is not in use, releases its lock,
  restores the interrupt flag and touches nothing but the port.
\<close>

theorem log_line_sent:
  assumes "interrupts_off (without_interrupts C)" and "uart_ok C sent" and "SERIAL1_lock \<notin> held s"
  shows "\<exists>sp u. logger_log C r s = Inr ((), (emits u s)\<lparr>SERIAL1 := sp\<rparr>) \<and>
     sent (trace s @ u) = sent (trace s) @ serial_bytes
       (bytes ''['' @ log_level r @ bytes ''][''  @ log_target r @ bytes '']'' @
        (case log_file r of
           None \<Rightarrow> []
         | Some f \<Rightarrow> bytes ''['' @ f @
             (case log_line r of None \<Rightarrow> [] | Some n \<Rightarrow> bytes '':'' @ decimal (unat n)) @ bytes '']'') @
        concat (log_args r) @ [10])"
  using sends_log [OF assms(1,2), of r] assms(3) by (simp add: sends_def log_text_def)

section \<open>An instance of the crates\<close>

text \<open>A port that writes every byte to the data register, and a kernel with an empty screen.\<close>

definition example_console :: "('m, unit, 'kb) console_crates" where
  "example_console =
     \<lparr>without_interrupts = (\<lambda>f s. rmap (\<lambda>(r, s'). (r, s'\<lparr>interrupt_flag := interrupt_flag s \<or> interrupt_flag s'\<rparr>))
          (f (s\<lparr>interrupt_flag := False\<rparr>))),
      SerialPort_new = (\<lambda>_. ()),
      SerialPort_init = (\<lambda>(p, h). Inr ((), p, emits [PortOut 8 0x3F9 1] h)),
      SerialPort_write_str = (\<lambda>bs (p, h). Inr (Inr (), p, emits (map (\<lambda>b. PortOut 8 0x3F8 (unat b)) (serial_bytes bs)) h))\<rparr>"

fun line_byte :: "io_event \<Rightarrow> u8 list" where
  "line_byte (PortOut n port v) = (if port = 0x3F8 then [word_of_nat v] else [])"
| "line_byte _ = []"

definition line_bytes :: "io_event list \<Rightarrow> u8 list" where
  "line_bytes t = concat (map line_byte t)"

lemma line_bytes_out: "line_bytes (map (\<lambda>b. PortOut 8 0x3F8 (unat b)) bs) = bs"
  by (induction bs) (simp_all add: line_bytes_def)

lemma example_console_ok: "interrupts_off (without_interrupts example_console)" "uart_ok example_console line_bytes"
proof -
  show "interrupts_off (without_interrupts example_console)" by (simp add: example_console_def interrupts_off_def)
  have append: "line_bytes (t @ u) = line_bytes t @ line_bytes u" for t u by (simp add: line_bytes_def)
  show "uart_ok example_console line_bytes"
    unfolding uart_ok_def
  proof (intro conjI allI)
    fix h show "\<exists>port u. SerialPort_init example_console (SerialPort_new example_console 0x3F8, h) = Inr ((), port, emits u h) \<and>
        line_bytes (trace h @ u) = line_bytes (trace h)"
      by (intro exI [of _ "()"] exI [of _ "[PortOut 8 0x3F9 1]"]) (simp add: example_console_def line_bytes_def)
    fix port bs show "\<exists>port' u. SerialPort_write_str example_console bs (port, h) = Inr (Inr (), port', emits u h) \<and>
        line_bytes (trace h @ u) = line_bytes (trace h) @ serial_bytes bs"
      by (intro exI [of _ "()"] exI [of _ "map (\<lambda>b. PortOut 8 0x3F8 (unat b)) (serial_bytes bs)"])
         (simp add: example_console_def append line_bytes_out)
  qed
qed

definition example_kernel :: "(translation, unit, unit) kernel" where
  "example_kernel = \<lparr>trace = [], interrupt_flag = True, paging_ctx = None,
     heap = \<lparr>heap_region = None, INITIALIZED = False\<rparr>, PICS = Pics 32 40, held = {},
     WRITER = WRITER_new empty_screen, SERIAL1 = None, KEYBOARD = (), cpu = example_cpu\<rparr>"

lemma example_kernel_shows: "shows_text (butlast empty_screen) (last empty_screen) (WRITER example_kernel) []"
proof -
  have "writer_wf (WRITER_new empty_screen)" by (simp add: writer_wf_def WRITER_new_def empty_screen_def buffer_wf_def)
  then show ?thesis using shows_nothing [of "WRITER_new empty_screen"] by (simp add: example_kernel_def WRITER_new_def)
qed

theorem vga_print_effect_witness:
  "\<exists>w'. vga_print example_console [[72, 105]] example_kernel = Inr ((), example_kernel\<lparr>WRITER := w'\<rparr>) \<and>
     column_position w' = 2"
proof -
  have rows: "text_rows ([] @ map printable (concat [[72, 105]])) = [[72, 105]]"
    by (simp add: printable_def text_rows_def line_rows.simps)
  have free: "WRITER_lock \<notin> held example_kernel" by (simp add: example_kernel_def)
  from vga_print_effect [OF example_console_ok(1), of example_kernel "[[72, 105]]", unfolded if_not_P [OF free]]
    example_kernel_shows
  obtain w' where "vga_print example_console [[72, 105]] example_kernel = Inr ((), example_kernel\<lparr>WRITER := w'\<rparr>)"
    "shows_text (butlast empty_screen) (last empty_screen) w' ([] @ map printable (concat [[72, 105]]))"
    by blast
  then show ?thesis unfolding shows_text_def rows by (auto simp: shows_rows_def word_unat_eq_iff)
qed

definition example_record :: log_record where
  "example_record = \<lparr>log_level = bytes ''INFO'', log_target = bytes ''k'', log_file = Some (bytes ''a.rs''),
     log_line = Some 7, log_args = [bytes ''hi'']\<rparr>"

theorem log_line_sent_witness:
  "\<exists>sp u. logger_log example_console example_record example_kernel = Inr ((), (emits u example_kernel)\<lparr>SERIAL1 := sp\<rparr>) \<and>
     line_bytes u = bytes ''[INFO][k][a.rs:7]hi'' @ [10]"
proof -
  have "SERIAL1_lock \<notin> held example_kernel" "trace example_kernel = []" by (simp_all add: example_kernel_def)
  then show ?thesis
    using log_line_sent [OF example_console_ok, of example_kernel example_record]
    by (simp add: example_record_def serial_bytes_def bytes_def decimal_def digits.simps line_bytes_def)
qed

end
