(* ===== verification/Timer.thy ===== *)
theory Timer
  imports Hardware
begin

text \<open>
  The timing functions of \<^verbatim>\<open>src/lib.rs\<close>: \<^verbatim>\<open>pit_init\<close> programs the interval timer for a tick per
  millisecond, \<^verbatim>\<open>sleep\<close> halts once per millisecond, \<^verbatim>\<open>hlt_loop\<close> halts for ever. The effect of
  \<^verbatim>\<open>pit_init\<close> is stated against a specification of channel 0 of the 8254.
\<close>

section \<open>Operations\<close>

definition DIVISOR :: u16 where "DIVISOR = 1193"

definition pit_init :: "('z hw_scheme, unit) eff" where
  "pit_init =
     seq [write_to_port 0x43 (0b00110100 :: u8),
          write_to_port 0x40 (ucast DIVISOR :: u8),
          write_to_port 0x40 (ucast (drop_bit 8 DIVISOR) :: u8)]"

definition sleep :: "u64 \<Rightarrow> ('z hw_scheme, unit) eff" where
  "sleep miliseconds = for_eff (\<lambda>_. hlt) (urange 0 miliseconds)"

text \<open>The halt loop has type \<^verbatim>\<open>!\<close>: \<open>None\<close> is not returning.\<close>

partial_function (option) hlt_loop :: "'z hw_scheme \<Rightarrow> unit option" where
  "hlt_loop s = (case hlt s of Inl p \<Rightarrow> Some () | Inr (_, s') \<Rightarrow> hlt_loop s')"

section \<open>Specification of the timer\<close>

text \<open>
  Channel 0 of the 8254: a control word for channel 0 in the access mode low byte then high byte
  selects the operating mode and starts the load of a 16-bit divisor, low byte first; a divisor of
  zero stands for 65536. The channel counts at 1193182 Hz.
\<close>

datatype pit_load = Idle | LowByte | HighByte u8

record pit =
  pit_mode :: nat
  pit_divisor :: nat
  pit_load :: pit_load

fun pit_event :: "io_event \<Rightarrow> pit \<Rightarrow> pit" where
  "pit_event (PortOut n port v) p =
     (if n = 8 \<and> port = 0x43 \<and> v div 64 = 0 \<and> v div 16 mod 4 = 3 then
        p\<lparr>pit_mode := v div 2 mod 8, pit_load := LowByte\<rparr>
      else if n = 8 \<and> port = 0x40 then
        (case pit_load p of
           LowByte \<Rightarrow> p\<lparr>pit_load := HighByte (word_of_nat v)\<rparr>
         | HighByte lo \<Rightarrow>
             p\<lparr>pit_divisor := (let d = 256 * v + unat lo in if d = 0 then 65536 else d), pit_load := Idle\<rparr>
         | Idle \<Rightarrow> p)
      else p)"
| "pit_event _ p = p"

definition pit_after :: "io_event list \<Rightarrow> pit \<Rightarrow> pit" where
  "pit_after = fold pit_event"

section \<open>Lemmas\<close>

lemma for_eff_hlt: "for_eff (\<lambda>_. hlt) xs s = Inr ((), emits (replicate (length xs) Halt) s)"
  by (induction xs arbitrary: s) (simp_all add: res_simps)

lemma sleep_run: "sleep n s = Inr ((), emits (replicate (unat n) Halt) s)"
  by (simp add: sleep_def for_eff_hlt)

text \<open>
  \<^verbatim>\<open>pit_init\<close> leaves channel 0 as a rate generator (mode 2) with divisor 1193 whatever it was doing,
  so that the tick rate is 1000 Hz rounded down to a whole number: a tick of \<^verbatim>\<open>sleep\<close> is a
  millisecond. \<^verbatim>\<open>sleep\<close> waits for exactly as many ticks as it is given milliseconds.
\<close>

theorem pit_init_millisecond:
  "\<exists>s'. pit_init s = Inr ((), s') \<and>
     (let p = pit_after (trace s') p0
      in pit_mode p = 2 \<and> pit_load p = Idle \<and> 1193182 div pit_divisor p = 1000) \<and>
     sleep n s' = Inr ((), emits (replicate (unat n) Halt) s')"
  by (simp add: pit_init_def res_simps pit_after_def DIVISOR_def sleep_run Let_def drop_bit_eq_div)

text \<open>The halt loop does not return: no number of unfoldings yields a value.\<close>

lemma hlt_loop_never_returns: "hlt_loop s = None"
proof (rule ccontr)
  assume "hlt_loop s \<noteq> None"
  then obtain r where "hlt_loop s = Some r" by auto
  then show False
    by (rule hlt_loop.raw_induct [where P = "\<lambda>_ _. False", rotated])
       (auto simp: hlt_def split: sum.splits prod.splits)
qed

end
