(* ===== verification/Interrupts.thy ===== *)
theory Interrupts
  imports Console Timer
begin

text \<open>
  The interrupt and exception handlers of \<^verbatim>\<open>src/interrupts/mod.rs\<close>, on the state of the kernel. The
  crates \<^verbatim>\<open>pc_keyboard\<close> and \<^verbatim>\<open>x86_64\<close> are parameters: the decoding of scan codes, the translation of an
  address and the \<^verbatim>\<open>Debug\<close> output of the types of the crate.
\<close>

section \<open>Parameters\<close>

text \<open>A decoded key with the text that \<^verbatim>\<open>{}\<close> and \<^verbatim>\<open>{:?}\<close> print for it.\<close>

datatype DecodedKey = Unicode "u8 list" | RawKey "u8 list"

record ('kb, 'ev) keyboard_crate =
  add_byte :: "u8 \<Rightarrow> 'kb \<Rightarrow> (unit + 'ev option) \<times> 'kb"
  process_keyevent :: "'ev \<Rightarrow> 'kb \<Rightarrow> DecodedKey option \<times> 'kb"

record InterruptStackFrame =
  instruction_pointer :: u64
  code_segment :: u64
  cpu_flags :: u64
  stack_pointer :: u64
  stack_segment :: u64

datatype TranslateResult = Mapped u64 "PageTableFlag set" | NotMapped | InvalidFrameAddress

record 'm fault_crate =
  translate :: "'m \<Rightarrow> u64 \<Rightarrow> TranslateResult"
  VirtAddr_debug :: "u64 \<Rightarrow> u8 list list"
  PageFaultErrorCode_debug :: "u64 \<Rightarrow> u8 list list"
  PageTableFlags_debug :: "PageTableFlag set \<Rightarrow> u8 list list"
  RFlags_debug :: "u64 \<Rightarrow> u8 list list"
  InterruptStackFrame_debug :: "InterruptStackFrame \<Rightarrow> u8 list list"

section \<open>Handlers\<close>

definition breakpoint_handler ::
    "('m, 'sp, 'kb) console_crates \<Rightarrow> 'm fault_crate \<Rightarrow> InterruptStackFrame \<Rightarrow> (('m, 'sp, 'kb) kernel, unit) eff" where
  "breakpoint_handler C F stack_frame =
     println C ([bytes ''EXCEPTION: BREAKPOINT'' @ [10]] @ InterruptStackFrame_debug F stack_frame)"

definition stack_frame_display :: "'m fault_crate \<Rightarrow> InterruptStackFrame \<Rightarrow> u8 list list" where
  "stack_frame_display F frame =
     [bytes ''IP: '', upper_hex (unat (instruction_pointer frame)), [10],
      bytes ''CS: '', upper_hex (unat (code_segment frame)), [10],
      bytes ''SP: '', upper_hex (unat (stack_pointer frame)), [10],
      bytes ''SS: '', upper_hex (unat (stack_segment frame)), [10],
      bytes ''RFLAGS: ''] @ RFlags_debug F (cpu_flags frame)"

text \<open>The message about the translation of the address; the context is looked at only if its lock is free.\<close>

definition translation_message :: "'m fault_crate \<Rightarrow> TranslateResult \<Rightarrow> u8 list list list" where
  "translation_message F r =
     (case r of
        Mapped frame flags \<Rightarrow>
          [[bytes ''FRAME: '', upper_hex (unat frame), bytes '' ''],
           [bytes ''FLAGS: ''] @ PageTableFlags_debug F flags @ [bytes '' '']]
      | NotMapped \<Rightarrow> [[bytes ''NOT MAPPED'']]
      | InvalidFrameAddress \<Rightarrow> [[bytes ''INVALID PAGE TABLE'']])"

definition page_fault_report ::
    "('m, 'sp, 'kb) console_crates \<Rightarrow> 'm fault_crate \<Rightarrow> u64 \<Rightarrow> InterruptStackFrame \<Rightarrow> u64 \<Rightarrow>
     (('m, 'sp, 'kb) kernel, unit) eff" where
  "page_fault_report C F cr2 stack_frame error_code =
     (let addr = cr2
      in seq [println C [bytes ''EXCEPTION: PAGE FAULT''],
              println C ([bytes ''Accessed Address: ''] @ VirtAddr_debug F addr),
              println C ([bytes ''Error Code: ''] @ PageFaultErrorCode_debug F error_code),
              println C (stack_frame_display F stack_frame),
              (\<lambda>s. case paging_ctx s of
                     None \<Rightarrow> Inr ((), s)
                   | Some ctx \<Rightarrow>
                       try_lock PAGING_CTX_lock
                         (seq (map (println C) (translation_message F (translate F (mapper ctx) addr)))) s)])"

text \<open>The handler ends in the halt loop; \<open>None\<close> is not returning.\<close>

definition page_fault_handler ::
    "('m, 'sp, 'kb) console_crates \<Rightarrow> 'm fault_crate \<Rightarrow> u64 \<Rightarrow> InterruptStackFrame \<Rightarrow> u64 \<Rightarrow>
     ('m, 'sp, 'kb) kernel \<Rightarrow> unit res option" where
  "page_fault_handler C F cr2 stack_frame error_code s =
     (case page_fault_report C F cr2 stack_frame error_code s of
        Inl p \<Rightarrow> Some (Inl p)
      | Inr (_, s') \<Rightarrow> map_option Inr (hlt_loop s'))"

definition double_fault_handler ::
    "InterruptStackFrame \<Rightarrow> u64 \<Rightarrow> (('m, 'sp, 'kb) kernel, unit) eff" where
  "double_fault_handler stack_frame error_code = lift_res (Inl (ExplicitPanic ''EXCEPTION: DOUBLE FAULT''))"

definition timer_interrupt_handler :: "(('m, 'sp, 'kb) kernel, unit) eff" where
  "timer_interrupt_handler =
     with_lock PICS_lock (\<lambda>s. notify_end_of_interrupt (PICS s) (InterruptIndex_as_u8 Timer_irq) s)"

definition print_key ::
    "('m, 'sp, 'kb) console_crates \<Rightarrow> ('kb, 'ev) keyboard_crate \<Rightarrow> u8 \<Rightarrow> (('m, 'sp, 'kb) kernel, unit) eff" where
  "print_key C K scancode s =
     (case add_byte K scancode (KEYBOARD s) of
        (Inr (Some key_event), kb) \<Rightarrow>
          (case process_keyevent K key_event kb of
             (Some (Unicode character), kb') \<Rightarrow> vga_print C [character] (s\<lparr>KEYBOARD := kb'\<rparr>)
           | (Some (RawKey key), kb') \<Rightarrow> vga_print C [key] (s\<lparr>KEYBOARD := kb'\<rparr>)
           | (None, kb') \<Rightarrow> Inr ((), s\<lparr>KEYBOARD := kb'\<rparr>))
      | (_, kb) \<Rightarrow> Inr ((), s\<lparr>KEYBOARD := kb\<rparr>))"

definition keyboard_interrupt_handler ::
    "devices \<Rightarrow> ('m, 'sp, 'kb) console_crates \<Rightarrow> ('kb, 'ev) keyboard_crate \<Rightarrow> (('m, 'sp, 'kb) kernel, unit) eff" where
  "keyboard_interrupt_handler D C K =
     with_lock KEYBOARD_lock
       (bnd (read_from_port D 0x60) (\<lambda>scancode.
        bnd (print_key C K scancode) (\<lambda>_.
        with_lock PICS_lock (\<lambda>s. notify_end_of_interrupt (PICS s) (InterruptIndex_as_u8 Keyboard_irq) s))))"

section \<open>Acknowledging\<close>

text \<open>
  What the end of an interrupt writes: one command to the master in the legacy mode for the vectors 32 to
  39, one store to the local APIC after the hand-over.
\<close>

definition end_of_interrupt_event :: "InterruptController \<Rightarrow> io_event" where
  "end_of_interrupt_event c =
     (case c of Pics _ _ \<Rightarrow> PortOut 8 0x20 0x20 | InterruptController.Apic base \<Rightarrow> Store 32 (base + 0xB0) 0)"

definition controller_ok :: "InterruptController \<Rightarrow> bool" where
  "controller_ok c =
     (case c of Pics o1 o2 \<Rightarrow> o1 = PIC_1_OFFSET \<and> o2 = PIC_2_OFFSET
      | InterruptController.Apic base \<Rightarrow> unat base + 0xB0 < 2 ^ 64)"

lemma notify_run:
  assumes "controller_ok c"
  shows "notify_end_of_interrupt c (InterruptIndex_as_u8 i) s = Inr ((), emits [end_of_interrupt_event c] s)"
  using assms
  by (cases c; cases i)
     (simp_all add: controller_ok_def notify_end_of_interrupt_def res_simps pic_range_contains_def checked_add_def
      InterruptIndex_as_u8_def PIC_1_OFFSET_def PIC_2_OFFSET_def end_of_interrupt_event_def pic_consts
      write_apic_reg_def)

lemma with_lock_run:
  assumes "l \<notin> held s" and "f (s\<lparr>held := insert l (held s)\<rparr>) = Inr (r, s')" and "held s' = insert l (held s)"
  shows "with_lock l f s = Inr (r, s'\<lparr>held := held s\<rparr>)"
  using assms by (simp add: with_lock_def)

lemma timer_handler_run:
  assumes "controller_ok (PICS s)"
  shows "timer_interrupt_handler s =
     (if PICS_lock \<in> held s then Inl SpinsForever else Inr ((), emits [end_of_interrupt_event (PICS s)] s))"
proof (cases "PICS_lock \<in> held s")
  case False
  have "notify_end_of_interrupt (PICS s) (InterruptIndex_as_u8 Timer_irq) (s\<lparr>held := insert PICS_lock (held s)\<rparr>) =
      Inr ((), emits [end_of_interrupt_event (PICS s)] (s\<lparr>held := insert PICS_lock (held s)\<rparr>))"
    by (rule notify_run [OF assms])
  with False show ?thesis by (simp add: timer_interrupt_handler_def with_lock_def emits_def)
qed (simp add: timer_interrupt_handler_def with_lock_def)

text \<open>
  A timer tick is acknowledged and has no other effect: with the lock of the controller free, the
  handler issues exactly the end of interrupt of the controller in use and leaves every lock, the
  interrupt flag and the rest of the kernel as they were. If the interrupted code holds the lock the
  handler never returns.
\<close>

theorem timer_handler_acknowledges:
  assumes "controller_ok (PICS s)"
  shows "timer_interrupt_handler s =
     (if PICS_lock \<in> held s then Inl SpinsForever else Inr ((), emits [end_of_interrupt_event (PICS s)] s))"
  using assms by (rule timer_handler_run)

theorem timer_handler_acknowledges_witness:
  "timer_interrupt_handler example_kernel = Inr ((), emits [PortOut 8 0x20 0x20] example_kernel)"
proof -
  have "controller_ok (PICS example_kernel)"
    by (simp add: controller_ok_def example_kernel_def PIC_1_OFFSET_def PIC_2_OFFSET_def)
  from timer_handler_acknowledges [OF this] show ?thesis
    by (simp add: example_kernel_def end_of_interrupt_event_def)
qed

section \<open>The keyboard\<close>

text \<open>The text a scan code prints, and the state of the decoder after it.\<close>

definition key_text :: "('kb, 'ev) keyboard_crate \<Rightarrow> u8 \<Rightarrow> 'kb \<Rightarrow> u8 list \<times> 'kb" where
  "key_text K scancode kb =
     (case add_byte K scancode kb of
        (Inr (Some ev), kb') \<Rightarrow>
          (case process_keyevent K ev kb' of
             (Some (Unicode c), kb'') \<Rightarrow> (c, kb'') | (Some (RawKey k), kb'') \<Rightarrow> (k, kb'') | (None, kb'') \<Rightarrow> ([], kb''))
      | (_, kb') \<Rightarrow> ([], kb'))"

lemma print_key_shows:
  assumes "interrupts_off (without_interrupts C)" and "WRITER_lock \<notin> held s" and "shows_text upper old (WRITER s) t"
  shows "\<exists>w'. print_key C K scancode s = Inr ((), s\<lparr>KEYBOARD := snd (key_text K scancode (KEYBOARD s)), WRITER := w'\<rparr>) \<and>
     shows_text upper old w' (t @ map printable (fst (key_text K scancode (KEYBOARD s))))"
proof -
  have P: "\<exists>w'. vga_print C [cs] (s\<lparr>KEYBOARD := kb\<rparr>) = Inr ((), s\<lparr>KEYBOARD := kb, WRITER := w'\<rparr>) \<and>
      shows_text upper old w' (t @ map printable cs)" for cs kb
    using vga_print_run [OF assms(1), of "s\<lparr>KEYBOARD := kb\<rparr>" upper old t "[cs]"] assms(2,3) by simp
  have S: "\<exists>w'. (Inr ((), s\<lparr>KEYBOARD := kb\<rparr>) :: (unit \<times> _) res) = Inr ((), s\<lparr>KEYBOARD := kb, WRITER := w'\<rparr>) \<and>
      shows_text upper old w' (t @ map printable [])" for kb
    using assms(3) by (intro exI [of _ "WRITER s"]) simp
  show ?thesis
    using P S
    by (simp add: print_key_def key_text_def split: prod.splits sum.splits option.splits DecodedKey.splits)
qed

lemma keyboard_handler_run:
  assumes "interrupts_off (without_interrupts C)" and "controller_ok (PICS s)"
    and "held s \<inter> {KEYBOARD_lock, WRITER_lock, PICS_lock} = {}" and "shows_text upper old (WRITER s) t"
  shows "\<exists>w'. keyboard_interrupt_handler D C K s =
     (let scancode = word_of_nat (port_answer D (trace s) 8 0x60) :: u8
      in Inr ((), (emits [PortIn 8 0x60 (unat scancode), end_of_interrupt_event (PICS s)] s)
           \<lparr>KEYBOARD := snd (key_text K scancode (KEYBOARD s)), WRITER := w'\<rparr>)) \<and>
     shows_text upper old w'
       (t @ map printable (fst (key_text K (word_of_nat (port_answer D (trace s) 8 0x60)) (KEYBOARD s))))"
proof -
  let ?sc = "word_of_nat (port_answer D (trace s) 8 0x60) :: u8"
  let ?s = "emits [PortIn 8 0x60 (unat ?sc)] (s\<lparr>held := insert KEYBOARD_lock (held s)\<rparr>)"
  have "WRITER_lock \<notin> held ?s" "shows_text upper old (WRITER ?s) t" using assms(3,4) by (auto simp: emits_def)
  from print_key_shows [OF assms(1) this, of K ?sc]
  obtain w' where w': "print_key C K ?sc ?s = Inr ((), ?s\<lparr>KEYBOARD := snd (key_text K ?sc (KEYBOARD s)), WRITER := w'\<rparr>)"
    "shows_text upper old w' (t @ map printable (fst (key_text K ?sc (KEYBOARD s))))" by (auto simp: emits_def)
  let ?s' = "?s\<lparr>KEYBOARD := snd (key_text K ?sc (KEYBOARD s)), WRITER := w', held := insert PICS_lock (held ?s)\<rparr>"
  have "notify_end_of_interrupt (PICS s) (InterruptIndex_as_u8 Keyboard_irq) ?s' =
      Inr ((), emits [end_of_interrupt_event (PICS s)] ?s')" by (rule notify_run [OF assms(2)])
  with w' assms(3) show ?thesis
    by (intro exI [of _ w'])
       (auto simp: keyboard_interrupt_handler_def with_lock_def bnd_run read_runs Let_def emits_def insert_Diff_if)
qed

text \<open>
  C21. A key press is read, shown and acknowledged: with its locks free the keyboard handler reads exactly
  one scan code, appends the text of the decoded key to what the screen shows (nothing for a scan code
  that completes no key), issues one end of interrupt, and leaves the locks, the interrupt flag and the
  rest of the kernel unchanged.
\<close>

theorem keyboard_handler_effect:
  assumes "interrupts_off (without_interrupts C)" and "controller_ok (PICS s)"
    and "held s \<inter> {KEYBOARD_lock, WRITER_lock, PICS_lock} = {}" and "shows_text upper old (WRITER s) t"
  shows "\<exists>w'. keyboard_interrupt_handler D C K s =
     (let scancode = word_of_nat (port_answer D (trace s) 8 0x60) :: u8
      in Inr ((), (emits [PortIn 8 0x60 (unat scancode), end_of_interrupt_event (PICS s)] s)
           \<lparr>KEYBOARD := snd (key_text K scancode (KEYBOARD s)), WRITER := w'\<rparr>)) \<and>
     shows_text upper old w'
       (t @ map printable (fst (key_text K (word_of_nat (port_answer D (trace s) 8 0x60)) (KEYBOARD s))))"
  using assms by (rule keyboard_handler_run)

definition example_keyboard :: "(unit, u8) keyboard_crate" where
  "example_keyboard =
     \<lparr>add_byte = (\<lambda>b kb. (if b < 0x80 then Inr (Some b) else Inr None, kb)),
      process_keyevent = (\<lambda>ev kb. (Some (Unicode [ev + 0x43]), kb))\<rparr>"

theorem keyboard_handler_effect_witness:
  "\<exists>w'. keyboard_interrupt_handler \<lparr>port_answer = (\<lambda>_ _ _. 0x1E), load_answer = (\<lambda>_ _ _. 0)\<rparr> example_console
       example_keyboard example_kernel =
     Inr ((), (emits [PortIn 8 0x60 0x1E, PortOut 8 0x20 0x20] example_kernel)\<lparr>KEYBOARD := (), WRITER := w'\<rparr>) \<and>
     column_position w' = 1"
proof -
  let ?D = "\<lparr>port_answer = (\<lambda>_ _ _. 0x1E), load_answer = (\<lambda>_ _ _. 0)\<rparr> :: devices"
  have ok: "controller_ok (PICS example_kernel)" "held example_kernel \<inter> {KEYBOARD_lock, WRITER_lock, PICS_lock} = {}"
    by (simp_all add: controller_ok_def example_kernel_def PIC_1_OFFSET_def PIC_2_OFFSET_def)
  have rows: "text_rows ([] @ map printable [0x61]) = [[0x61]]"
    by (simp add: printable_def text_rows_def line_rows.simps)
  have key: "key_text example_keyboard (word_of_nat (port_answer ?D (trace example_kernel) 8 0x60)) (KEYBOARD example_kernel) = ([0x61], ())"
    by (simp add: key_text_def example_keyboard_def)
  show ?thesis
    using keyboard_handler_effect [OF example_console_ok(1) ok example_kernel_shows, of ?D example_keyboard]
    unfolding key fst_conv shows_text_def rows
    by (auto simp: shows_rows_def word_unat_eq_iff end_of_interrupt_event_def example_kernel_def Let_def)
qed

section \<open>Page faults\<close>

text \<open>An operation whose only effect, from the states that differ from \<open>s\<close> in the screen, is to print \<open>cs\<close>.\<close>

definition prints :: "('m, 'sp, 'kb) kernel \<Rightarrow> u8 list \<Rightarrow> (('m, 'sp, 'kb) kernel, unit) eff \<Rightarrow> bool" where
  "prints s cs f \<longleftrightarrow>
     (\<forall>w upper old t. shows_text upper old w t \<longrightarrow>
        (\<exists>w'. f (s\<lparr>WRITER := w\<rparr>) = Inr ((), s\<lparr>WRITER := w'\<rparr>) \<and> shows_text upper old w' (t @ map printable cs)))"

lemma prints_Nil: "prints s [] (ret ())"
  by (auto simp: prints_def)

lemma prints_bnd:
  assumes "prints s cs f" and "prints s ds g"
  shows "prints s (cs @ ds) (bnd f (\<lambda>_. g))"
  unfolding prints_def
proof (intro allI impI)
  fix w upper old t assume "shows_text upper old w t"
  then obtain w1 where 1: "f (s\<lparr>WRITER := w\<rparr>) = Inr ((), s\<lparr>WRITER := w1\<rparr>)" "shows_text upper old w1 (t @ map printable cs)"
    using assms(1) unfolding prints_def by blast
  then obtain w2 where "g (s\<lparr>WRITER := w1\<rparr>) = Inr ((), s\<lparr>WRITER := w2\<rparr>)"
    "shows_text upper old w2 ((t @ map printable cs) @ map printable ds)"
    using assms(2) unfolding prints_def by blast
  with 1 show "\<exists>w'. bnd f (\<lambda>_. g) (s\<lparr>WRITER := w\<rparr>) = Inr ((), s\<lparr>WRITER := w'\<rparr>) \<and>
      shows_text upper old w' (t @ map printable (cs @ ds))" by (auto simp: bnd_run)
qed

lemma prints_seq: "list_all2 (prints s) css fs \<Longrightarrow> prints s (concat css) (seq fs)"
  by (induction rule: list_all2_induct) (simp_all add: prints_Nil prints_Nil [unfolded ret_def] prints_bnd)

lemma prints_println:
  assumes "interrupts_off (without_interrupts C)" and "WRITER_lock \<notin> held s"
  shows "prints s (concat strings @ [10]) (println C strings)"
  using vga_print_run [OF assms(1), of "s\<lparr>WRITER := w\<rparr>" for w, where strings = "strings @ [bytes [CHR 10]]"] assms(2)
  by (simp add: prints_def println_def bytes_def)

lemma prints_try_lock:
  assumes "l \<notin> held s" and "prints (s\<lparr>held := insert l (held s)\<rparr>) cs f"
  shows "prints s cs (try_lock l f)"
  unfolding prints_def
proof (intro allI impI)
  fix w upper old t assume "shows_text upper old w t"
  then obtain w' where "f (s\<lparr>held := insert l (held s), WRITER := w\<rparr>) = Inr ((), s\<lparr>held := insert l (held s), WRITER := w'\<rparr>)"
    "shows_text upper old w' (t @ map printable cs)" using assms(2) unfolding prints_def by blast
  moreover have "f (s\<lparr>WRITER := w, held := H\<rparr>) = f (s\<lparr>held := H, WRITER := w\<rparr>)" for H
    by (rule arg_cong [of _ _ f]) simp
  ultimately show "\<exists>w'. try_lock l f (s\<lparr>WRITER := w\<rparr>) = Inr ((), s\<lparr>WRITER := w'\<rparr>) \<and> shows_text upper old w' (t @ map printable cs)"
    using assms(1) by (intro exI [of _ w']) (simp add: try_lock_def with_lock_def insert_Diff_if)
qed

text \<open>The report about a page fault.\<close>

definition fault_text :: "'m fault_crate \<Rightarrow> u64 \<Rightarrow> InterruptStackFrame \<Rightarrow> u64 \<Rightarrow> TranslateResult option \<Rightarrow> u8 list" where
  "fault_text F cr2 stack_frame error_code tr =
     concat (map (\<lambda>l. concat l @ [10])
       ([[bytes ''EXCEPTION: PAGE FAULT''], [bytes ''Accessed Address: ''] @ VirtAddr_debug F cr2,
         [bytes ''Error Code: ''] @ PageFaultErrorCode_debug F error_code, stack_frame_display F stack_frame] @
        (case tr of None \<Rightarrow> [] | Some r \<Rightarrow> translation_message F r)))"

definition fault_translation :: "'m fault_crate \<Rightarrow> u64 \<Rightarrow> ('m, 'sp, 'kb) kernel \<Rightarrow> TranslateResult option" where
  "fault_translation F cr2 s =
     (if PAGING_CTX_lock \<in> held s then None else map_option (\<lambda>c. translate F (mapper c) cr2) (paging_ctx s))"

lemma prints_lookup:
  assumes C: "interrupts_off (without_interrupts C)" and free: "WRITER_lock \<notin> held s"
  shows "prints s (concat (map (\<lambda>l. concat l @ [10])
      (case fault_translation F addr s of None \<Rightarrow> [] | Some r \<Rightarrow> translation_message F r)))
     (\<lambda>s. case paging_ctx s of
            None \<Rightarrow> Inr ((), s)
          | Some ctx \<Rightarrow> try_lock PAGING_CTX_lock
              (seq (map (println C) (translation_message F (translate F (mapper ctx) addr)))) s)"
    (is "prints s ?cs ?f")
proof (cases "paging_ctx s = None \<or> PAGING_CTX_lock \<in> held s")
  case True
  then show ?thesis by (auto simp: prints_def fault_translation_def try_lock_def split: option.splits)
next
  case False
  then obtain ctx where ctx: "paging_ctx s = Some ctx" and lock: "PAGING_CTX_lock \<notin> held s" by auto
  let ?ls = "translation_message F (translate F (mapper ctx) addr)"
  have "prints (s\<lparr>held := insert PAGING_CTX_lock (held s)\<rparr>) (concat (map (\<lambda>l. concat l @ [10]) ?ls)) (seq (map (println C) ?ls))"
    using free by (intro prints_seq) (auto simp: list_all2_conv_all_nth intro!: prints_println [OF C])
  from prints_try_lock [OF lock this] show ?thesis
    using ctx lock by (simp add: prints_def fault_translation_def)
qed

text \<open>
  C22. A page fault is reported in full and stops the kernel: with the screen free the handler shows the
  address, the error code, the stack frame and the translation of the address, the translation only if
  the lock of the paging context is free, so that a fault inside the memory code is still reported; then
  it never returns. A fault while the screen is locked is never reported.
\<close>

theorem page_fault_reported:
  assumes "interrupts_off (without_interrupts C)"
  shows "if WRITER_lock \<in> held s
    then page_fault_handler C F cr2 stack_frame error_code s = Some (Inl SpinsForever)
    else \<forall>upper old t. shows_text upper old (WRITER s) t \<longrightarrow>
      page_fault_handler C F cr2 stack_frame error_code s = None \<and>
      (\<exists>w'. page_fault_report C F cr2 stack_frame error_code s = Inr ((), s\<lparr>WRITER := w'\<rparr>) \<and>
         shows_text upper old w'
           (t @ map printable (fault_text F cr2 stack_frame error_code (fault_translation F cr2 s))))"
proof (cases "WRITER_lock \<in> held s")
  case True
  then show ?thesis using assms
    by (simp add: page_fault_handler_def page_fault_report_def bnd_run println_def vga_print_def interrupts_off_def with_lock_def)
next
  case False
  note P = prints_println [OF assms False]
  have "prints s (fault_text F cr2 stack_frame error_code (fault_translation F cr2 s))
      (page_fault_report C F cr2 stack_frame error_code)"
    using prints_bnd [OF P prints_bnd [OF P prints_bnd [OF P prints_bnd [OF P prints_bnd
      [OF prints_lookup [OF assms False, of F cr2] prints_Nil]]]], of
      "[bytes ''EXCEPTION: PAGE FAULT'']" "[bytes ''Accessed Address: ''] @ VirtAddr_debug F cr2"
      "[bytes ''Error Code: ''] @ PageFaultErrorCode_debug F error_code" "stack_frame_display F stack_frame"]
    by (simp add: page_fault_report_def fault_text_def)
  then have "\<exists>w'. page_fault_report C F cr2 stack_frame error_code s = Inr ((), s\<lparr>WRITER := w'\<rparr>) \<and>
      shows_text upper old w' (t @ map printable (fault_text F cr2 stack_frame error_code (fault_translation F cr2 s)))"
    if "shows_text upper old (WRITER s) t" for upper old t using that unfolding prints_def by fastforce
  then show ?thesis using False by (fastforce simp: page_fault_handler_def hlt_loop_never_returns)
qed

definition example_fault :: "translation fault_crate" where
  "example_fault =
     \<lparr>translate = (\<lambda>m a. case m a of None \<Rightarrow> NotMapped | Some (f, flags) \<Rightarrow> Mapped f flags),
      VirtAddr_debug = (\<lambda>a. [upper_hex (unat a)]), PageFaultErrorCode_debug = (\<lambda>c. [decimal (unat c)]),
      PageTableFlags_debug = (\<lambda>_. []), RFlags_debug = (\<lambda>f. [upper_hex (unat f)]),
      InterruptStackFrame_debug = (\<lambda>_. [])\<rparr>"

theorem page_fault_reported_witness:
  "page_fault_handler example_console example_fault 0x1234
     \<lparr>instruction_pointer = 1, code_segment = 8, cpu_flags = 2, stack_pointer = 3, stack_segment = 0\<rparr> 2 example_kernel = None"
proof -
  have "WRITER_lock \<notin> held example_kernel" by (simp add: example_kernel_def)
  then show ?thesis
    using page_fault_reported [OF example_console_ok(1), of example_kernel] example_kernel_shows by auto
qed

end
