(* ===== verification/Locking.thy ===== *)
theory Locking
  imports Interrupts
begin

text \<open>
  Locks and interrupts: the timer and the keyboard interrupt the kernel between any two instructions
  while interrupts are enabled, and their handlers wait for spin locks. The code of an operation is
  reduced to what matters here, the order in which it takes and releases locks and switches
  interrupts; the processor is a step relation that runs this code and delivers interrupts at any
  point at which they are enabled. The theorem is that no interleaving blocks.
\<close>

section \<open>Lock scripts\<close>

datatype act = Acquire lock | Release lock | Off | Restore | On

text \<open>
  \<open>Off\<close> and \<open>Restore\<close> are the two ends of \<^verbatim>\<open>without_interrupts\<close>: the flag is saved and cleared, and enabled
  again if it was set. \<open>On\<close> is \<^verbatim>\<open>interrupts::enable\<close>.
\<close>

type_synonym script = "act list"

definition vga_print_script :: script where
  "vga_print_script = [Off, Acquire WRITER_lock, Release WRITER_lock, Restore]"

definition serial_print_script :: script where
  "serial_print_script = [Off, Acquire SERIAL1_lock, Release SERIAL1_lock, Restore]"

definition paging_script :: script where
  "paging_script = [Acquire PAGING_CTX_lock, Release PAGING_CTX_lock]"

definition alloc_script :: script where
  "alloc_script = [Acquire ALLOCATOR_lock, Release ALLOCATOR_lock]"

text \<open>\<^verbatim>\<open>LockedHandler::map\<close> and \<^verbatim>\<open>unmap\<close>: the map of users and the page tables change under the handler's lock.\<close>

definition handler_script :: script where
  "handler_script = [Acquire HANDLER_lock] @ paging_script @ alloc_script @ [Release HANDLER_lock]"

text \<open>
  \<^verbatim>\<open>apic_init\<close>: all of it without interrupts: the AML method, the mapping of the local APIC, the hand-over
  under the lock of the controller, and the mapping of the I/O APICs.
\<close>

definition apic_init_script :: script where
  "apic_init_script =
     [Off] @ handler_script @ paging_script @ [Acquire PICS_lock, Release PICS_lock] @ alloc_script @
     paging_script @ [Restore]"

definition kernel_scripts :: "script list" where
  "kernel_scripts =
     [vga_print_script, serial_print_script, paging_script, alloc_script, handler_script, apic_init_script]"

text \<open>The start: a greeting, the initialisation of the controller, and only then interrupts.\<close>

definition boot_script :: script where
  "boot_script = vga_print_script @ [Acquire PICS_lock, Release PICS_lock, On]"

definition timer_script :: script where
  "timer_script = [Acquire PICS_lock, Release PICS_lock]"

text \<open>The keyboard handler with \<open>True\<close> for a scan code that completes a key.\<close>

definition keyboard_script :: "bool \<Rightarrow> script" where
  "keyboard_script key =
     [Acquire KEYBOARD_lock] @ (if key then vga_print_script else []) @
     [Acquire PICS_lock, Release PICS_lock, Release KEYBOARD_lock]"

definition irq_scripts :: "script list" where
  "irq_scripts = [timer_script, keyboard_script False, keyboard_script True]"

section \<open>The processor\<close>

text \<open>
  A configuration: the interrupt flag, the locks that are held, and the stack of running code, each
  with what is left of its script and the flags it saved.
\<close>

type_synonym config = "bool \<times> lock set \<times> (script \<times> bool list) list"

inductive exec :: "config \<Rightarrow> config \<Rightarrow> bool" where
  acquire: "l \<notin> L \<Longrightarrow> exec (b, L, (Acquire l # k, sv) # st) (b, insert l L, (k, sv) # st)"
| release: "exec (b, L, (Release l # k, sv) # st) (b, L - {l}, (k, sv) # st)"
| off: "exec (b, L, (Off # k, sv) # st) (False, L, (k, b # sv) # st)"
| restore: "exec (b, L, (Restore # k, v # sv) # st) (v \<or> b, L, (k, sv) # st)"
| on: "exec (b, L, (On # k, sv) # st) (True, L, (k, sv) # st)"
| iret: "exec (b, L, ([], sv) # t # st) (True, L, t # st)"

inductive interrupt :: "config \<Rightarrow> config \<Rightarrow> bool" where
  deliver: "h \<in> set irq_scripts \<Longrightarrow> interrupt (True, L, st) (False, L, (h, []) # st)"

inductive reach :: "script \<Rightarrow> config \<Rightarrow> bool" for main where
  start: "reach main (False, {}, [(main, [])])"
| run: "reach main c \<Longrightarrow> exec c c' \<Longrightarrow> reach main c'"
| irq: "reach main c \<Longrightarrow> interrupt c c' \<Longrightarrow> reach main c'"

inductive_cases exec_cases: "exec (b, L, (a # k, sv) # st) c"
inductive_cases exec_iret_cases: "exec (b, L, ([], sv) # st) c"
inductive_cases interrupt_cases: "interrupt (b, L, st) c"

code_pred interrupt .

definition finished :: "config \<Rightarrow> bool" where
  "finished c = (case c of (b, L, st) \<Rightarrow> length st = 1 \<and> fst (hd st) = [])"

section \<open>The discipline\<close>

text \<open>
  The locks that interrupt handlers take, and a check of a script on its own: it takes no lock twice,
  takes and keeps a lock of the handlers only while interrupts are disabled, and pairs \<open>Off\<close> and
  \<open>Restore\<close>.
\<close>

definition irq_locks :: "lock set" where
  "irq_locks = {KEYBOARD_lock, WRITER_lock, PICS_lock}"

type_synonym static_state = "bool \<times> bool list \<times> lock set"

fun static_step :: "act \<Rightarrow> static_state \<Rightarrow> static_state option" where
  "static_step (Acquire l) (b, sv, own) =
     (if l \<in> own \<or> b \<and> l \<in> irq_locks then None else Some (b, sv, insert l own))"
| "static_step (Release l) (b, sv, own) = (if l \<in> own then Some (b, sv, own - {l}) else None)"
| "static_step Off (b, sv, own) = Some (False, b # sv, own)"
| "static_step Restore (b, [], own) = None"
| "static_step Restore (b, v # sv, own) =
     (if (v \<or> b) \<and> own \<inter> irq_locks \<noteq> {} then None else Some (v \<or> b, sv, own))"
| "static_step On (b, sv, own) = (if own \<inter> irq_locks \<noteq> {} then None else Some (True, sv, own))"

primrec static_run :: "script \<Rightarrow> static_state \<Rightarrow> static_state option" where
  "static_run [] x = Some x"
| "static_run (a # k) x = (case static_step a x of None \<Rightarrow> None | Some y \<Rightarrow> static_run k y)"

lemma static_run_append:
  "static_run (k @ k') x = (case static_run k x of None \<Rightarrow> None | Some y \<Rightarrow> static_run k' y)"
  by (induction k arbitrary: x) (auto split: option.splits)

lemmas script_defs = vga_print_script_def serial_print_script_def paging_script_def alloc_script_def
  handler_script_def apic_init_script_def timer_script_def keyboard_script_def irq_locks_def

lemma kernel_scripts_disciplined:
  "k \<in> set kernel_scripts \<Longrightarrow> static_run k (True, [], {}) = Some (True, [], {})"
  by (auto simp: kernel_scripts_def script_defs)

lemma boot_script_disciplined: "static_run boot_script (False, [], {}) = Some (True, [], {})"
  by (simp add: boot_script_def script_defs)

lemma irq_scripts_disciplined:
  assumes "k \<in> set irq_scripts"
  shows "static_run k (False, [], {}) = Some (False, [], {})"
    and "set k \<subseteq> Acquire ` irq_locks \<union> Release ` irq_locks \<union> {Off, Restore}"
  using assms by (auto simp: irq_scripts_def script_defs split: if_splits)

lemma main_disciplined:
  assumes "set ops \<subseteq> set kernel_scripts"
  shows "static_run (boot_script @ concat ops) (False, [], {}) = Some (True, [], {})"
proof -
  have "static_run (concat ops) (True, [], {}) = Some (True, [], {})"
    using assms by (induction ops) (auto simp: static_run_append kernel_scripts_disciplined)
  then show ?thesis by (simp add: static_run_append boot_script_disciplined)
qed

section \<open>The invariant\<close>

text \<open>
  Either the kernel itself runs, with exactly the locks of its own, and if interrupts are enabled none
  of the handlers' locks among them; or one handler runs on top of it, with interrupts disabled and
  locks of the handlers only.
\<close>

definition main_ok :: "bool \<Rightarrow> lock set \<Rightarrow> script \<times> bool list \<Rightarrow> bool" where
  "main_ok b own t \<longleftrightarrow> static_run (fst t) (b, snd t, own) \<noteq> None \<and> (b \<longrightarrow> own \<inter> irq_locks = {})"

definition irq_ok :: "lock set \<Rightarrow> script \<times> bool list \<Rightarrow> bool" where
  "irq_ok own t \<longleftrightarrow>
     static_run (fst t) (False, snd t, own) = Some (False, [], {}) \<and> own \<subseteq> irq_locks \<and> True \<notin> set (snd t) \<and>
     set (fst t) \<subseteq> Acquire ` irq_locks \<union> Release ` irq_locks \<union> {Off, Restore}"

inductive config_ok :: "config \<Rightarrow> bool" where
  main: "main_ok b L t \<Longrightarrow> config_ok (b, L, [t])"
| handler: "irq_ok own h \<Longrightarrow> main_ok True own' t \<Longrightarrow> config_ok (False, own \<union> own', [h, t])"

inductive_cases config_ok_cases: "config_ok (b, L, st)"

lemma main_ok_step:
  assumes "main_ok b L (a # k, sv)"
  shows "\<exists>b' L' sv'. exec (b, L, [(a # k, sv)]) (b', L', [(k, sv')]) \<and> main_ok b' L' (k, sv') \<and>
     (\<forall>c. exec (b, L, [(a # k, sv)]) c \<longrightarrow> c = (b', L', [(k, sv')]))"
proof -
  obtain b' sv' L' where step: "static_step a (b, sv, L) = Some (b', sv', L')" "static_run k (b', sv', L') \<noteq> None"
    using assms by (auto simp: main_ok_def split: option.splits)
  have ok: "main_ok b' L' (k, sv')"
    using assms step by (cases "(a, (b, sv, L))" rule: static_step.cases) (auto simp: main_ok_def split: if_splits)
  have "exec (b, L, [(a # k, sv)]) (b', L', [(k, sv')])"
    using step by (cases "(a, (b, sv, L))" rule: static_step.cases) (auto intro: exec.intros split: if_splits)
  moreover have "c = (b', L', [(k, sv')])" if "exec (b, L, [(a # k, sv)]) c" for c
    using that step by (cases "(a, (b, sv, L))" rule: static_step.cases) (auto elim!: exec_cases split: if_splits)
  ultimately show ?thesis using ok by blast
qed

lemma irq_ok_step:
  assumes "irq_ok own (a # k, sv)" and "main_ok True own' t"
  shows "\<exists>own'' sv'. exec (False, own \<union> own', [(a # k, sv), t]) (False, own'' \<union> own', [(k, sv'), t]) \<and>
     irq_ok own'' (k, sv') \<and>
     (\<forall>c. exec (False, own \<union> own', [(a # k, sv), t]) c \<longrightarrow> c = (False, own'' \<union> own', [(k, sv'), t]))"
proof -
  have disj: "own' \<inter> irq_locks = {}" using assms(2) by (simp add: main_ok_def)
  obtain b' sv' own'' where step: "static_step a (False, sv, own) = Some (b', sv', own'')"
      "static_run k (b', sv', own'') = Some (False, [], {})"
    using assms(1) by (auto simp: irq_ok_def split: option.splits)
  have act: "a \<in> Acquire ` irq_locks \<union> Release ` irq_locks \<union> {Off, Restore}" and sv: "True \<notin> set sv"
    using assms(1) by (auto simp: irq_ok_def)
  have b': "\<not> b'" using step act sv by (cases "(a, (False, sv, own))" rule: static_step.cases) (auto split: if_splits)
  have ok: "irq_ok own'' (k, sv')"
    using assms(1) step act b' by (cases "(a, (False, sv, own))" rule: static_step.cases) (auto simp: irq_ok_def split: if_splits)
  have L: "static_step a (False, sv, own) = Some (b', sv', own'') \<Longrightarrow> own - {l} \<union> own' = own \<union> own' - {l}" if "a = Release l" for l
    using act disj that by auto
  have free: "l \<notin> own'" if "l \<in> irq_locks" for l using disj that by auto
  have "exec (False, own \<union> own', [(a # k, sv), t]) (False, own'' \<union> own', [(k, sv'), t])"
    using step act disj sv L b' exec.restore [of False "own \<union> own'" k False sv' "[t]"]
      exec.acquire [of _ "own \<union> own'" False k sv' "[t]"]
    by (cases "(a, (False, sv, own))" rule: static_step.cases) (auto intro: exec.intros simp: free split: if_splits)
  moreover have "c = (False, own'' \<union> own', [(k, sv'), t])" if "exec (False, own \<union> own', [(a # k, sv), t]) c" for c
    using that step act disj sv L b'
    by (cases "(a, (False, sv, own))" rule: static_step.cases) (auto elim!: exec_cases split: if_splits)
  ultimately show ?thesis using ok by blast
qed

lemma config_ok_exec:
  assumes "config_ok c" and "exec c c'"
  shows "config_ok c'"
  using assms
proof (induction c rule: config_ok.induct)
  case (main b L t)
  obtain k sv where t: "t = (k, sv)" by (cases t)
  show ?case
  proof (cases k)
    case Nil
    then show ?thesis using main t by (auto elim: exec_iret_cases)
  next
    case (Cons a k')
    obtain b' L' sv' where "exec (b, L, [(a # k', sv)]) (b', L', [(k', sv')])" and ok: "main_ok b' L' (k', sv')"
      and det: "\<And>c. exec (b, L, [(a # k', sv)]) c \<Longrightarrow> c = (b', L', [(k', sv')])"
      using main_ok_step [OF main(1) [unfolded t Cons]] by blast
    show ?thesis unfolding det [OF main(2) [unfolded t Cons]] using ok by (rule config_ok.main)
  qed
next
  case (handler own h own' t)
  obtain k sv where h: "h = (k, sv)" by (cases h)
  show ?case
  proof (cases k)
    case Nil
    then show ?thesis using handler h by (auto elim!: exec_iret_cases simp: irq_ok_def intro: config_ok.main)
  next
    case (Cons a k')
    obtain own'' sv' where "exec (False, own \<union> own', [(a # k', sv), t]) (False, own'' \<union> own', [(k', sv'), t])"
      and ok: "irq_ok own'' (k', sv')"
      and det: "\<And>c. exec (False, own \<union> own', [(a # k', sv), t]) c \<Longrightarrow> c = (False, own'' \<union> own', [(k', sv'), t])"
      using irq_ok_step [OF handler(1) [unfolded h Cons] handler(2)] by blast
    show ?thesis unfolding det [OF handler(3) [unfolded h Cons]] using ok handler(2) by (rule config_ok.handler)
  qed
qed

lemma config_ok_interrupt: "config_ok c \<Longrightarrow> interrupt c c' \<Longrightarrow> config_ok c'"
proof (induction c rule: config_ok.induct)
  case (main b L t)
  then obtain h where h: "b" "h \<in> set irq_scripts" "c' = (False, {} \<union> L, [(h, []), t])" by (auto elim: interrupt_cases)
  moreover have "irq_ok {} (h, [])" using irq_scripts_disciplined [OF h(2)] by (simp add: irq_ok_def)
  ultimately show ?case using main(1) config_ok.handler [of "{}" "(h, [])" L t] by simp
qed (auto elim: interrupt_cases)

lemma reach_ok:
  assumes "set ops \<subseteq> set kernel_scripts" and "reach (boot_script @ concat ops) c"
  shows "config_ok c"
  using assms(2)
proof (induction rule: reach.induct)
  case start
  then show ?case using main_disciplined [OF assms(1)] by (intro config_ok.main) (simp add: main_ok_def)
qed (auto intro: config_ok_exec config_ok_interrupt)

definition remaining :: "config \<Rightarrow> nat" where
  "remaining c = sum_list (map (\<lambda>t. Suc (length (fst t))) (snd (snd c)))"

lemma config_ok_progress:
  assumes "config_ok c" and "\<not> finished c"
  obtains c' where "exec c c'" and "remaining c' < remaining c"
  using assms(1)
proof cases
  case (main b L t)
  obtain a k sv where t: "t = (a # k, sv)"
    using assms(2) main(1) by (cases t; cases "fst t") (auto simp: finished_def)
  obtain b' L' sv' where "exec (b, L, [(a # k, sv)]) (b', L', [(k, sv')])" using main_ok_step [OF main(2) [unfolded t]] by blast
  then show ?thesis using main(1) t by (intro that) (auto simp: remaining_def)
next
  case (handler own h own' t)
  obtain k sv where h: "h = (k, sv)" by (cases h)
  show ?thesis
  proof (cases k)
    case Nil
    have "exec c (True, own \<union> own', [t])" unfolding handler(1) h Nil by (rule exec.iret)
    then show ?thesis using handler(1) h by (intro that) (auto simp: remaining_def)
  next
    case (Cons a k')
    obtain own'' sv' where
      "exec (False, own \<union> own', [(a # k', sv), t]) (False, own'' \<union> own', [(k', sv'), t])"
      using irq_ok_step [OF handler(2) [unfolded h Cons] handler(3)] by blast
    then show ?thesis using handler(1) h Cons by (intro that) (auto simp: remaining_def)
  qed
qed

lemma config_ok_finishes:
  assumes "config_ok c"
  shows "\<exists>c'. exec\<^sup>*\<^sup>* c c' \<and> finished c'"
  using assms
proof (induction "remaining c" arbitrary: c rule: less_induct)
  case less
  show ?case
  proof (cases "finished c")
    case False
    then obtain c1 where "exec c c1" "remaining c1 < remaining c" using config_ok_progress [OF less.prems] by blast
    with less config_ok_exec show ?thesis by (meson converse_rtranclp_into_rtranclp)
  qed blast
qed

section \<open>No interleaving blocks\<close>

text \<open>
  C7. Interrupts never deadlock the kernel: whatever sequence of its operations the kernel runs after
  booting and at whatever points the timer and the keyboard interrupt it, the running code is never
  blocked on a lock: from every reachable configuration it can run to the end of the handler and of
  the sequence. At most one handler is active at any time, and interrupts stay disabled while it is.
\<close>

theorem interrupts_never_deadlock:
  assumes "set ops \<subseteq> set kernel_scripts" and "reach (boot_script @ concat ops) c"
  shows "(\<exists>c'. exec\<^sup>*\<^sup>* c c' \<and> finished c') \<and>
     (finished c \<or> (\<exists>c'. exec c c')) \<and>
     (case c of (b, L, st) \<Rightarrow> length st = 1 \<or> length st = 2 \<and> b = False)"
proof -
  note ok = reach_ok [OF assms]
  have "case c of (b, L, st) \<Rightarrow> length st = 1 \<or> length st = 2 \<and> b = False" using ok by cases auto
  then show ?thesis using config_ok_finishes [OF ok] config_ok_progress [OF ok] by blast
qed

text \<open>The keyboard interrupts the boot code right after interrupts are enabled.\<close>

lemma boot_run: "reach (boot_script @ concat ops) (True, {}, [(concat ops, [])])"
proof -
  let ?k = "concat ops"
  have "reach (boot_script @ ?k) (False, {}, [(boot_script @ ?k, [])])" by (rule reach.start)
  then have "reach (boot_script @ ?k) (False, {}, [([Acquire WRITER_lock, Release WRITER_lock, Restore, Acquire PICS_lock, Release PICS_lock, On] @ ?k, [False])])"
    by (rule reach.run) (simp add: boot_script_def vga_print_script_def exec.off)
  then have "reach (boot_script @ ?k) (False, {WRITER_lock}, [([Release WRITER_lock, Restore, Acquire PICS_lock, Release PICS_lock, On] @ ?k, [False])])"
    by (rule reach.run) (simp add: exec.acquire)
  then have "reach (boot_script @ ?k) (False, {}, [([Restore, Acquire PICS_lock, Release PICS_lock, On] @ ?k, [False])])"
    by (rule reach.run) (use exec.release [of False "{WRITER_lock}" WRITER_lock] in simp)
  then have "reach (boot_script @ ?k) (False, {}, [([Acquire PICS_lock, Release PICS_lock, On] @ ?k, [])])"
    by (rule reach.run) (use exec.restore [of False "{}" _ False] in simp)
  then have "reach (boot_script @ ?k) (False, {PICS_lock}, [([Release PICS_lock, On] @ ?k, [])])"
    by (rule reach.run) (simp add: exec.acquire)
  then have "reach (boot_script @ ?k) (False, {}, [([On] @ ?k, [])])"
    by (rule reach.run) (use exec.release [of False "{PICS_lock}" PICS_lock] in simp)
  then show ?thesis by (rule reach.run) (simp add: exec.on)
qed

theorem interrupts_never_deadlock_witness:
  "\<exists>c'. exec\<^sup>*\<^sup>* (False, {}, [(keyboard_script True, []), (concat [vga_print_script, apic_init_script], [])]) c' \<and> finished c'"
proof -
  have "interrupt (True, {}, [(concat [vga_print_script, apic_init_script], [])])
      (False, {}, [(keyboard_script True, []), (concat [vga_print_script, apic_init_script], [])])"
    by (rule interrupt.deliver) (simp add: irq_scripts_def)
  from reach.irq [OF boot_run this] show ?thesis
    using interrupts_never_deadlock [of "[vga_print_script, apic_init_script]"] by (simp add: kernel_scripts_def)
qed

text \<open>
  The discipline is needed: code that takes the lock of the controller with interrupts enabled can be
  interrupted by the timer while it holds the lock, and then nothing runs any more.
\<close>

lemma undisciplined_deadlocks:
  "\<exists>c. reach (boot_script @ concat [timer_script]) c \<and> \<not> finished c \<and> (\<nexists>c'. exec c c' \<or> interrupt c c')"
proof -
  have "exec (True, {}, [(timer_script, [])]) (True, {PICS_lock}, [([Release PICS_lock], [])])"
    unfolding timer_script_def by (rule exec.acquire) simp
  with boot_run [of "[timer_script]"]
  have "reach (boot_script @ concat [timer_script]) (True, {PICS_lock}, [([Release PICS_lock], [])])"
    by (simp add: reach.run)
  then have "reach (boot_script @ concat [timer_script]) (False, {PICS_lock}, [(timer_script, []), ([Release PICS_lock], [])])"
    by (rule reach.irq) (simp add: interrupt.deliver irq_scripts_def)
  moreover have "\<not> finished (False, {PICS_lock}, [(timer_script, []), ([Release PICS_lock], [])]) \<and>
      (\<nexists>c'. exec (False, {PICS_lock}, [(timer_script, []), ([Release PICS_lock], [])]) c' \<or>
        interrupt (False, {PICS_lock}, [(timer_script, []), ([Release PICS_lock], [])]) c')"
    by (auto simp: finished_def timer_script_def elim!: exec_cases interrupt_cases)
  ultimately show ?thesis by blast
qed

section \<open>Exceptions\<close>

text \<open>
  A page fault can be raised by any instruction, also inside an interrupt handler and with interrupts
  disabled. Its handler prints four lines, and then the translation of the address, \<open>n\<close> lines, if the paging
  context exists and its lock is free; \<^verbatim>\<open>try_lock\<close> does not wait. The breakpoint handler prints once.
\<close>

definition page_fault_script :: "nat option \<Rightarrow> lock set \<Rightarrow> script" where
  "page_fault_script ctx L =
     concat (replicate 4 vga_print_script) @
     (case ctx of
        None \<Rightarrow> []
      | Some n \<Rightarrow>
          if PAGING_CTX_lock \<in> L then []
          else [Acquire PAGING_CTX_lock] @ concat (replicate n vga_print_script) @ [Release PAGING_CTX_lock])"

definition breakpoint_script :: script where
  "breakpoint_script = vga_print_script"

definition uninterrupted :: "config \<Rightarrow> config \<Rightarrow> bool" where
  "uninterrupted c c' \<longleftrightarrow> exec c c' \<and> \<not> fst c"

lemma uninterrupted_print:
  assumes "WRITER_lock \<notin> L"
  shows "uninterrupted\<^sup>*\<^sup>* (False, L, (vga_print_script @ k, sv) # st) (False, L, (k, sv) # st)"
proof -
  have "uninterrupted (False, L, (vga_print_script @ k, sv) # st)
      (False, L, ([Acquire WRITER_lock, Release WRITER_lock, Restore] @ k, False # sv) # st)"
    by (simp add: uninterrupted_def vga_print_script_def exec.off)
  moreover have "uninterrupted (False, L, ([Acquire WRITER_lock, Release WRITER_lock, Restore] @ k, False # sv) # st)
      (False, insert WRITER_lock L, ([Release WRITER_lock, Restore] @ k, False # sv) # st)"
    using assms by (simp add: uninterrupted_def exec.acquire)
  moreover have "uninterrupted (False, insert WRITER_lock L, ([Release WRITER_lock, Restore] @ k, False # sv) # st)
      (False, L, ([Restore] @ k, False # sv) # st)"
    using assms exec.release [of False "insert WRITER_lock L" WRITER_lock] by (simp add: uninterrupted_def)
  moreover have "uninterrupted (False, L, ([Restore] @ k, False # sv) # st) (False, L, (k, sv) # st)"
    using exec.restore [of False L k False] by (simp add: uninterrupted_def)
  ultimately show ?thesis by (meson converse_rtranclp_into_rtranclp rtranclp.rtrancl_refl)
qed

lemma uninterrupted_prints:
  assumes "WRITER_lock \<notin> L"
  shows "uninterrupted\<^sup>*\<^sup>* (False, L, (concat (replicate n vga_print_script) @ k, sv) # st) (False, L, (k, sv) # st)"
  using assms by (induction n) (auto intro: rtranclp_trans [OF uninterrupted_print])

lemma page_fault_runs:
  assumes "WRITER_lock \<notin> L"
  shows "uninterrupted\<^sup>*\<^sup>* (False, L, (page_fault_script ctx L, []) # st) (False, L, ([], []) # st)"
proof -
  let ?P = "PAGING_CTX_lock" and ?rest = "drop (length (concat (replicate 4 vga_print_script))) (page_fault_script ctx L)"
  have "uninterrupted\<^sup>*\<^sup>* (False, L, (?rest, []) # st) (False, L, ([], []) # st)"
  proof (cases "\<exists>n. ctx = Some n \<and> ?P \<notin> L")
    case True
    then obtain n where n: "ctx = Some n" and free: "?P \<notin> L" by blast
    have rest: "?rest = Acquire ?P # concat (replicate n vga_print_script) @ [Release ?P]"
      using n free by (simp add: page_fault_script_def)
    have "uninterrupted (False, L, (?rest, []) # st)
        (False, insert ?P L, (concat (replicate n vga_print_script) @ [Release ?P], []) # st)"
      unfolding rest uninterrupted_def using free by (simp add: exec.acquire)
    moreover have "uninterrupted\<^sup>*\<^sup>* (False, insert ?P L, (concat (replicate n vga_print_script) @ [Release ?P], []) # st)
        (False, insert ?P L, ([Release ?P], []) # st)" using assms by (intro uninterrupted_prints) simp
    moreover have "uninterrupted (False, insert ?P L, ([Release ?P], []) # st) (False, L, ([], []) # st)"
      using free exec.release [of False "insert ?P L" ?P "[]"] by (simp add: uninterrupted_def)
    ultimately show ?thesis by (meson converse_rtranclp_into_rtranclp rtranclp.rtrancl_into_rtrancl)
  next
    case False
    then have "?rest = []" by (auto simp: page_fault_script_def split: option.splits)
    then show ?thesis by simp
  qed
  moreover have "page_fault_script ctx L = concat (replicate 4 vga_print_script) @ ?rest"
    by (simp add: page_fault_script_def)
  ultimately show ?thesis using rtranclp_trans [OF uninterrupted_prints [OF assms, of 4 ?rest "[]" st]] by simp
qed

text \<open>
  C23. A fault is reported wherever it strikes, outside the screen driver: in every configuration that the
  kernel and its interrupts can reach, also inside a handler and inside the memory code, the handler
  of a page fault gets through its whole report, never waits for a lock and cannot be interrupted, and leaves the locks as
  they were; and so does the breakpoint handler. The one exception is a fault while the screen is locked, which is only
  ever the case with interrupts disabled: then the handler waits for itself forever.
\<close>

theorem faults_reported_everywhere:
  assumes "set ops \<subseteq> set kernel_scripts" and "reach (boot_script @ concat ops) (b, L, st)"
  shows "if WRITER_lock \<in> L
     then \<not> b \<and> (\<exists>c. exec\<^sup>*\<^sup>* (False, L, (page_fault_script ctx L, []) # st) c \<and> (\<nexists>c'. exec c c' \<or> interrupt c c'))
     else uninterrupted\<^sup>*\<^sup>* (False, L, (page_fault_script ctx L, []) # st) (False, L, ([], []) # st) \<and>
          uninterrupted\<^sup>*\<^sup>* (False, L, (breakpoint_script, []) # st) (False, L, ([], []) # st)"
proof (cases "WRITER_lock \<in> L")
  case True
  have "config_ok (b, L, st)" by (rule reach_ok [OF assms])
  then have "\<not> b" using True by cases (auto simp: main_ok_def irq_locks_def)
  moreover obtain k where k: "page_fault_script ctx L = Off # Acquire WRITER_lock # k"
    by (simp add: page_fault_script_def vga_print_script_def numeral_eq_Suc)
  have "exec (False, L, (page_fault_script ctx L, []) # st) (False, L, (Acquire WRITER_lock # k, [False]) # st)"
    unfolding k by (rule exec.off)
  moreover have "\<nexists>c'. exec (False, L, (Acquire WRITER_lock # k, [False]) # st) c' \<or>
      interrupt (False, L, (Acquire WRITER_lock # k, [False]) # st) c'"
    using True by (auto elim: exec_cases interrupt_cases)
  ultimately show ?thesis using True by auto
next
  case False
  then show ?thesis
    using page_fault_runs [OF False] uninterrupted_print [OF False, of "[]" "[]" st] by (simp add: breakpoint_script_def)
qed

text \<open>A fault inside the keyboard handler, which holds the lock of the keyboard.\<close>

theorem faults_reported_everywhere_witness:
  "uninterrupted\<^sup>*\<^sup>* (False, {KEYBOARD_lock}, (page_fault_script (Some 2) {KEYBOARD_lock}, []) #
       ([Acquire PICS_lock, Release PICS_lock, Release KEYBOARD_lock], []) # [([], [])])
     (False, {KEYBOARD_lock}, ([], []) # ([Acquire PICS_lock, Release PICS_lock, Release KEYBOARD_lock], []) # [([], [])])"
proof -
  have "reach (boot_script @ concat []) (False, {}, (keyboard_script False, []) # [([], [])])"
    using reach.irq [OF boot_run [of "[]"], of "(False, {}, (keyboard_script False, []) # [([], [])])"]
    by (simp add: interrupt.deliver irq_scripts_def)
  then have "reach (boot_script @ concat []) (False, {KEYBOARD_lock},
      ([Acquire PICS_lock, Release PICS_lock, Release KEYBOARD_lock], []) # [([], [])])"
    by (rule reach.run) (simp add: keyboard_script_def exec.acquire)
  from faults_reported_everywhere [OF _ this, of "Some 2"] show ?thesis by simp
qed

end
