(* ===== verification/Reference_Allocator.thy ===== *)
theory Reference_Allocator
  imports Frame_Allocator
begin

text \<open>
  The bitmap allocator of \<^verbatim>\<open>src/memory/frame_allocator/mod.rs\<close> against a reference allocator over a set
  of used frames. The reference looks through the whole list of usable frames on each allocation; the
  code skips to \<^verbatim>\<open>next_usable\<close>, tests bits of 32-bit words and sets them. Over any sequence of
  allocations and deallocations both give the same answers.
\<close>

section \<open>Sequences of operations\<close>

datatype frame_op = Allocate | Deallocate u64

fun allocator_run ::
    "crates \<Rightarrow> frame_op list \<Rightarrow> GlobalFrameAllocator \<Rightarrow> (u64 option list \<times> GlobalFrameAllocator) res" where
  "allocator_run E [] s = Inr ([], s)"
| "allocator_run E (Allocate # ops) s =
     rbind (allocate_frame E s) (\<lambda>(r, s1). rmap (\<lambda>(rs, s2). (r # rs, s2)) (allocator_run E ops s1))"
| "allocator_run E (Deallocate f # ops) s = rbind (deallocate_frame f s) (allocator_run E ops)"

section \<open>The reference\<close>

record ref_allocator =
  ref_usable :: "u64 list"
  ref_used :: "u64 set"
  ref_next :: u64

definition ref_candidates :: "ref_allocator \<Rightarrow> u64 list" where
  "ref_candidates a = filter (\<lambda>i. ref_next a \<le> i \<and> i \<notin> ref_used a) (ref_usable a)"

definition ref_allocate :: "ref_allocator \<Rightarrow> u64 option \<times> ref_allocator" where
  "ref_allocate a =
     (case ref_candidates a of
        [] \<Rightarrow> (None, a)
      | i # _ \<Rightarrow> (Some (i * 0x1000), a\<lparr>ref_used := insert i (ref_used a), ref_next := i\<rparr>))"

definition ref_deallocate :: "u64 \<Rightarrow> ref_allocator \<Rightarrow> ref_allocator" where
  "ref_deallocate f a = a\<lparr>ref_used := ref_used a - {f div 0x1000}\<rparr>"

fun ref_run :: "frame_op list \<Rightarrow> ref_allocator \<Rightarrow> u64 option list \<times> ref_allocator" where
  "ref_run [] a = ([], a)"
| "ref_run (Allocate # ops) a =
     (let (r, a1) = ref_allocate a; (rs, a2) = ref_run ops a1 in (r # rs, a2))"
| "ref_run (Deallocate f # ops) a = ref_run ops (ref_deallocate f a)"

definition abs_allocator :: "GlobalFrameAllocator \<Rightarrow> ref_allocator" where
  "abs_allocator s =
     \<lparr>ref_usable = usable_frames (memory_map s), ref_used = used_frames s, ref_next = next_usable s\<rparr>"

section \<open>One operation\<close>

lemma set_ref_candidates: "set (ref_candidates (abs_allocator s)) = free_frames s"
  by (auto simp: ref_candidates_def abs_allocator_def free_frames_def)

lemma ref_allocate_abs:
  assumes "allocator_inv s"
  shows "ref_allocate (abs_allocator s) =
     (if free_frames s = {} then (None, abs_allocator s)
      else (Some (frame_bytes (Min (free_frames s))), (abs_allocator s)
        \<lparr>ref_used := insert (Min (free_frames s)) (used_frames s), ref_next := Min (free_frames s)\<rparr>))"
proof (cases "ref_candidates (abs_allocator s)")
  case Nil
  then have "free_frames s = {}" by (simp flip: set_ref_candidates)
  with Nil show ?thesis by (simp add: ref_allocate_def)
next
  case (Cons i js)
  have "sorted (ref_candidates (abs_allocator s))"
    using assms by (auto simp: ref_candidates_def abs_allocator_def allocator_inv_def
        intro!: strict_sorted_imp_sorted sorted_wrt_filter)
  then have "Min (free_frames s) = i" using Cons by (auto simp flip: set_ref_candidates intro!: Min_eqI)
  moreover have "free_frames s \<noteq> {}" using Cons by (simp flip: set_ref_candidates)
  moreover have "ref_used (abs_allocator s) = used_frames s" by (simp add: abs_allocator_def)
  ultimately show ?thesis using Cons by (simp add: ref_allocate_def frame_bytes_def)
qed

lemma allocate_frame_abs:
  assumes "crates_ok E" and "allocator_inv s"
  shows "\<exists>s'. allocate_frame E s = Inr (fst (ref_allocate (abs_allocator s)), s') \<and>
     abs_allocator s' = snd (ref_allocate (abs_allocator s)) \<and> allocator_inv s' \<and> length (bitmap s') = length (bitmap s)"
proof -
  obtain r s' where run: "allocate_frame E s = Inr (r, s')" using gfa.alloc_total [of E s] assms by blast
  from assms run show ?thesis
  proof (cases rule: allocate_frame_cases)
    case none
    then show ?thesis using run assms(2) by (simp add: ref_allocate_abs)
  next
    case (some i)
    then have "free_frames s \<noteq> {}" by auto
    with some show ?thesis using run assms(2) allocate_frame_inv [OF assms run]
      by (simp add: ref_allocate_abs) (simp add: abs_allocator_def)
  qed
qed

lemma deallocate_frame_abs:
  assumes "allocator_inv s" and "in_bitmap s (f div 0x1000)"
  shows "\<exists>s'. deallocate_frame f s = Inr s' \<and> abs_allocator s' = ref_deallocate f (abs_allocator s) \<and>
     allocator_inv s' \<and> length (bitmap s') = length (bitmap s)"
proof -
  obtain s' where s': "mark_unused (f div 0x1000) s = Inr s'" using bm.unmark_defined assms(2) by blast
  then show ?thesis
    using mark_unused_fields [OF s'] used_frames_unmark [OF s'] assms(1) allocator_inv_cong [of s' s]
    by (simp add: deallocate_frame_def ref_deallocate_def abs_allocator_def)
qed

section \<open>Equivalence\<close>

text \<open>
  C8. The bitmap allocator and the reference allocator are the same machine: over any sequence of
  allocations and deallocations of frames inside the bitmap, in any order, the code never panics, gives
  exactly the answers of the reference, and ends in a state that stands for that of the reference.
\<close>

theorem allocator_equals_reference:
  assumes "crates_ok E" and "allocator_inv s"
    and "\<forall>f. Deallocate f \<in> set ops \<longrightarrow> in_bitmap s (f div 0x1000)"
  shows "\<exists>s'. allocator_run E ops s = Inr (fst (ref_run ops (abs_allocator s)), s') \<and>
     abs_allocator s' = snd (ref_run ops (abs_allocator s)) \<and> allocator_inv s'"
  using assms(2,3)
proof (induction ops arbitrary: s)
  case Nil
  then show ?case by simp
next
  case (Cons op ops)
  show ?case
  proof (cases op)
    case Allocate
    obtain s1 where s1: "allocate_frame E s = Inr (fst (ref_allocate (abs_allocator s)), s1)"
      "abs_allocator s1 = snd (ref_allocate (abs_allocator s))" "allocator_inv s1" "length (bitmap s1) = length (bitmap s)"
      using allocate_frame_abs [OF assms(1) Cons.prems(1)] by blast
    have "\<forall>f. Deallocate f \<in> set ops \<longrightarrow> in_bitmap s1 (f div 0x1000)"
      using Cons.prems(2) s1(4) by (simp add: in_bitmap_def)
    from Cons.IH [OF s1(3) this] s1 Allocate show ?thesis by (auto split: prod.splits)
  next
    case (Deallocate f)
    then have "in_bitmap s (f div 0x1000)" using Cons.prems(2) by simp
    then obtain s1 where s1: "deallocate_frame f s = Inr s1" "abs_allocator s1 = ref_deallocate f (abs_allocator s)"
      "allocator_inv s1" "length (bitmap s1) = length (bitmap s)"
      using deallocate_frame_abs [OF Cons.prems(1)] by blast
    have "\<forall>f. Deallocate f \<in> set ops \<longrightarrow> in_bitmap s1 (f div 0x1000)"
      using Cons.prems(2) s1(4) by (simp add: in_bitmap_def)
    from Cons.IH [OF s1(3) this] s1 Deallocate show ?thesis by simp
  qed
qed

theorem allocator_equals_reference_witness:
  "\<exists>s'. allocator_run std_crates [Allocate, Deallocate 0x2000, Allocate, Deallocate 0x4000, Allocate, Allocate] example_allocator =
     Inr ([Some 0x3000, Some 0x4000, Some 0x4000, None], s')"
proof -
  let ?ops = "[Allocate, Deallocate 0x2000, Allocate, Deallocate 0x4000, Allocate, Allocate]"
  have abs: "abs_allocator example_allocator = \<lparr>ref_usable = [2, 3, 4], ref_used = {2}, ref_next = 0\<rparr>"
    by (simp add: abs_allocator_def example_used example_usable) (simp add: example_allocator_def)
  have bits: "\<forall>f. Deallocate f \<in> set ?ops \<longrightarrow> in_bitmap example_allocator (f div 0x1000)"
    by (auto simp: in_bitmap_def example_allocator_def)
  have "fst (ref_run ?ops (abs_allocator example_allocator)) = [Some 0x3000, Some 0x4000, Some 0x4000, None]"
    unfolding abs by (simp add: ref_allocate_def ref_candidates_def ref_deallocate_def)
  with allocator_equals_reference [OF std_crates_ok example_inv bits] show ?thesis by auto
qed

end
