(* ===== verification/Paging_Safety.thy ===== *)
theory Paging_Safety
  imports Paging
begin

text \<open>
  What stays true of the paging context of \<^verbatim>\<open>src/memory/mod.rs\<close> while device mappings come and go: the pages of
  the heap keep their frames, and every guard that is still out can be given back. And what does
  not: a guard of a frame that was free when it was mapped frees the frame later, also if the
  allocator has handed it out in the meantime.
\<close>

section \<open>The invariant\<close>

definition heap_page :: "nat \<Rightarrow> u64" where
  "heap_page n = frame_addr (frame_no HEAP_START + n)"

text \<open>
  \<open>G\<close> are the guards that are out, and \<open>backing\<close> gives the frame of a page of the heap. A guard never names
  a page of the heap, and one that frees its frame never names a frame of the heap.
\<close>

definition heap_backed :: "('m \<Rightarrow> translation) \<Rightarrow> (nat \<Rightarrow> u64) \<Rightarrow> 'm PagingContext \<Rightarrow> bool" where
  "heap_backed tr backing ctx \<longleftrightarrow>
     (\<forall>n < 125. tr (mapper ctx) (heap_page n) = Some (backing n, {PRESENT, WRITABLE}) \<and>
        backing n div 0x1000 \<in> used_frames (allocator ctx))"

definition guards_ok ::
    "('m \<Rightarrow> translation) \<Rightarrow> (nat \<Rightarrow> u64) \<Rightarrow> UnmapGuard set \<Rightarrow> 'm PagingContext \<Rightarrow> bool" where
  "guards_ok tr backing G ctx \<longleftrightarrow>
     inj_on guard_page G \<and>
     (\<forall>g \<in> G. paging_guard_ok (Some ctx) g \<and> guard_page g \<in> paging_mapped tr (Some ctx) \<and>
        (\<forall>n < 125. guard_page g \<noteq> heap_page n \<and> (unmap_frame g \<longrightarrow> guard_page g div 0x1000 \<noteq> backing n div 0x1000)))"

definition paging_inv ::
    "crates \<Rightarrow> 'm mapper_ops \<Rightarrow> ('m \<Rightarrow> translation) \<Rightarrow> (nat \<Rightarrow> u64) \<Rightarrow> UnmapGuard set \<Rightarrow> 'm PagingContext option \<Rightarrow> bool" where
  "paging_inv E M tr backing G c \<longleftrightarrow>
     paging_good E M tr c \<and> (\<exists>ctx. c = Some ctx \<and> heap_backed tr backing ctx \<and> guards_ok tr backing G ctx)"

lemma heap_backed_mono:
  assumes "heap_backed tr backing ctx" and "tr (mapper ctx) \<subseteq>\<^sub>m tr (mapper ctx')"
    and "used_frames (allocator ctx) \<subseteq> used_frames (allocator ctx')"
  shows "heap_backed tr backing ctx'"
  unfolding heap_backed_def
proof (intro allI impI conjI)
  fix n :: nat assume n: "n < 125"
  have 1: "tr (mapper ctx) (heap_page n) = Some (backing n, {PRESENT, WRITABLE})" using assms(1) n by (simp add: heap_backed_def)
  then have "heap_page n \<in> dom (tr (mapper ctx))" by auto
  with assms(2) 1 show "tr (mapper ctx') (heap_page n) = Some (backing n, {PRESENT, WRITABLE})" by (auto simp: map_le_def)
  show "backing n div 0x1000 \<in> used_frames (allocator ctx')" using assms(1,3) n by (auto simp: heap_backed_def)
qed

lemma guards_ok_mono:
  assumes "guards_ok tr backing G ctx" and "tr (mapper ctx) \<subseteq>\<^sub>m tr (mapper ctx')"
    and "length (bitmap (allocator ctx')) = length (bitmap (allocator ctx))"
  shows "guards_ok tr backing G ctx'"
proof -
  have "paging_mapped tr (Some ctx) \<subseteq> paging_mapped tr (Some ctx')"
    using assms(2) by (force simp: paging_mapped_def map_le_def)
  then show ?thesis using assms(1) paging_guard_ok_mono [OF assms(3)] unfolding guards_ok_def by blast
qed

lemma paging_inv_subset: "paging_inv E M tr backing G c \<Longrightarrow> H \<subseteq> G \<Longrightarrow> paging_inv E M tr backing H c"
  by (auto simp: paging_inv_def guards_ok_def intro: inj_on_subset)

section \<open>Every operation keeps it\<close>

lemma paging_inv_mmap:
  assumes inv: "paging_inv E M tr backing G c" and f: "device_frame f"
    and run: "mmap_dev E M f acpi c = Inr (Inr g, c')"
  shows "paging_inv E M tr backing (insert g G) c'"
proof -
  from inv obtain ctx where c: "c = Some ctx" and E: "crates_ok E" and M: "mapper_ok M tr" and al: "allocator_inv (allocator ctx)"
    and heap: "heap_backed tr backing ctx" and G: "guards_ok tr backing G ctx"
    by (auto simp: paging_inv_def paging_good_def)
  from f have f': "aligned f" "unat f < 2 ^ 47" by (simp_all add: device_frame_def)
  obtain ctx' extra fs where 1: "c' = Some ctx'" "tr (mapper ctx) f = None"
    "tr (mapper ctx') = (tr (mapper ctx))(f \<mapsto> (f, {PRESENT, NO_CACHE, WRITE_THROUGH} \<union> extra))"
    and runs: "alloc_run (allocate_frame E) (allocator ctx) fs (allocator ctx')"
    and g: "guard_page g = f" "unmap_frame g \<longleftrightarrow> f div 0x1000 \<notin> used_frames (allocator ctx')"
      "in_bitmap (allocator ctx') (f div 0x1000)"
    using mmap_dev_ok [OF E M al f' run [unfolded c]] by metis
  note st = alloc_run_steps [OF E runs al]
  have le: "tr (mapper ctx) \<subseteq>\<^sub>m tr (mapper ctx')" using 1(2,3) by (auto simp: map_le_def)
  have heap': "heap_backed tr backing ctx'" by (rule heap_backed_mono [OF heap le st(5)])
  have new: "guard_page h \<noteq> f" if "h \<in> G" for h using G 1(2) that by (auto simp: guards_ok_def paging_mapped_def)
  have not_heap: "f \<noteq> heap_page n" if "n < 125" for n using heap 1(2) that by (auto simp: heap_backed_def)
  have G': "guards_ok tr backing (insert g G) ctx'"
    unfolding guards_ok_def
  proof (intro conjI ballI allI impI)
    have "guard_page g \<notin> guard_page ` (G - {g})" unfolding g(1) using new by (metis DiffE imageE)
    then show "inj_on guard_page (insert g G)" using G by (simp add: guards_ok_def)
  next
    fix h assume h: "h \<in> insert g G"
    show "paging_guard_ok (Some ctx') h" "guard_page h \<in> paging_mapped tr (Some ctx')"
      using h g 1(3) guards_ok_mono [OF G le st(7)] by (auto simp: guards_ok_def paging_guard_ok_def paging_mapped_def)
    fix n :: nat assume n: "n < 125"
    show "guard_page h \<noteq> heap_page n" using h n g(1) not_heap G by (auto simp: guards_ok_def)
    assume "unmap_frame h"
    then show "guard_page h div 0x1000 \<noteq> backing n div 0x1000"
      using h n g heap' G by (auto simp: guards_ok_def heap_backed_def)
  qed
  show ?thesis using E M st(1) 1(1) heap' G' by (simp add: paging_inv_def paging_good_def)
qed

lemma paging_inv_mmap_error:
  assumes inv: "paging_inv E M tr backing G c" and run: "mmap_dev E M f acpi c = Inr (Inl e, c')"
  shows "paging_inv E M tr backing G c'"
proof -
  from inv obtain ctx where c: "c = Some ctx" and E: "crates_ok E" and M: "mapper_ok M tr" and al: "allocator_inv (allocator ctx)"
    and heap: "heap_backed tr backing ctx" and G: "guards_ok tr backing G ctx"
    by (auto simp: paging_inv_def paging_good_def)
  have "c' = c \<or> (\<exists>flags m al'. identity_map M (allocate_frame E) f flags (mapper ctx) (allocator ctx) = Inr (Inl e, m, al') \<and>
      c' = Some \<lparr>mapper = m, allocator = al'\<rparr>)"
  proof (cases "get_frame_ty E (allocator ctx) f")
    case None
    then show ?thesis using run c by (simp add: mmap_dev_def)
  next
    case (Some ty)
    then obtain flags virt r m al' where im: "identity_map M (allocate_frame E) f flags (mapper ctx) (allocator ctx) = Inr (r, m, al')"
      and rest: "(case r of Inl e \<Rightarrow> Inr (Inl e, Some \<lparr>mapper = m, allocator = al'\<rparr>)
       | Inr _ \<Rightarrow> rbind (frame_in_use al' f) (\<lambda>in_use. Inr (Inr \<lparr>guard_page =
           containing_address E virt, unmap_frame = \<not> in_use\<rparr>, Some \<lparr>mapper = m, allocator = al'\<rparr>))) = Inr (Inl e, c')"
      using run c by (auto simp: mmap_dev_def res_iffs)
    then show ?thesis by (cases r) (auto simp: res_iffs)
  qed
  then show ?thesis
  proof
    assume "\<exists>flags m al'. identity_map M (allocate_frame E) f flags (mapper ctx) (allocator ctx) = Inr (Inl e, m, al') \<and>
      c' = Some \<lparr>mapper = m, allocator = al'\<rparr>"
    then obtain flags m al' where im: "identity_map M (allocate_frame E) f flags (mapper ctx) (allocator ctx) = Inr (Inl e, m, al')"
      and c': "c' = Some \<lparr>mapper = m, allocator = al'\<rparr>" by blast
    from M im obtain fs where eff: "map_effect tr f f flags (mapper ctx) (Inl e) m"
      and fs: "alloc_run (allocate_frame E) (allocator ctx) fs al'" by (rule mapper_identity_map)
    note st = alloc_run_steps [OF E fs al]
    have le: "tr (mapper ctx) \<subseteq>\<^sub>m tr (mapper \<lparr>mapper = m, allocator = al'\<rparr>)" using eff by (simp add: map_effect_def)
    show ?thesis
      using heap_backed_mono [OF heap le] guards_ok_mono [OF G le] st E M c' by (simp add: paging_inv_def paging_good_def)
  qed (use inv in simp)
qed

lemma paging_inv_unmap:
  assumes inv: "paging_inv E M tr backing G c" and g: "g \<in> G"
  shows "\<exists>c'. unmap M g c = Inr (Inr (), c') \<and> paging_inv E M tr backing (G - {g}) c'"
proof -
  from inv obtain ctx where c: "c = Some ctx" and E: "crates_ok E" and M: "mapper_ok M tr" and al: "allocator_inv (allocator ctx)"
    and heap: "heap_backed tr backing ctx" and G: "guards_ok tr backing G ctx"
    by (auto simp: paging_inv_def paging_good_def)
  from G g obtain flags where page: "tr (mapper ctx) (guard_page g) = Some (guard_page g, flags)"
    and gok: "paging_guard_ok (Some ctx) g" by (auto simp: guards_ok_def paging_mapped_def)
  have "unmap_frame g \<Longrightarrow> in_bitmap (allocator ctx) (guard_page g div 0x1000)" using gok by (simp add: paging_guard_ok_def)
  from unmap_ok [OF M al page this] obtain ctx' where 1: "unmap M g (Some ctx) = Inr (Inr (), Some ctx')"
    "tr (mapper ctx') = (tr (mapper ctx))(guard_page g := None)" "allocator_inv (allocator ctx')"
    "length (bitmap (allocator ctx')) = length (bitmap (allocator ctx))"
    "used_frames (allocator ctx') = (if unmap_frame g then used_frames (allocator ctx) - {guard_page g div 0x1000}
       else used_frames (allocator ctx))" by metis
  have off: "guard_page g \<noteq> heap_page n" "unmap_frame g \<Longrightarrow> guard_page g div 0x1000 \<noteq> backing n div 0x1000" if "n < 125" for n
    using G g that by (auto simp: guards_ok_def)
  have heap': "heap_backed tr backing ctx'"
    unfolding heap_backed_def
  proof (intro allI impI conjI)
    fix n :: nat assume n: "n < 125"
    note h = heap [unfolded heap_backed_def, rule_format, OF n]
    show "tr (mapper ctx') (heap_page n) = Some (backing n, {PRESENT, WRITABLE})"
      using h off(1) [OF n] by (simp add: 1(2))
    show "backing n div 0x1000 \<in> used_frames (allocator ctx')"
      using h off(2) [OF n] by (cases "unmap_frame g") (auto simp: 1(5))
  qed
  have other: "guard_page h \<noteq> guard_page g" if "h \<in> G - {g}" for h
    using G g that by (auto simp: guards_ok_def inj_on_def)
  have "guards_ok tr backing (G - {g}) ctx'"
    unfolding guards_ok_def
  proof (intro conjI ballI)
    show "inj_on guard_page (G - {g})" using G inj_on_diff by (auto simp: guards_ok_def)
    fix h assume h: "h \<in> G - {g}"
    then show "paging_guard_ok (Some ctx') h" using G paging_guard_ok_mono [OF 1(4)] by (auto simp: guards_ok_def)
    show "guard_page h \<in> paging_mapped tr (Some ctx')"
      using G h other [OF h] 1(2) by (auto simp: guards_ok_def paging_mapped_def)
    show "\<forall>n < 125. guard_page h \<noteq> heap_page n \<and> (unmap_frame h \<longrightarrow> guard_page h div 0x1000 \<noteq> backing n div 0x1000)"
      using G h by (auto simp: guards_ok_def)
  qed
  then show ?thesis using 1(1,3) c E M heap' by (auto simp: paging_inv_def paging_good_def)
qed

lemma paging_inv_map_range:
  assumes inv: "paging_inv E M tr backing G c" and run: "map_range E M pages flags c = Inr (r, c')"
  shows "paging_inv E M tr backing G c'"
proof -
  from inv obtain ctx where c: "c = Some ctx" and E: "crates_ok E" and M: "mapper_ok M tr" and al: "allocator_inv (allocator ctx)"
    and heap: "heap_backed tr backing ctx" and G: "guards_ok tr backing G ctx"
    by (auto simp: paging_inv_def paging_good_def)
  from run c obtain ctx' where mp: "map_pages E M flags pages ctx = Inr (r, ctx')" and c': "c' = Some ctx'"
    by (auto simp: map_range_def res_iffs)
  from map_pages_spec [OF E M al mp] have "allocator_inv (allocator ctx')"
    "used_frames (allocator ctx) \<subseteq> used_frames (allocator ctx')"
    "length (bitmap (allocator ctx')) = length (bitmap (allocator ctx))" by auto
  then show ?thesis
    using heap_backed_mono [OF heap] guards_ok_mono [OF G] map_pages_extends [OF M mp] E M c'
    by (simp add: paging_inv_def paging_good_def)
qed

lemma heap_byte_page:
  assumes "HEAP_START \<le> a" and "a < HEAP_START + HEAP_SIZE"
  obtains n where "n < 125" and "frame_addr (frame_no a) = heap_page n"
proof -
  have "frame_no HEAP_START \<le> frame_no a \<and> frame_no a < frame_no HEAP_START + 125"
    using assms by (simp add: frame_no_def HEAP_START_def HEAP_SIZE_def word_le_nat_alt word_less_nat_alt
        less_eq_div_iff_mult_less_eq div_less_iff_less_mult)
  then show thesis by (intro that [of "frame_no a - frame_no HEAP_START"]) (linarith, simp add: heap_page_def)
qed

lemma heap_byte_backed:
  assumes "paging_inv E M tr backing G (Some ctx)" and "HEAP_START \<le> a" and "a < HEAP_START + HEAP_SIZE"
  shows "\<exists>n < 125. tr (mapper ctx) (frame_addr (frame_no a)) = Some (backing n, {PRESENT, WRITABLE})"
proof -
  obtain n where "n < 125" "frame_addr (frame_no a) = heap_page n" using heap_byte_page [OF assms(2,3)] .
  then show ?thesis using assms(1) by (auto simp: paging_inv_def heap_backed_def)
qed

lemma heap_frame_not_free:
  assumes "paging_inv E M tr backing G (Some ctx)" and "n < 125"
  shows "backing n \<notin> frame_bytes ` free_frames (allocator ctx)"
proof
  assume "backing n \<in> frame_bytes ` free_frames (allocator ctx)"
  then obtain i where i: "i \<in> free_frames (allocator ctx)" "backing n = frame_bytes i" by blast
  have "allocator_inv (allocator ctx)" and used: "backing n div 0x1000 \<in> used_frames (allocator ctx)"
    using assms by (auto simp: paging_inv_def paging_good_def heap_backed_def)
  from free_framesD(2,5) [OF this(1) i(1)] used i(2) show False by simp
qed

section \<open>A guard can free a frame that is in use\<close>

text \<open>
  The guard of a frame that was free when it was mapped frees the frame when it is given back, although
  the allocator, which never learns of the mapping, may have handed out the frame in the meantime; the
  very next allocation hands it out a second time.
\<close>

theorem guard_frees_frame_in_use:
  assumes "crates_ok E" and "mapper_ok M tr" and "allocator_inv al"
    and "unmap_frame g" and "tr m (guard_page g) = Some (guard_page g, flags)"
    and "allocate_frame E al = Inr (Some (guard_page g), allocator ctx)" and "mapper ctx = m"
  shows "\<exists>ctx' al'. unmap M g (Some ctx) = Inr (Inr (), Some ctx') \<and>
     allocate_frame E (allocator ctx') = Inr (Some (guard_page g), al')"
proof -
  from assms(1,3,6) obtain i where i: "i \<in> free_frames al" "guard_page g = frame_bytes i"
    "memory_map (allocator ctx) = memory_map al" "length (bitmap (allocator ctx)) = length (bitmap al)"
    "next_usable (allocator ctx) = i" "used_frames (allocator ctx) = insert i (used_frames al)"
    by (cases rule: allocate_frame_cases) auto
  note iD = free_framesD [OF assms(3) i(1)]
  have d: "guard_page g div 0x1000 = i" using i(2) iD(5) by simp
  have inv: "allocator_inv (allocator ctx)" by (rule allocate_frame_inv [OF assms(1,3,6)])
  have "in_bitmap (allocator ctx) (guard_page g div 0x1000)" using iD(4) i(4) d by (simp add: in_bitmap_def)
  then obtain al1 where al1: "mark_unused i (allocator ctx) = Inr al1" using bm.unmark_defined d by blast
  have "tr (mapper ctx) (guard_page g) = Some (guard_page g, flags)" using assms(5,7) by simp
  from mapper_unmap [OF assms(2) this] obtain m' where
    "unmap_page M (guard_page g) (mapper ctx) = Inr (Inr (guard_page g), m')" by blast
  then have un: "unmap M g (Some ctx) = Inr (Inr (), Some \<lparr>mapper = m', allocator = al1\<rparr>)"
    using assms(4) al1 d by (simp add: unmap_def deallocate_frame_def)
  have inv1: "allocator_inv al1" using mark_unused_fields [OF al1] inv allocator_inv_cong by blast
  have "i \<in> free_frames al1" "\<forall>j \<in> free_frames al1. i \<le> j"
    using mark_unused_fields [OF al1] used_frames_unmark [OF al1] i iD by (auto simp: free_frames_def)
  then have "Min (free_frames al1) = i" "free_frames al1 \<noteq> {}" by (auto intro: Min_eqI)
  with allocate_frame_some [OF assms(1) inv1] obtain al2 where
    "allocate_frame E al1 = Inr (Some (frame_bytes i), al2)" by metis
  then show ?thesis using un i(2) by auto
qed

text \<open>A usable frame that is mapped as a device, handed out, given back and handed out again.\<close>

definition guard_allocator :: "u64 \<Rightarrow> u32 \<Rightarrow> GlobalFrameAllocator" where
  "guard_allocator n w = \<lparr>memory_map = example_map, next_usable = n, bitmap = [w]\<rparr>"

lemma guard_allocate:
  "allocate_frame std_crates (guard_allocator 0 0) = Inr (Some 0x2000, guard_allocator 2 4)"
  "allocate_frame std_crates (guard_allocator 2 4) = Inr (Some 0x3000, guard_allocator 3 12)"
  by (simp_all add: guard_allocator_def example_map_def allocate_frame_def recalculate_next_usable_def usable_frames_def
      urange_def is_used_eq mark_used_eq in_bitmap_def checked_mul_def crates_PhysAddr_new [OF std_crates_ok])

lemma guard_allocator_inv: "allocator_inv (guard_allocator n w)"
  by (simp add: allocator_inv_def guard_allocator_def example_map_def usable_frames_def urange_def in_bitmap_def)

theorem guard_frees_frame_in_use_witness:
  "\<exists>g c c1 c2 al2. mmap_dev std_crates flat_mapper 0x3000 False (Some \<lparr>mapper = Map.empty, allocator = guard_allocator 0 0\<rparr>) =
       Inr (Inr g, Some c) \<and>
     allocate_frame std_crates (allocator c) = Inr (Some 0x3000, allocator c1) \<and> mapper c1 = mapper c \<and>
     unmap flat_mapper g (Some c1) = Inr (Inr (), Some c2) \<and>
     allocate_frame std_crates (allocator c2) = Inr (Some 0x3000, al2)"
proof -
  let ?g = "\<lparr>guard_page = 0x3000, unmap_frame = True\<rparr>" and ?fl = "{PRESENT, NO_CACHE, WRITE_THROUGH, WRITABLE}"
  let ?m = "[0x3000 \<mapsto> (0x3000, ?fl)] :: translation"
  let ?c = "\<lparr>mapper = ?m, allocator = guard_allocator 2 4\<rparr>" and ?c1 = "\<lparr>mapper = ?m, allocator = guard_allocator 3 12\<rparr>"
  have ty: "get_frame_ty std_crates (guard_allocator 0 0) 0x3000 = Some Reserved"
    by (simp add: get_frame_ty_def guard_allocator_def example_map_def std_crates_def)
  have use: "frame_in_use (guard_allocator 2 4) 0x3000 = Inr False"
    by (simp add: frame_in_use_def is_used_eq guard_allocator_def in_bitmap_def)
  have addr: "VirtAddr_new std_crates 0x3000 = Inr 0x3000" "containing_address std_crates 0x3000 = 0x3000"
    by (simp_all add: crates_VirtAddr_new [OF std_crates_ok] std_crates_def frame_no_def frame_addr_def)
  have map: "mmap_dev std_crates flat_mapper 0x3000 False (Some \<lparr>mapper = Map.empty, allocator = guard_allocator 0 0\<rparr>) =
      Inr (Inr ?g, Some ?c)"
    by (simp add: mmap_dev_def ty mmap_extra_flags_def flat_mapper_def guard_allocate use addr)
  have "allocate_frame std_crates (guard_allocator 2 4) = Inr (Some (guard_page ?g), allocator ?c1)"
    by (simp add: guard_allocate)
  with guard_frees_frame_in_use [OF std_crates_ok flat_mapper_ok guard_allocator_inv _ _ this, of ?m ?fl]
  obtain c2 al2 where "unmap flat_mapper ?g (Some ?c1) = Inr (Inr (), Some c2)"
    "allocate_frame std_crates (allocator c2) = Inr (Some 0x3000, al2)" by auto
  with map guard_allocate(2) show ?thesis
    by (intro exI [where x = ?g] exI [where x = ?c] exI [where x = ?c1] exI [where x = c2] exI [where x = al2]) simp
qed

end
