(* ===== verification/Kernel.thy ===== *)
theory Kernel
  imports Interrupts Paging_Safety
begin

text \<open>
  The crate root \<^verbatim>\<open>src/lib.rs\<close>: \<^verbatim>\<open>init\<close>, which brings up the descriptor tables, the interrupt
  controller, the timer, the logger, the memory and the heap, and the test runner with the exit codes
  of the emulator.
\<close>

section \<open>Parameters\<close>

record 'lg log_crate =
  set_logger :: "('lg, fmt_result) eff"
  set_max_level :: "('lg, unit) eff"

text \<open>
  Everything outside the kernel that \<^verbatim>\<open>init\<close> relies on: the crates, the devices, the page table code for
  the two allocators, the page table that the boot loader left behind at \<open>cr3\<close>, the contents of memory,
  the selectors of the descriptor table and the address of the interrupt stack.
\<close>

record ('m, 'sp, 'kb, 'lg) platform =
  plat_crates :: crates
  plat_console :: "('m, 'sp, 'kb) console_crates"
  plat_devices :: devices
  plat_mapper :: "'m mapper_ops"
  plat_boot_map_to :: "('m, BootStrapAllocator) map_to_fn"
  plat_new_table :: "u64 \<Rightarrow> u64 \<Rightarrow> 'm"
  plat_memory :: "u64 \<Rightarrow> u32"
  plat_cr3 :: u64
  plat_selector :: "GlobalDescriptorTable \<Rightarrow> Descriptor \<Rightarrow> u16"
  plat_stack :: u64
  plat_log :: "'lg log_crate"

record BootInfo =
  physical_memory_offset :: u64
  boot_memory_map :: MemoryMap

section \<open>Initialisation\<close>

definition kernel_init ::
    "('m, 'sp, 'kb, 'lg) platform \<Rightarrow> BootInfo \<Rightarrow> ('lg \<times> ('m, 'sp, 'kb) kernel, unit) eff" where
  "kernel_init P boot_info = (\<lambda>(lg, s).
     rbind (gdt_init (plat_crates P) (plat_selector P) (plat_stack P) (cpu s)) (\<lambda>tables.
     let s = s\<lparr>cpu := init_idt tables\<rparr>
     in rbind (with_lock PICS_lock (\<lambda>s. controller_init (plat_devices P) (PICS s) s) s) (\<lambda>(_, s).
        rbind (enable_interrupts s) (\<lambda>(_, s).
        rbind (pit_init s) (\<lambda>(_, s).
        rbind (set_logger (plat_log P) lg) (\<lambda>(r, lg).
        rbind (unwrap_ok r) (\<lambda>_.
        rbind (set_max_level (plat_log P) lg) (\<lambda>(_, lg).
        rbind (VirtAddr_new (plat_crates P) (physical_memory_offset boot_info)) (\<lambda>phys_mem_offset.
        rbind (memory_init (plat_crates P) (plat_boot_map_to P) (plat_new_table P) (plat_memory P) (plat_cr3 P)
            phys_mem_offset (boot_memory_map boot_info) (paging_ctx s)) (\<lambda>ctx.
        rbind (init_heap (plat_crates P) (plat_mapper P) (ctx, heap s)) (\<lambda>(r, ctx, hp).
        rbind (expect_ok ''heap initialization failed'' r) (\<lambda>_.
        Inr ((), lg, s\<lparr>paging_ctx := ctx, heap := hp\<rparr>)))))))))))))"

section \<open>The test runner\<close>

datatype QemuExitCode = QemuSuccess | QemuFailed

definition QemuExitCode_as_u32 :: "QemuExitCode \<Rightarrow> u32" where
  "QemuExitCode_as_u32 c = (case c of QemuSuccess \<Rightarrow> 0x10 | QemuFailed \<Rightarrow> 0x11)"

definition exit_qemu :: "QemuExitCode \<Rightarrow> ('z hw_scheme, unit) eff" where
  "exit_qemu exit_code = write_to_port 0xF4 (QemuExitCode_as_u32 exit_code)"

text \<open>A test is a function and the name of its type.\<close>

type_synonym ('m, 'sp, 'kb) test = "u8 list \<times> (('m, 'sp, 'kb) kernel, unit) eff"

definition test_run :: "('m, 'sp, 'kb) console_crates \<Rightarrow> ('m, 'sp, 'kb) test \<Rightarrow> (('m, 'sp, 'kb) kernel, unit) eff" where
  "test_run C t =
     bnd (serial_print C [fst t, bytes ''...'' @ [9]]) (\<lambda>_.
     bnd (snd t) (\<lambda>_.
     serial_println C [bytes ''[ok]'']))"

definition test_runner ::
    "('m, 'sp, 'kb) console_crates \<Rightarrow> ('m, 'sp, 'kb) test list \<Rightarrow> (('m, 'sp, 'kb) kernel, unit) eff" where
  "test_runner C tests =
     bnd (serial_println C [bytes ''Running '', decimal (length tests), bytes '' tests'']) (\<lambda>_.
     bnd (for_eff (test_run C) tests) (\<lambda>_.
     exit_qemu QemuSuccess))"

definition test_panic_report ::
    "('m, 'sp, 'kb) console_crates \<Rightarrow> u8 list list \<Rightarrow> (('m, 'sp, 'kb) kernel, unit) eff" where
  "test_panic_report C info =
     seq [serial_println C [bytes ''[failed]'' @ [10]],
          serial_println C ([bytes ''Error: ''] @ info @ [[10]]),
          exit_qemu QemuFailed]"

text \<open>The handler ends in the halt loop; \<open>None\<close> is not returning.\<close>

definition test_panic_handler ::
    "('m, 'sp, 'kb) console_crates \<Rightarrow> u8 list list \<Rightarrow> ('m, 'sp, 'kb) kernel \<Rightarrow> unit res option" where
  "test_panic_handler C info s =
     (case test_panic_report C info s of
        Inl p \<Rightarrow> Some (Inl p)
      | Inr (_, s') \<Rightarrow> map_option Inr (hlt_loop s'))"

text \<open>The panic handler of the test build of the library.\<close>

definition lib_panic ::
    "('m, 'sp, 'kb) console_crates \<Rightarrow> u8 list list \<Rightarrow> ('m, 'sp, 'kb) kernel \<Rightarrow> unit res option" where
  "lib_panic C info = test_panic_handler C info"

text \<open>The entry point of the test build: the harness calls the runner on the tests it has collected.\<close>

definition test_kernel_main ::
    "('m, 'sp, 'kb, 'lg) platform \<Rightarrow> ('m, 'sp, 'kb) test list \<Rightarrow> BootInfo \<Rightarrow> 'lg \<times> ('m, 'sp, 'kb) kernel \<Rightarrow>
     unit res option" where
  "test_kernel_main P tests boot_info ls =
     (case rbind (kernel_init P boot_info ls) (\<lambda>(_, _, s). test_runner (plat_console P) tests s) of
        Inl p \<Rightarrow> Some (Inl p)
      | Inr (_, s') \<Rightarrow> map_option Inr (hlt_loop s'))"

section \<open>Booting\<close>

definition pic_init_events :: "u8 \<Rightarrow> u8 \<Rightarrow> u8 \<Rightarrow> u8 \<Rightarrow> io_event list" where
  "pic_init_events v1 v2 o1 o2 =
     [PortIn 8 0x21 (unat v1), PortIn 8 0xA1 (unat v2),
      PortOut 8 0x20 0x11, PortOut 8 0x80 0, PortOut 8 0xA0 0x11, PortOut 8 0x80 0,
      PortOut 8 0x21 (unat o1), PortOut 8 0x80 0, PortOut 8 0xA1 (unat o2), PortOut 8 0x80 0,
      PortOut 8 0x21 2, PortOut 8 0x80 0, PortOut 8 0xA1 4, PortOut 8 0x80 0,
      PortOut 8 0x21 1, PortOut 8 0x80 0, PortOut 8 0xA1 1, PortOut 8 0x80 0,
      PortOut 8 0x21 (unat v1), PortOut 8 0xA1 (unat v2)]"

lemma controller_init_run: "\<exists>v1 v2. controller_init D (Pics o1 o2) s = Inr ((), emits (pic_init_events v1 v2 o1 o2) s)"
  by (auto simp: controller_init_def init_pics_def res_simps Let_def pic_consts pic_init_events_def)

definition pit_init_events :: "io_event list" where
  "pit_init_events = [PortOut 8 0x43 0x34, PortOut 8 0x40 0xA9, PortOut 8 0x40 4]"

lemma pit_init_run: "pit_init s = Inr ((), emits pit_init_events s)"
  by (simp add: pit_init_def res_simps DIVISOR_def drop_bit_eq_div pit_init_events_def)

lemma boot_events_program:
  assumes "t' = t @ pic_init_events v1 v2 32 40 @ pit_init_events"
  shows "vector_offset (pic1_after t' p1) = 32" "phase (pic1_after t' p1) = Ready"
    "vector_offset (pic2_after t' p2) = 40" "phase (pic2_after t' p2) = Ready"
    "1193182 div pit_divisor (pit_after t' p) = 1000"
  by (simp_all add: assms pic1_after_def pic2_after_def pit_after_def pic_init_events_def pit_init_events_def
      pic_command_def pic_data_def bit_numeral_word_iff)

text \<open>
  What booting relies on: the crates behave as documented, the page tables that the boot loader left
  map neither the bitmap nor the heap, the memory behind the bitmap is clear, and the memory map is
  well formed, with no usable frame inside a withheld region and enough usable frames: four for each
  page of the bitmap and 500 for the heap.
\<close>

definition boot_ok :: "('m, 'sp, 'kb, 'lg) platform \<Rightarrow> ('m \<Rightarrow> translation) \<Rightarrow> BootInfo \<Rightarrow> bool" where
  "boot_ok P tr bi \<longleftrightarrow>
     (let mm = boot_memory_map bi; offset = physical_memory_offset bi; pages = (region_end (last mm) + 32767) div 32768;
          table = plat_new_table P (offset + plat_cr3 P) offset
      in crates_ok (plat_crates P) \<and> mapper_ok (plat_mapper P) tr \<and> map_to_works (plat_crates P) (plat_mapper P) tr \<and>
         map_to_draws (plat_boot_map_to P) \<and>
         map_to_succeeds (plat_crates P) (plat_boot_map_to P) (\<lambda>m. dom (tr m)) \<and>
         map_ok mm \<and> 4 * pages + 500 \<le> length (usable_frames mm) \<and> raw_used (plat_memory P) mm = {} \<and>
         (\<forall>r \<in> set mm. withheld r \<longrightarrow>
            (\<forall>i \<in> set (usable_frames mm). \<not> (region_start r \<le> unat i \<and> unat i < region_end r))) \<and>
         (\<forall>k < pages. tr table (bitmap_page k) = None) \<and>
         (\<forall>n < 125. tr table (frame_addr (frame_no HEAP_START + n)) = None) \<and>
         unat offset + unat (plat_cr3 P) < 2 ^ 47 \<and> unat (plat_stack P) + 20480 < 2 ^ 47 \<and>
         (\<forall>t. plat_selector P [(plat_selector P [] kernel_code_segment, kernel_code_segment)] (tss_segment t) \<noteq>
            plat_selector P [] kernel_code_segment))"

lemma boot_okD:
  assumes "boot_ok P tr bi"
  shows "crates_ok (plat_crates P)" "mapper_ok (plat_mapper P) tr" "map_to_works (plat_crates P) (plat_mapper P) tr"
    "map_to_draws (plat_boot_map_to P)" "map_to_succeeds (plat_crates P) (plat_boot_map_to P) (\<lambda>m. dom (tr m))"
    "map_ok (boot_memory_map bi)" "raw_used (plat_memory P) (boot_memory_map bi) = {}"
    "unat (physical_memory_offset bi) + unat (plat_cr3 P) < 2 ^ 47" "unat (plat_stack P) + 20480 < 2 ^ 47"
  using assms by (simp_all add: boot_ok_def Let_def)

lemma unat_heap_page: "n < 125 \<Longrightarrow> unat (heap_page n) = 0x444444440000 + 4096 * n"
  unfolding heap_page_def frame_addr_def by (subst unat_of_nat_usize) (simp_all add: frame_no_def HEAP_START_def)

lemma heap_not_bitmap:
  assumes "k < 2 ^ 25" and "n < 125"
  shows "frame_addr (frame_no HEAP_START + n) \<noteq> bitmap_page k"
  using unat_heap_page [OF assms(2)] bitmap_page_step(3) [OF assms(1)] assms(2) by (auto simp: heap_page_def)

lemma boot_allocator:
  assumes "boot_ok P tr bi"
  obtains al m where
    "memory_init (plat_crates P) (plat_boot_map_to P) (plat_new_table P) (plat_memory P) (plat_cr3 P)
       (physical_memory_offset bi) (boot_memory_map bi) None = Inr (Some \<lparr>mapper = m, allocator = al\<rparr>)"
    and "allocator_inv al" and "500 \<le> card (free_frames al)"
    and "\<forall>n < 125. tr m (frame_addr (frame_no HEAP_START + n)) = None"
    and "memory_map al = boot_memory_map bi" and "length (bitmap al) = Suc (region_end (last (boot_memory_map bi)))"
    and "dom (tr m) = dom (tr (plat_new_table P (physical_memory_offset bi + plat_cr3 P) (physical_memory_offset bi))) \<union>
       bitmap_page ` {..< (region_end (last (boot_memory_map bi)) + 32767) div 32768}"
    and "length (usable_frames (boot_memory_map bi)) - 4 * ((region_end (last (boot_memory_map bi)) + 32767) div 32768) \<le>
       card (free_frames al)"
proof -
  note ok = boot_okD [OF assms]
  let ?mm = "boot_memory_map bi" and ?off = "physical_memory_offset bi"
  let ?N = "(region_end (last ?mm) + 32767) div 32768" and ?table = "plat_new_table P (?off + plat_cr3 P) ?off"
  have enough: "4 * ?N \<le> length (usable_frames ?mm)" "\<And>k. k < ?N \<Longrightarrow> bitmap_page k \<notin> dom (tr ?table)"
    using assms by (auto simp: boot_ok_def Let_def)
  from init_returns [OF ok(1,6,4,5) enough, of "plat_memory P"] obtain al m where
    init: "frame_allocator_init (plat_crates P) (plat_boot_map_to P) (plat_memory P) ?mm ?table = Inr (al, m)"
    and pages: "dom (tr m) = dom (tr ?table) \<union> bitmap_page ` {..< ?N}" by blast
  have st: "memory_map al = ?mm" "length (bitmap al) = Suc (region_end (last ?mm))"
    using init_state [OF ok(1,6,4) init] by blast+
  have "allocator_inv al" using st init_inv [OF ok(6)] by blast
  moreover have left: "length (usable_frames ?mm) - 4 * ?N \<le> card (free_frames al)"
    using init_leaves_free [OF ok(1,6,4) init ok(7)] assms by (auto simp: boot_ok_def Let_def)
  moreover have "4 * ?N + 500 \<le> length (usable_frames ?mm)" using assms by (simp add: boot_ok_def Let_def)
  then have "500 \<le> card (free_frames al)" using left by linarith
  moreover have "tr m (frame_addr (frame_no HEAP_START + n)) = None" if "n < 125" for n
  proof -
    have "region_end (last ?mm) < 2 ^ 40" using ok(6) by (simp add: map_ok_def)
    then have "?N \<le> 2 ^ 25" by simp
    then have "frame_addr (frame_no HEAP_START + n) \<notin> bitmap_page ` {..< ?N}" 
      using heap_not_bitmap [OF _ that] by (meson imageE lessThan_iff order_less_le_trans)
    moreover have "frame_addr (frame_no HEAP_START + n) \<notin> dom (tr ?table)" using assms that by (auto simp: boot_ok_def Let_def)
    ultimately show ?thesis using pages by blast
  qed
  moreover have "VirtAddr_add (plat_crates P) ?off (plat_cr3 P) = Inr (?off + plat_cr3 P)"
    using crates_VirtAddr_add [OF ok(1)] ok(8) by simp
  ultimately show thesis using init st pages by (intro that [of m al]) (simp_all add: memory_init_def active_level_4_table_def)
qed

text \<open>What \<^verbatim>\<open>init\<close> leaves behind, for the operations that run after it.\<close>

lemma kernel_init_run:
  assumes "boot_ok P tr bi"
    and "set_logger (plat_log P) lg = Inr (Inr (), lg1)" and "set_max_level (plat_log P) lg1 = Inr ((), lg2)"
    and "PICS s = controller_new PIC_1_OFFSET PIC_2_OFFSET" and "held s = {}" and "paging_ctx s = None"
  obtains t ctx backing tables where
    "kernel_init P bi (lg, s) = Inr ((), lg2, (emits t s)\<lparr>interrupt_flag := True, paging_ctx := Some ctx,
       heap := \<lparr>heap_region = Some (HEAP_START, HEAP_SIZE), INITIALIZED = True\<rparr>, cpu := init_idt tables\<rparr>)"
    and "\<forall>v. interrupt_stack (init_idt tables) v = (if v = 8 then Some (plat_stack P + 20480) else None)"
    and "\<exists>v1 v2. t = pic_init_events v1 v2 32 40 @ pit_init_events"
    and "paging_inv (plat_crates P) (plat_mapper P) tr backing {} (Some ctx)"
    and "memory_map (allocator ctx) = boot_memory_map bi"
    and "length (bitmap (allocator ctx)) = Suc (region_end (last (boot_memory_map bi)))"
    and "dom (tr (mapper ctx)) = dom (tr (plat_new_table P (physical_memory_offset bi + plat_cr3 P) (physical_memory_offset bi))) \<union>
       bitmap_page ` {..< (region_end (last (boot_memory_map bi)) + 32767) div 32768} \<union> heap_page ` {..<125}"
    and "length (usable_frames (boot_memory_map bi)) - 4 * ((region_end (last (boot_memory_map bi)) + 32767) div 32768) - 500 \<le>
       card (free_frames (allocator ctx))"
proof -
  note ok = boot_okD [OF assms(1)]
  have sel: "plat_selector P [(plat_selector P [] kernel_code_segment, kernel_code_segment)] (tss_segment t) \<noteq>
      plat_selector P [] kernel_code_segment" for t using assms(1) by (simp add: boot_ok_def Let_def)
  from double_fault_stack_run [OF ok(1,9) sel, of "cpu s"]
  obtain tables where tables: "gdt_init (plat_crates P) (plat_selector P) (plat_stack P) (cpu s) = Inr tables"
    and stack: "\<forall>v. interrupt_stack (init_idt tables) v = (if v = 8 then Some (plat_stack P + 20480) else None)" by blast
  let ?s1 = "s\<lparr>cpu := init_idt tables\<rparr>"
  have pics: "PICS s = Pics 32 40" using assms(4) by (simp add: controller_new_def PIC_1_OFFSET_def PIC_2_OFFSET_def)
  obtain v1 v2 where c: "controller_init (plat_devices P) (Pics 32 40) (?s1\<lparr>held := {PICS_lock}\<rparr>) =
      Inr ((), emits (pic_init_events v1 v2 32 40) (?s1\<lparr>held := {PICS_lock}\<rparr>))" using controller_init_run by metis
  obtain al m where mem: "memory_init (plat_crates P) (plat_boot_map_to P) (plat_new_table P) (plat_memory P) (plat_cr3 P)
       (physical_memory_offset bi) (boot_memory_map bi) None = Inr (Some \<lparr>mapper = m, allocator = al\<rparr>)"
    and al: "allocator_inv al" "500 \<le> card (free_frames al)" "\<forall>n < 125. tr m (frame_addr (frame_no HEAP_START + n)) = None"
    and al': "memory_map al = boot_memory_map bi" "length (bitmap al) = Suc (region_end (last (boot_memory_map bi)))"
      "dom (tr m) = dom (tr (plat_new_table P (physical_memory_offset bi + plat_cr3 P) (physical_memory_offset bi))) \<union>
         bitmap_page ` {..< (region_end (last (boot_memory_map bi)) + 32767) div 32768}"
      "length (usable_frames (boot_memory_map bi)) - 4 * ((region_end (last (boot_memory_map bi)) + 32767) div 32768) \<le>
         card (free_frames al)"
    by (rule boot_allocator [OF assms(1)])
  obtain ctx backing where heap: "init_heap (plat_crates P) (plat_mapper P) (Some \<lparr>mapper = m, allocator = al\<rparr>, heap s) =
      Inr (Inr (), Some ctx, \<lparr>heap_region = Some (HEAP_START, HEAP_SIZE), INITIALIZED = True\<rparr>)" "allocator_inv (allocator ctx)"
    and bk: "\<forall>k. frame_no HEAP_START \<le> k \<and> k < frame_no HEAP_START + 125 \<longrightarrow>
       tr (mapper ctx) (frame_addr k) = Some (backing k, {PRESENT, WRITABLE}) \<and> backing k div 0x1000 \<in> used_frames (allocator ctx)"
    and st: "memory_map (allocator ctx) = memory_map al" "length (bitmap (allocator ctx)) = length (bitmap al)"
      "\<forall>p. p \<notin> frame_addr ` {frame_no HEAP_START ..< frame_no HEAP_START + 125} \<longrightarrow> tr (mapper ctx) p = tr m p"
      "card (free_frames al) - 500 \<le> card (free_frames (allocator ctx))"
    using init_heap_succeeds [OF ok(1-3), of "\<lparr>mapper = m, allocator = al\<rparr>" "heap s"] al by auto
  have pages: "frame_addr ` {frame_no HEAP_START ..< frame_no HEAP_START + 125} = heap_page ` {..<125}"
    using image_add_atLeastLessThan [of "frame_no HEAP_START" 0 125]
    by (simp add: heap_page_def lessThan_atLeast0 add.commute [of 125] image_image flip: image_image [of frame_addr "(+) (frame_no HEAP_START)"])
  show thesis
  proof (rule that [where t = "pic_init_events v1 v2 32 40 @ pit_init_events" and ctx = ctx and tables = tables
      and backing = "\<lambda>n. backing (frame_no HEAP_START + n)"])
    have offset: "VirtAddr_new (plat_crates P) (physical_memory_offset bi) = Inr (physical_memory_offset bi)"
      using crates_VirtAddr_new [OF ok(1)] ok(8) by simp
    show "kernel_init P bi (lg, s) = Inr ((), lg2, (emits (pic_init_events v1 v2 32 40 @ pit_init_events) s)\<lparr>interrupt_flag := True,
       paging_ctx := Some ctx, heap := \<lparr>heap_region = Some (HEAP_START, HEAP_SIZE), INITIALIZED = True\<rparr>, cpu := init_idt tables\<rparr>)"
      using tables c mem heap(1) offset assms(2-6)
      by (simp add: kernel_init_def pics with_lock_def enable_interrupts_def pit_init_run emits_def)
    show "paging_inv (plat_crates P) (plat_mapper P) tr (\<lambda>n. backing (frame_no HEAP_START + n)) {} (Some ctx)"
      using ok heap(2) bk by (simp add: paging_inv_def paging_good_def heap_backed_def guards_ok_def heap_page_def)
    have "heap_page ` {..<125} \<subseteq> dom (tr (mapper ctx))" using bk by (auto simp: heap_page_def)
    moreover have "tr (mapper ctx) p = tr m p" if "p \<notin> heap_page ` {..<125}" for p using st(3) that unfolding pages by blast
    ultimately have "dom (tr (mapper ctx)) = dom (tr m) \<union> heap_page ` {..<125}" using al(3) by (fastforce simp: dom_def)
    then show "dom (tr (mapper ctx)) = dom (tr (plat_new_table P (physical_memory_offset bi + plat_cr3 P) (physical_memory_offset bi))) \<union>
       bitmap_page ` {..< (region_end (last (boot_memory_map bi)) + 32767) div 32768} \<union> heap_page ` {..<125}" using al'(3) by simp
    show "memory_map (allocator ctx) = boot_memory_map bi"
      "length (bitmap (allocator ctx)) = Suc (region_end (last (boot_memory_map bi)))" using st al' by simp_all
    show "length (usable_frames (boot_memory_map bi)) - 4 * ((region_end (last (boot_memory_map bi)) + 32767) div 32768) - 500 \<le>
       card (free_frames (allocator ctx))" using st(4) al'(4) by linarith
  qed (use stack in blast)+
qed

text \<open>
  C6. The kernel comes up: on a machine as \<open>boot_ok\<close> describes it \<^verbatim>\<open>init\<close> returns, without a panic, with
  interrupts enabled, every lock free, the handlers loaded and a stack for double faults; both PICs are
  programmed to the vectors the handlers are registered for and the timer ticks at 1000 Hz; every byte of
  the heap is backed by a writable page. From then on a timer interrupt is acknowledged and returns.
\<close>

theorem kernel_init_boots:
  assumes "boot_ok P tr bi"
    and "set_logger (plat_log P) lg = Inr (Inr (), lg1)" and "set_max_level (plat_log P) lg1 = Inr ((), lg2)"
    and "PICS s = controller_new PIC_1_OFFSET PIC_2_OFFSET" and "held s = {}" and "paging_ctx s = None"
  shows "\<exists>s' ctx. kernel_init P bi (lg, s) = Inr ((), lg2, s') \<and> interrupt_flag s' \<and> held s' = {} \<and>
     idtr (cpu s') = IDT \<and> interrupt_stack (cpu s') 8 = Some (plat_stack P + 20480) \<and>
     (\<forall>p. vector_offset (pic1_after (trace s') p) = PIC_1_OFFSET \<and> vector_offset (pic2_after (trace s') p) = PIC_2_OFFSET \<and>
        phase (pic1_after (trace s') p) = Ready \<and> phase (pic2_after (trace s') p) = Ready) \<and>
     (\<forall>p. 1193182 div pit_divisor (pit_after (trace s') p) = 1000) \<and>
     heap s' = \<lparr>heap_region = Some (HEAP_START, HEAP_SIZE), INITIALIZED = True\<rparr> \<and>
     paging_ctx s' = Some ctx \<and> allocator_inv (allocator ctx) \<and>
     (\<forall>a. HEAP_START \<le> a \<and> a < HEAP_START + HEAP_SIZE \<longrightarrow>
        (\<exists>f. tr (mapper ctx) (frame_addr (frame_no a)) = Some (f, {PRESENT, WRITABLE}))) \<and>
     timer_interrupt_handler s' = Inr ((), emits [PortOut 8 0x20 0x20] s')"
proof -
  obtain t ctx backing tables where
    run: "kernel_init P bi (lg, s) = Inr ((), lg2, (emits t s)\<lparr>interrupt_flag := True, paging_ctx := Some ctx,
       heap := \<lparr>heap_region = Some (HEAP_START, HEAP_SIZE), INITIALIZED = True\<rparr>, cpu := init_idt tables\<rparr>)"
    and stack: "\<forall>v. interrupt_stack (init_idt tables) v = (if v = 8 then Some (plat_stack P + 20480) else None)"
    and t: "\<exists>v1 v2. t = pic_init_events v1 v2 32 40 @ pit_init_events"
    and inv: "paging_inv (plat_crates P) (plat_mapper P) tr backing {} (Some ctx)"
    by (rule kernel_init_run [OF assms])
  let ?s' = "(emits t s)\<lparr>interrupt_flag := True, paging_ctx := Some ctx,
       heap := \<lparr>heap_region = Some (HEAP_START, HEAP_SIZE), INITIALIZED = True\<rparr>, cpu := init_idt tables\<rparr>"
  have "PICS ?s' = Pics 32 40" "held ?s' = {}"
    using assms(4,5) by (simp_all add: controller_new_def PIC_1_OFFSET_def PIC_2_OFFSET_def emits_def)
  then have "timer_interrupt_handler ?s' = Inr ((), emits [PortOut 8 0x20 0x20] ?s')"
    using timer_handler_run [of ?s']
    by (simp add: controller_ok_def PIC_1_OFFSET_def PIC_2_OFFSET_def end_of_interrupt_event_def)
  moreover obtain v1 v2 where "trace ?s' = trace s @ pic_init_events v1 v2 32 40 @ pit_init_events"
    using t by (auto simp: emits_def)
  note boot_events_program [OF this]
  moreover have "allocator_inv (allocator ctx)" using inv by (simp add: paging_inv_def paging_good_def)
  moreover have "\<exists>f. tr (mapper ctx) (frame_addr (frame_no a)) = Some (f, {PRESENT, WRITABLE})"
    if "HEAP_START \<le> a" "a < HEAP_START + HEAP_SIZE" for a
    using heap_byte_backed [OF inv that] by blast
  ultimately show ?thesis
    using run stack assms(5) by (intro exI [of _ ?s'] exI [of _ ctx]) (simp add: init_idt_def PIC_1_OFFSET_def PIC_2_OFFSET_def emits_def)
qed

section \<open>A machine that boots\<close>

text \<open>A region of 998 usable frames, devices up to a reserved frame, and page tables that map nothing yet.\<close>

definition boot_map_to :: "(translation, BootStrapAllocator) map_to_fn" where
  "boot_map_to alloc page frame flags m a =
     (case m page of
        Some (f, _) \<Rightarrow> Inr (Inl (PageAlreadyMapped f), m, a)
      | None \<Rightarrow> rbind (alloc a) (\<lambda>(t, a').
          case t of
            None \<Rightarrow> Inr (Inl FrameAllocationFailed, m, a')
          | Some _ \<Rightarrow> Inr (Inr (), m(page \<mapsto> (frame, flags)), a')))"

lemma boot_map_to_ok: "map_to_draws boot_map_to" "map_to_succeeds E boot_map_to dom"
proof -
  show "map_to_draws boot_map_to"
    unfolding map_to_draws_def
  proof (intro allI impI)
    fix alloc page frame flags m r m' and a a' :: BootStrapAllocator
    assume "boot_map_to alloc page frame flags m a = Inr (r, m', a')"
    then consider "a' = a" | f where "alloc a = Inr (Some f, a')" | "alloc a = Inr (None, a')"
      by (auto simp: boot_map_to_def res_iffs split: option.splits)
    then obtain fs where "alloc_run alloc a fs a'" "fs = [] \<or> length fs = 1"
      by cases (auto intro: alloc_run.intros dest: alloc_run_single alloc_run.run_none [OF _ run_done])
    then show "\<exists>fs. alloc_run alloc a fs a' \<and> length fs \<le> 3" by fastforce
  qed
  show "map_to_succeeds E boot_map_to dom"
    unfolding map_to_succeeds_def
  proof (intro allI impI, elim conjE)
    fix page frame flags and m :: translation and b
    assume b: "boot_good E b" "3 \<le> card (boot_avail b)" and page: "page \<notin> dom m"
    have "boot_avail b \<noteq> {}" using b(2) by auto
    from boot.alloc_progress [OF b(1) this] obtain f b' where "boot_allocate_frame E b = Inr (Some f, b')" .
    moreover have "m page = None" using page by auto
    ultimately show "\<exists>m' b'. boot_map_to (boot_allocate_frame E) page frame flags m b = Inr (Inr (), m', b') \<and>
        dom m' = insert page (dom m)" by (simp add: boot_map_to_def)
  qed
qed

definition example_boot_info :: BootInfo where
  "example_boot_info = \<lparr>physical_memory_offset = 0x100000, boot_memory_map =
     [\<lparr>region_range = \<lparr>start_frame_number = 2, end_frame_number = 1000\<rparr>, region_type = Usable\<rparr>,
      \<lparr>region_range = \<lparr>start_frame_number = 2000, end_frame_number = 2001\<rparr>, region_type = Reserved\<rparr>]\<rparr>"

definition example_platform :: "devices \<Rightarrow> (translation, unit, unit, unit) platform" where
  "example_platform D =
     \<lparr>plat_crates = std_crates, plat_console = example_console, plat_devices = D, plat_mapper = flat_mapper,
      plat_boot_map_to = boot_map_to, plat_new_table = (\<lambda>_ _. Map.empty), plat_memory = (\<lambda>_. 0), plat_cr3 = 0x1000,
      plat_selector = example_selector, plat_stack = 0x10000,
      plat_log = \<lparr>set_logger = (\<lambda>s. Inr (Inr (), s)), set_max_level = (\<lambda>s. Inr ((), s))\<rparr>\<rparr>"

lemma example_boot_ok: "boot_ok (example_platform D) (\<lambda>m. m) example_boot_info"
proof -
  have mm: "map_ok (boot_memory_map example_boot_info)"
    by (simp add: example_boot_info_def map_ok_def region_start_def region_end_def usable_frames_def strict_sorted_iff)
  have "raw_used (\<lambda>_. 0) (boot_memory_map example_boot_info) = {}"
    by (auto simp: raw_used_def used_frames_def is_used_eq in_bitmap_def bitmap_slice_def example_boot_info_def split: if_splits)
  with mm show ?thesis
    using boot_map_to_ok flat_mapper_ok flat_mapper_works [OF std_crates_ok] std_crates_ok
    by (simp add: boot_ok_def Let_def example_platform_def example_selector_def)
       (simp add: example_boot_info_def usable_frames_def region_end_def region_start_def withheld_def)
qed

theorem kernel_init_boots_witness:
  "\<exists>s'. kernel_init (example_platform pic_devices) example_boot_info ((), example_kernel) = Inr ((), (), s') \<and>
     interrupt_flag s' \<and> INITIALIZED (heap s')"
proof -
  have "PICS example_kernel = controller_new PIC_1_OFFSET PIC_2_OFFSET" "held example_kernel = {}" "paging_ctx example_kernel = None"
    by (simp_all add: example_kernel_def controller_new_def PIC_1_OFFSET_def PIC_2_OFFSET_def)
  with kernel_init_boots [OF example_boot_ok, of pic_devices "()" "()" "()" example_kernel] show ?thesis
    by (auto simp: example_platform_def)
qed

text \<open>What this machine is like once it is up.\<close>

lemma example_boot_run:
  assumes "PICS s = controller_new PIC_1_OFFSET PIC_2_OFFSET" and "held s = {}" and "paging_ctx s = None"
  obtains t ctx tables backing where
    "kernel_init (example_platform D) example_boot_info ((), s) = Inr ((), (), (emits t s)\<lparr>interrupt_flag := True,
       paging_ctx := Some ctx, heap := \<lparr>heap_region = Some (HEAP_START, HEAP_SIZE), INITIALIZED = True\<rparr>,
       cpu := init_idt tables\<rparr>)"
    and "paging_inv std_crates flat_mapper (\<lambda>m. m) backing {} (Some ctx)" and "494 \<le> card (free_frames (allocator ctx))"
    and "memory_map (allocator ctx) = boot_memory_map example_boot_info" and "length (bitmap (allocator ctx)) = 2002"
    and "\<forall>p. unat p < 0x444444440000 \<longrightarrow> mapper ctx p = None"
proof -
  have log: "set_logger (plat_log (example_platform D)) () = Inr (Inr (), ())" "set_max_level (plat_log (example_platform D)) () = Inr ((), ())"
    by (simp_all add: example_platform_def)
  have low: "p \<notin> bitmap_page ` {..<1}" "p \<notin> heap_page ` {..<125}" if "unat p < 0x444444440000" for p
    using that bitmap_page_step(3) [of 0] unat_heap_page by (auto simp: lessThan_Suc)
  obtain t ctx backing tables where
    run: "kernel_init (example_platform D) example_boot_info ((), s) = Inr ((), (), (emits t s)\<lparr>interrupt_flag := True,
       paging_ctx := Some ctx, heap := \<lparr>heap_region = Some (HEAP_START, HEAP_SIZE), INITIALIZED = True\<rparr>,
       cpu := init_idt tables\<rparr>)"
    and "\<forall>v. interrupt_stack (init_idt tables) v = (if v = 8 then Some (plat_stack (example_platform D) + 20480) else None)"
    and "\<exists>v1 v2. t = pic_init_events v1 v2 32 40 @ pit_init_events"
    and inv: "paging_inv (plat_crates (example_platform D)) (plat_mapper (example_platform D)) (\<lambda>m. m) backing {} (Some ctx)"
    and mm: "memory_map (allocator ctx) = boot_memory_map example_boot_info"
    and len: "length (bitmap (allocator ctx)) = Suc (region_end (last (boot_memory_map example_boot_info)))"
    and pages: "dom (mapper ctx) = dom (plat_new_table (example_platform D) (physical_memory_offset example_boot_info +
         plat_cr3 (example_platform D)) (physical_memory_offset example_boot_info)) \<union>
       bitmap_page ` {..< (region_end (last (boot_memory_map example_boot_info)) + 32767) div 32768} \<union> heap_page ` {..<125}"
    and free: "length (usable_frames (boot_memory_map example_boot_info)) -
         4 * ((region_end (last (boot_memory_map example_boot_info)) + 32767) div 32768) - 500 \<le> card (free_frames (allocator ctx))"
    by (rule kernel_init_run [OF example_boot_ok log assms])
  show thesis
  proof (rule that [OF run])
    show "paging_inv std_crates flat_mapper (\<lambda>m. m) backing {} (Some ctx)" using inv by (simp add: example_platform_def)
    show "494 \<le> card (free_frames (allocator ctx))" "length (bitmap (allocator ctx)) = 2002"
      using free len by (simp_all add: example_boot_info_def region_end_def usable_frames_def)
    have "mapper ctx p = None" if "unat p < 0x444444440000" for p
      using pages low [OF that] by (auto simp: example_boot_info_def region_end_def example_platform_def dom_def)
    then show "\<forall>p. unat p < 0x444444440000 \<longrightarrow> mapper ctx p = None" by blast
  qed (rule mm)
qed

section \<open>Running the tests\<close>

lemma sends_for_eff:
  assumes "list_all2 (\<lambda>x t. sends sent t (f x)) xs ts"
  shows "sends sent (concat ts) (for_eff f xs)"
  using assms by (induction rule: list_all2_induct) (simp_all add: sends_ret sends_ret [unfolded ret_def] sends_bnd)

lemma sends_test_run:
  assumes "interrupts_off (without_interrupts C)" and "uart_ok C sent" and "sends sent out (snd t)"
  shows "sends sent (fst t @ bytes ''...'' @ [9] @ out @ bytes ''[ok]'' @ [10]) (test_run C t)"
  using sends_bnd [OF sends_serial_print [OF assms(1,2), of "[fst t, bytes ''...'' @ [9]]"]
      sends_bnd [OF assms(3) sends_serial_println [OF assms(1,2), of "[bytes ''[ok]'']"]]]
  by (simp add: test_run_def)

text \<open>
  The test runner reports every test and then leaves the emulator with the code for success: when
  every test returns, writing nothing but its own output, the serial line carries the number of tests, then
  for each test its name, its output and \<^verbatim>\<open>[ok]\<close>, in order, and the last access is the write of 0x10 to the
  exit port, which the emulator turns into the status \<open>2 * 0x10 + 1 = 33\<close> that the build expects.
\<close>

theorem test_runner_reports:
  assumes "interrupts_off (without_interrupts C)" and "uart_ok C sent"
    and "list_all2 (\<lambda>t out. sends sent out (snd t)) tests outs" and "SERIAL1_lock \<notin> held s"
  shows "\<exists>sp u. test_runner C tests s = Inr ((), (emits (u @ [PortOut 32 0xF4 0x10]) s)\<lparr>SERIAL1 := sp\<rparr>) \<and>
     sent (trace s @ u) = sent (trace s) @ serial_bytes
       (bytes ''Running '' @ decimal (length tests) @ bytes '' tests'' @ [10] @
        concat (map2 (\<lambda>t out. fst t @ bytes ''...'' @ [9] @ out @ bytes ''[ok]'' @ [10]) tests outs)) \<and>
     2 * unat (QemuExitCode_as_u32 QemuSuccess) + 1 = 33"
proof -
  let ?line = "\<lambda>t out. fst t @ bytes ''...'' @ [9] @ out @ bytes ''[ok]'' @ [10]"
  have "list_all2 (\<lambda>t l. sends sent l (test_run C t)) tests (map2 ?line tests outs)"
    using assms(3) sends_test_run [OF assms(1,2)] by (auto simp: list_all2_conv_all_nth)
  from sends_bnd [OF sends_serial_println [OF assms(1,2), of "[bytes ''Running '', decimal (length tests), bytes '' tests'']"]
      sends_for_eff [OF this]] assms(4)
  obtain sp u where "bnd (serial_println C [bytes ''Running '', decimal (length tests), bytes '' tests'']) (\<lambda>_. for_eff (test_run C) tests) s =
      Inr ((), (emits u s)\<lparr>SERIAL1 := sp\<rparr>)"
    "sent (trace s @ u) = sent (trace s) @ serial_bytes
       ((concat [bytes ''Running '', decimal (length tests), bytes '' tests''] @ [10]) @ concat (map2 ?line tests outs))"
    unfolding sends_def by blast
  then show ?thesis
    by (intro exI [of _ sp] exI [of _ u])
       (auto simp: test_runner_def exit_qemu_def QemuExitCode_as_u32_def bnd_eq_Inr_iff access_runs emits_def)
qed

theorem test_runner_reports_witness:
  "\<exists>sp u. test_runner example_console [(bytes ''t'', ret ())] example_kernel =
     Inr ((), (emits (u @ [PortOut 32 0xF4 0x10]) example_kernel)\<lparr>SERIAL1 := sp\<rparr>)"
proof -
  have "list_all2 (\<lambda>t out. sends line_bytes out (snd t)) [(bytes ''t'', ret ())] [[]]" by (simp add: sends_ret sends_ret [unfolded ret_def])
  moreover have "SERIAL1_lock \<notin> held example_kernel" by (simp add: example_kernel_def)
  ultimately show ?thesis using test_runner_reports [OF example_console_ok] by blast
qed

end
