(* ===== verification/Registers.thy ===== *)
theory Registers
  imports Hardware
begin

text \<open>
  The interface of a bank of registers behind an index register and a data register: PCI
  configuration space behind \<^verbatim>\<open>CONFIG_ADDRESS\<close> and \<^verbatim>\<open>CONFIG_DATA\<close>, and the registers of an I/O APIC
  behind its two memory windows. The locale \<open>register_bank\<close> states what the drivers rely on; the
  device specification \<open>bank_step\<close> is shared by both devices.
\<close>

section \<open>Device specification\<close>

text \<open>
  The device latches an index and holds a word per index. \<open>upd i old v\<close> is what register \<open>i\<close> holds
  after \<open>v\<close> is written to it, so read-only bits are covered.
\<close>

record ('i, 'v) bank =
  selected :: 'i
  contents :: "'i \<Rightarrow> 'v"

definition bank_step ::
    "(io_event \<Rightarrow> 'i option) \<Rightarrow> (io_event \<Rightarrow> 'v option) \<Rightarrow> ('i \<Rightarrow> 'v \<Rightarrow> 'v \<Rightarrow> 'v) \<Rightarrow>
     io_event \<Rightarrow> ('i, 'v) bank \<Rightarrow> ('i, 'v) bank" where
  "bank_step select data upd e b =
     (case select e of
        Some i \<Rightarrow> b\<lparr>selected := i\<rparr>
      | None \<Rightarrow>
          (case data e of
             Some v \<Rightarrow> b\<lparr>contents := (contents b)(selected b := upd (selected b) (contents b (selected b)) v)\<rparr>
           | None \<Rightarrow> b))"

section \<open>Interface\<close>

locale register_bank =
  fixes reg_read :: "'i \<Rightarrow> ('s, 'v) eff"
    and reg_write :: "'i \<Rightarrow> 'v \<Rightarrow> ('s, unit) eff"
    and regs :: "'s \<Rightarrow> 'i \<Rightarrow> 'v"
    and upd :: "'i \<Rightarrow> 'v \<Rightarrow> 'v \<Rightarrow> 'v"
    and good :: "'s \<Rightarrow> bool"
    and valid :: "'i \<Rightarrow> bool"
  assumes read_law: "good s \<Longrightarrow> valid i \<Longrightarrow>
      \<exists>s'. reg_read i s = Inr (regs s i, s') \<and> good s' \<and> regs s' = regs s"
    and write_law: "good s \<Longrightarrow> valid i \<Longrightarrow>
      \<exists>s'. reg_write i v s = Inr ((), s') \<and> good s' \<and> regs s' = (regs s)(i := upd i (regs s i) v)"
begin

lemma read_cases:
  assumes "good s" and "valid i"
  obtains s' where "reg_read i s = Inr (regs s i, s')" and "good s'" and "regs s' = regs s"
  using read_law [OF assms] by blast

lemma write_cases:
  assumes "good s" and "valid i"
  obtains s' where "reg_write i v s = Inr ((), s')" and "good s'"
    and "regs s' = (regs s)(i := upd i (regs s i) v)"
  using write_law [OF assms] by blast

text \<open>Two registers read or written one after the other.\<close>

lemma read_pair:
  assumes "good s" and "valid i" and "valid j"
  obtains s' where "bnd (reg_read i) (\<lambda>a. bnd (reg_read j) (\<lambda>b. ret (f a b))) s =
      Inr (f (regs s i) (regs s j), s')" and "good s'" and "regs s' = regs s"
proof -
  obtain s1 where 1: "reg_read i s = Inr (regs s i, s1)" "good s1" "regs s1 = regs s"
    using assms(1,2) by (rule read_cases)
  obtain s2 where 2: "reg_read j s1 = Inr (regs s1 j, s2)" "good s2" "regs s2 = regs s1"
    using 1(2) assms(3) by (rule read_cases)
  from 1 2 show thesis by (intro that [of s2]) (simp_all add: res_simps)
qed

lemma write_pair:
  assumes "good s" and "valid i" and "valid j" and "i \<noteq> j"
  obtains s' where "bnd (reg_write i v) (\<lambda>_. reg_write j w) s = Inr ((), s')" and "good s'"
    and "regs s' = (regs s)(i := upd i (regs s i) v, j := upd j (regs s j) w)"
proof -
  obtain s1 where 1: "reg_write i v s = Inr ((), s1)" "good s1"
    "regs s1 = (regs s)(i := upd i (regs s i) v)" using assms(1,2) by (rule write_cases)
  obtain s2 where 2: "reg_write j w s1 = Inr ((), s2)" "good s2"
    "regs s2 = (regs s1)(j := upd j (regs s1 j) w)" using 1(2) assms(3) by (rule write_cases)
  from 1 2 assms(4) show thesis by (intro that [of s2]) (simp_all add: res_simps)
qed

text \<open>A loop that only reads registers: every step sees the same register contents.\<close>

lemma for_each_reads:
  assumes "good s"
    and "\<And>x acc s. x \<in> set xs \<Longrightarrow> good s \<Longrightarrow>
      \<exists>s'. f x (acc, s) = Inr (g (regs s) x acc, s') \<and> good s' \<and> regs s' = regs s"
  shows "\<exists>s'. for_each f xs (acc, s) = Inr (fold (g (regs s)) xs acc, s') \<and> good s' \<and> regs s' = regs s"
  using assms
proof (induction xs arbitrary: acc s)
  case (Cons x xs)
  from Cons.prems(2) [of x s acc] Cons.prems(1) obtain s1 where
    1: "f x (acc, s) = Inr (g (regs s) x acc, s1)" "good s1" "regs s1 = regs s" by auto
  from Cons.IH [OF 1(2), of "g (regs s) x acc"] Cons.prems(2) 1(3) obtain s2 where
    "for_each f xs (g (regs s) x acc, s1) = Inr (fold (g (regs s)) xs (g (regs s) x acc), s2)"
    "good s2" "regs s2 = regs s" by auto
  with 1 show ?case by auto
qed auto

end

end
