(* ===== verification/Redirection.thy ===== *)
theory Redirection
  imports Registers
begin

text \<open>
  The redirection entries and the registers of an I/O APIC: \<^verbatim>\<open>RedirEntry\<close>, \<^verbatim>\<open>IOApic\<close> and
  \<^verbatim>\<open>RedirEntryIter\<close> of \<^verbatim>\<open>src/apic.rs\<close>. An entry is its 64-bit word. The four flag setters toggle
  the bit before they set it; the locale \<open>toggled_bit\<close> states this once and is interpreted for each
  of them.
\<close>

section \<open>Entries\<close>

type_synonym RedirEntry = u64

datatype DeliveryMode = Normal | LowPriority | SMInterrupt | NMInterrupt | Init | External | Reserved

definition RedirEntry_new :: "u8 \<Rightarrow> RedirEntry" where
  "RedirEntry_new vec = ucast vec"

definition vector :: "RedirEntry \<Rightarrow> u8" where
  "vector self = ucast (self AND 0xFF)"

definition set_vector :: "RedirEntry \<Rightarrow> u8 \<Rightarrow> RedirEntry" where
  "set_vector self vec = self OR ucast vec"

definition delivery_mode :: "RedirEntry \<Rightarrow> DeliveryMode" where
  "delivery_mode self =
     (let bits = drop_bit 8 self AND 7
      in if bits = 0 then Normal
         else if bits = 1 then LowPriority
         else if bits = 2 then SMInterrupt
         else if bits = 4 then NMInterrupt
         else if bits = 5 then Init
         else if bits = 7 then External
         else Reserved)"

definition delivery_bits :: "DeliveryMode \<Rightarrow> u64 res" where
  "delivery_bits m =
     (case m of
        Normal \<Rightarrow> Inr 0 | LowPriority \<Rightarrow> Inr 1 | SMInterrupt \<Rightarrow> Inr 2 | NMInterrupt \<Rightarrow> Inr 4
      | Init \<Rightarrow> Inr 5 | External \<Rightarrow> Inr 7 | Reserved \<Rightarrow> Inl (ExplicitPanic ''Cannot use a reserved mode''))"

definition set_delivery_mode :: "RedirEntry \<Rightarrow> DeliveryMode \<Rightarrow> RedirEntry res" where
  "set_delivery_mode self m =
     rbind (delivery_bits m) (\<lambda>bits. Inr ((self XOR push_bit 8 7) OR push_bit 8 bits))"

definition logical_mode :: "RedirEntry \<Rightarrow> bool" where
  "logical_mode self = (let b = drop_bit 11 self AND 1 in b \<noteq> 0)"

definition set_logical_mode :: "RedirEntry \<Rightarrow> bool \<Rightarrow> RedirEntry" where
  "set_logical_mode self m = (self XOR push_bit 11 1) OR push_bit 11 (of_bool m)"

definition is_busy :: "RedirEntry \<Rightarrow> bool" where
  "is_busy self = (let b = drop_bit 12 self AND 1 in b \<noteq> 0)"

definition low_is_active :: "RedirEntry \<Rightarrow> bool" where
  "low_is_active self = (let b = drop_bit 13 self AND 1 in b \<noteq> 0)"

definition set_low_is_active :: "RedirEntry \<Rightarrow> bool \<Rightarrow> RedirEntry" where
  "set_low_is_active self m = (self XOR push_bit 13 1) OR push_bit 13 (of_bool m)"

definition lapic_responded :: "RedirEntry \<Rightarrow> bool" where
  "lapic_responded self = (let b = drop_bit 14 self AND 1 in b = 0)"

definition level_sensitive :: "RedirEntry \<Rightarrow> bool" where
  "level_sensitive self = (let b = drop_bit 15 self AND 1 in b \<noteq> 0)"

definition set_level_sensitive :: "RedirEntry \<Rightarrow> bool \<Rightarrow> RedirEntry" where
  "set_level_sensitive self m = (self XOR push_bit 15 1) OR push_bit 15 (of_bool m)"

definition masked :: "RedirEntry \<Rightarrow> bool" where
  "masked self = (let b = drop_bit 16 self AND 1 in b \<noteq> 0)"

definition set_masked :: "RedirEntry \<Rightarrow> bool \<Rightarrow> RedirEntry" where
  "set_masked self m = (self XOR push_bit 16 1) OR push_bit 16 (of_bool m)"

definition destination_id :: "RedirEntry \<Rightarrow> u8" where
  "destination_id self = ucast (drop_bit 56 self AND 0xF)"

text \<open>The fields that the \<^verbatim>\<open>Debug\<close> implementation prints, in order.\<close>

datatype debug_value = DebugByte u8 | DebugMode DeliveryMode | DebugText string | DebugBool bool

definition RedirEntry_debug :: "RedirEntry \<Rightarrow> (string \<times> debug_value) list" where
  "RedirEntry_debug self =
     [(''vector'', DebugByte (vector self)),
      (''delivery_mode'', DebugMode (delivery_mode self)),
      (''destinantion_mode'', DebugText (if logical_mode self then ''logical'' else ''physical'')),
      (''polarity'', DebugText (if low_is_active self then ''Low is active'' else ''High is active'')),
      (''lapic_responded'', DebugBool (lapic_responded self)),
      (''trigger_mode'', DebugText (if level_sensitive self then ''level'' else ''edge'')),
      (''masked'', DebugBool (masked self)),
      (''destination'', DebugByte (destination_id self))]"

section \<open>Flags\<close>

locale toggled_bit =
  fixes get :: "RedirEntry \<Rightarrow> bool" and set :: "RedirEntry \<Rightarrow> bool \<Rightarrow> RedirEntry" and k :: nat
  assumes get_law: "get e \<longleftrightarrow> bit e k"
    and set_law: "set e m = (e XOR push_bit k 1) OR push_bit k (of_bool m)"
    and in_word: "k < 64"
begin

lemma bit_set: "bit (set e m) n \<longleftrightarrow> (if n = k then m \<or> \<not> bit e k else bit e n)"
proof -
  have "bit (push_bit k (of_bool b) :: u64) n \<longleftrightarrow> n = k \<and> b" for b
    using in_word by (cases b) (auto simp: bit_simps simp del: push_bit_of_1)
  from this [of True] this [of m] show ?thesis
    by (auto simp: set_law bit_or_iff bit_xor_iff simp del: push_bit_of_1)
qed

lemma get_set: "get (set e m) \<longleftrightarrow> m \<or> \<not> get e"
  by (simp add: get_law bit_set)

lemma set_keeps: "n \<noteq> k \<Longrightarrow> bit (set e m) n \<longleftrightarrow> bit e n"
  by (simp add: bit_set)

text \<open>The setter does what it is asked exactly if it is asked for true or the bit was set.\<close>

lemma set_right_iff: "get (set e m) = m \<longleftrightarrow> m \<or> get e"
  by (auto simp: get_set)

end

lemma flag_bit: "drop_bit k e AND 1 \<noteq> 0 \<longleftrightarrow> bit (e :: u64) k"
  by (simp add: and_one_eq mod2_eq_if bit_iff_odd_drop_bit)

interpretation mask_bit: toggled_bit masked set_masked 16
  by unfold_locales (simp_all add: masked_def set_masked_def Let_def flag_bit)

interpretation logical_bit: toggled_bit logical_mode set_logical_mode 11
  by unfold_locales (simp_all add: logical_mode_def set_logical_mode_def Let_def flag_bit)

interpretation polarity_bit: toggled_bit low_is_active set_low_is_active 13
  by unfold_locales (simp_all add: low_is_active_def set_low_is_active_def Let_def flag_bit)

interpretation trigger_bit: toggled_bit level_sensitive set_level_sensitive 15
  by unfold_locales (simp_all add: level_sensitive_def set_level_sensitive_def Let_def flag_bit)

section \<open>Vector and delivery mode\<close>

lemma vector_set_vector: "vector (set_vector e v) = vector e OR v"
  by (rule bit_word_eqI) (auto simp: vector_def set_vector_def bit_simps low_masks)

lemma vector_set_masked: "vector (set_masked e m) = vector e"
  by (rule bit_word_eqI) (auto simp: vector_def mask_bit.bit_set bit_simps low_masks)

lemma masked_set_vector: "masked (set_vector e v) = masked e"
  by (auto simp: mask_bit.get_law set_vector_def bit_simps dest: bit_imp_le_length)

lemma delivery_field:
  "drop_bit 8 ((e XOR push_bit 8 7) OR push_bit 8 b) AND 7 =
     (NOT (drop_bit 8 e AND 7) OR b) AND (7 :: u64)"
  by (rule bit_word_eqI) (auto simp: bit_simps low_masks simp del: push_bit_numeral)

section \<open>The registers of an I/O APIC\<close>

record IOApic =
  ioapic_address :: u64
  ioapic_base_interrupt :: u8

definition read_reg :: "devices \<Rightarrow> IOApic \<Rightarrow> u8 \<Rightarrow> ('z hw_scheme, u32) eff" where
  "read_reg D self reg =
     (let address_reg = ioapic_address self
      in bnd (lift_res (checked_add (ioapic_address self) 0x10)) (\<lambda>data_reg.
         bnd (write_volatile address_reg (ucast reg :: u32)) (\<lambda>_.
         read_volatile D data_reg)))"

definition write_reg :: "IOApic \<Rightarrow> u8 \<Rightarrow> u32 \<Rightarrow> ('z hw_scheme, unit) eff" where
  "write_reg self reg val =
     (let address_reg = ioapic_address self
      in bnd (lift_res (checked_add (ioapic_address self) 0x10)) (\<lambda>data_reg.
         bnd (write_volatile address_reg (ucast reg :: u32)) (\<lambda>_.
         write_volatile data_reg val)))"

definition ioapic_id :: "devices \<Rightarrow> IOApic \<Rightarrow> ('z hw_scheme, u8) eff" where
  "ioapic_id D self = bnd (read_reg D self 0x00) (\<lambda>res. ret (ucast (drop_bit 24 res AND 0xF)))"

definition ioapic_version :: "devices \<Rightarrow> IOApic \<Rightarrow> ('z hw_scheme, u8) eff" where
  "ioapic_version D self = bnd (read_reg D self 0x01) (\<lambda>res. ret (ucast (res AND 0xff)))"

definition redir_entry_count :: "devices \<Rightarrow> IOApic \<Rightarrow> ('z hw_scheme, u8) eff" where
  "redir_entry_count D self = bnd (read_reg D self 0x01) (\<lambda>res. ret (ucast (drop_bit 16 res AND 0xFF)))"

definition arbitration_priority :: "devices \<Rightarrow> IOApic \<Rightarrow> ('z hw_scheme, u8) eff" where
  "arbitration_priority D self = bnd (read_reg D self 0x02) (\<lambda>res. ret (ucast (drop_bit 24 res AND 0xF)))"

text \<open>\<^verbatim>\<open>reg + idx * 2\<close> on \<^verbatim>\<open>u8\<close>.\<close>

definition redir_reg :: "u8 \<Rightarrow> u8 \<Rightarrow> u8 res" where
  "redir_reg reg idx = rbind (checked_mul idx 2) (checked_add reg)"

definition redir_entry :: "devices \<Rightarrow> IOApic \<Rightarrow> u8 \<Rightarrow> ('z hw_scheme, RedirEntry) eff" where
  "redir_entry D self idx =
     bnd (redir_entry_count D self) (\<lambda>count.
     if count \<le> idx then lift_res (Inl (ExplicitPanic ''Out of bounds''))
     else
       bnd (lift_res (redir_reg 0x10 idx)) (\<lambda>low_reg.
       bnd (read_reg D self low_reg) (\<lambda>low.
       bnd (lift_res (redir_reg 0x11 idx)) (\<lambda>high_reg.
       bnd (read_reg D self high_reg) (\<lambda>high.
       ret (push_bit 32 (ucast high) OR ucast low))))))"

definition set_redir_entry :: "IOApic \<Rightarrow> u8 \<Rightarrow> RedirEntry \<Rightarrow> ('z hw_scheme, unit) eff" where
  "set_redir_entry self idx entry =
     bnd (lift_res (redir_reg 0x10 idx)) (\<lambda>low_reg.
     bnd (write_reg self low_reg (ucast entry)) (\<lambda>_.
     bnd (lift_res (redir_reg 0x11 idx)) (\<lambda>high_reg.
     write_reg self high_reg (ucast (drop_bit 32 entry)))))"

text \<open>The iterator holds an index and a reference to its I/O APIC.\<close>

record RedirEntryIter =
  iter_idx :: u8
  iter_ioapic :: IOApic

definition redir_entry_iter :: "IOApic \<Rightarrow> RedirEntryIter" where
  "redir_entry_iter self = \<lparr>iter_idx = 0, iter_ioapic = self\<rparr>"

definition redir_iter_next ::
    "devices \<Rightarrow> RedirEntryIter \<Rightarrow> ('z hw_scheme, RedirEntry option \<times> RedirEntryIter) eff" where
  "redir_iter_next D self =
     bnd (redir_entry_count D (iter_ioapic self)) (\<lambda>count.
     if iter_idx self = count then ret (None, self)
     else
       bnd (redir_entry D (iter_ioapic self) (iter_idx self)) (\<lambda>res.
       bnd (lift_res (checked_add (iter_idx self) 1)) (\<lambda>idx.
       ret (Some res, self\<lparr>iter_idx := idx\<rparr>))))"

lemma only_emits_regs [emits_intros]: "only_emits (read_reg D self reg)" "only_emits (write_reg self reg v)"
  unfolding read_reg_def write_reg_def Let_def by (intro emits_intros)+

lemma only_emits_entries [emits_intros]:
  "only_emits (redir_entry_count D self)" "only_emits (redir_entry D self idx)" "only_emits (set_redir_entry self idx e)"
  unfolding redir_entry_count_def redir_entry_def set_redir_entry_def by (intro emits_intros)+

section \<open>The device\<close>

text \<open>
  The device latches the low byte of a write to its first window as the index and accesses that
  register through the window at offset \<open>0x10\<close>.
\<close>

definition ioapic_select :: "IOApic \<Rightarrow> io_event \<Rightarrow> u8 option" where
  "ioapic_select self e =
     (case e of
        Store n a v \<Rightarrow> if n = 32 \<and> a = ioapic_address self then Some (word_of_nat v) else None
      | _ \<Rightarrow> None)"

definition ioapic_data :: "IOApic \<Rightarrow> io_event \<Rightarrow> u32 option" where
  "ioapic_data self e =
     (case e of
        Store n a v \<Rightarrow> if n = 32 \<and> a = ioapic_address self + 0x10 then Some (word_of_nat v) else None
      | _ \<Rightarrow> None)"

definition ioapic_after ::
    "IOApic \<Rightarrow> (u8 \<Rightarrow> u32 \<Rightarrow> u32 \<Rightarrow> u32) \<Rightarrow> (u8, u32) bank \<Rightarrow> io_event list \<Rightarrow> (u8, u32) bank" where
  "ioapic_after self upd b t = fold (bank_step (ioapic_select self) (ioapic_data self) upd) t b"

definition has_ioapic ::
    "devices \<Rightarrow> IOApic \<Rightarrow> (u8 \<Rightarrow> u32 \<Rightarrow> u32 \<Rightarrow> u32) \<Rightarrow> (u8, u32) bank \<Rightarrow> bool" where
  "has_ioapic D self upd b \<longleftrightarrow>
     unat (ioapic_address self) + 0x10 < 2 ^ 64 \<and>
     (\<forall>t. load_answer D t 32 (ioapic_address self + 0x10) =
        unat (contents (ioapic_after self upd b t) (selected (ioapic_after self upd b t))))"

definition ioapic_regs ::
    "IOApic \<Rightarrow> (u8 \<Rightarrow> u32 \<Rightarrow> u32 \<Rightarrow> u32) \<Rightarrow> (u8, u32) bank \<Rightarrow> 'z hw_scheme \<Rightarrow> u8 \<Rightarrow> u32" where
  "ioapic_regs self upd b s = contents (ioapic_after self upd b (trace s))"

interpretation io: register_bank "read_reg D self" "write_reg self" "ioapic_regs self upd b" upd
    "\<lambda>_. has_ioapic D self upd b" "\<lambda>_. True" for D self upd b
proof unfold_locales
  fix s :: "'a hw_scheme" and i :: u8 and v :: u32
  assume D: "has_ioapic D self upd b"
  then have c: "checked_add (ioapic_address self) 0x10 = Inr (ioapic_address self + 0x10)"
    by (simp add: has_ioapic_def checked_add_def)
  have i: "word_of_nat (unat (ucast i :: u32)) = i"
    by (simp add: unsigned_ucast_eq take_bit_nat_eq_self order_less_le_trans [OF unsigned_less])
  show "\<exists>s'. read_reg D self i s = Inr (ioapic_regs self upd b s i, s') \<and> has_ioapic D self upd b \<and>
      ioapic_regs self upd b s' = ioapic_regs self upd b s"
    using D i by (simp add: read_reg_def c res_simps Let_def has_ioapic_def ioapic_regs_def ioapic_after_def
        bank_step_def ioapic_select_def ioapic_data_def)
  show "\<exists>s'. write_reg self i v s = Inr ((), s') \<and> has_ioapic D self upd b \<and>
      ioapic_regs self upd b s' = (ioapic_regs self upd b s)(i := upd i (ioapic_regs self upd b s i) v)"
    using D i by (simp add: write_reg_def c res_simps Let_def ioapic_regs_def ioapic_after_def
        bank_step_def ioapic_select_def ioapic_data_def)
qed

text \<open>The last entry that the version register reports, and the entry that the registers hold.\<close>

definition entry_limit :: "(u8 \<Rightarrow> u32) \<Rightarrow> u8" where
  "entry_limit r = ucast (drop_bit 16 (r 1) AND 0xFF)"

definition entry_at :: "(u8 \<Rightarrow> u32) \<Rightarrow> u8 \<Rightarrow> RedirEntry" where
  "entry_at r idx = push_bit 32 (ucast (r (0x11 + idx * 2))) OR ucast (r (0x10 + idx * 2))"

lemma redir_reg_eq:
  "redir_reg 0x10 idx = (if unat idx < 120 then Inr (0x10 + idx * 2) else Inl ArithmeticOverflow)"
  "redir_reg 0x11 idx = (if unat idx < 120 then Inr (0x11 + idx * 2) else Inl ArithmeticOverflow)"
  by (auto simp: redir_reg_def checked_mul_def checked_add_def unat_word_ariths)

lemma count_run:
  assumes "has_ioapic D self upd b"
  obtains s' where "redir_entry_count D self s = Inr (entry_limit (ioapic_regs self upd b s), s')"
    and "ioapic_regs self upd b s' = ioapic_regs self upd b s"
proof -
  obtain s' where "read_reg D self 1 s = Inr (ioapic_regs self upd b s 1, s')"
    "ioapic_regs self upd b s' = ioapic_regs self upd b s" by (rule io.read_cases [OF assms TrueI])
  then show thesis by (intro that [of s']) (simp_all add: redir_entry_count_def res_simps entry_limit_def)
qed

text \<open>The behaviour of \<^verbatim>\<open>redir_entry\<close> on every branch.\<close>

lemma redir_entry_run:
  assumes D: "has_ioapic D self upd b"
  obtains s' where "redir_entry D self idx s =
      (if entry_limit (ioapic_regs self upd b s) \<le> idx then Inl (ExplicitPanic ''Out of bounds'')
       else if unat idx < 120 then Inr (entry_at (ioapic_regs self upd b s) idx, s')
       else Inl ArithmeticOverflow)"
    and "ioapic_regs self upd b s' = ioapic_regs self upd b s"
proof -
  let ?r = "ioapic_regs self upd b"
  obtain s1 where 1: "redir_entry_count D self s = Inr (entry_limit (?r s), s1)" "?r s1 = ?r s"
    using D by (rule count_run)
  obtain s2 where "bnd (read_reg D self (0x10 + idx * 2)) (\<lambda>low. bnd (read_reg D self (0x11 + idx * 2))
      (\<lambda>high. ret (push_bit 32 (ucast high) OR ucast low :: RedirEntry))) s1 =
      Inr (push_bit 32 (ucast (?r s1 (0x11 + idx * 2))) OR ucast (?r s1 (0x10 + idx * 2)), s2)" "?r s2 = ?r s1"
    by (rule io.read_pair [OF D TrueI TrueI, where f = "\<lambda>low high. push_bit 32 (ucast high) OR ucast low"])
  with 1 show thesis
    by (intro that [of s2]) (simp_all add: redir_entry_def res_simps redir_reg_eq entry_at_def)
qed

lemma set_redir_entry_run:
  assumes D: "has_ioapic D self upd b" and idx: "unat idx < 120"
  obtains s' where "set_redir_entry self idx e s = Inr ((), s')"
    and "ioapic_regs self upd b s' = (ioapic_regs self upd b s)
      (0x10 + idx * 2 := upd (0x10 + idx * 2) (ioapic_regs self upd b s (0x10 + idx * 2)) (ucast e),
       0x11 + idx * 2 := upd (0x11 + idx * 2) (ioapic_regs self upd b s (0x11 + idx * 2)) (ucast (drop_bit 32 e)))"
proof -
  have "0x10 + idx * 2 \<noteq> 0x11 + idx * 2" by simp
  from io.write_pair [OF D TrueI TrueI this, of "ucast e" "ucast (drop_bit 32 e)" s] obtain s' where
    "bnd (write_reg self (0x10 + idx * 2) (ucast e)) (\<lambda>_. write_reg self (0x11 + idx * 2) (ucast (drop_bit 32 e))) s =
      Inr ((), s')" "ioapic_regs self upd b s' = (ioapic_regs self upd b s)
      (0x10 + idx * 2 := upd (0x10 + idx * 2) (ioapic_regs self upd b s (0x10 + idx * 2)) (ucast e),
       0x11 + idx * 2 := upd (0x11 + idx * 2) (ioapic_regs self upd b s (0x11 + idx * 2)) (ucast (drop_bit 32 e)))" by blast
  then show thesis using idx by (intro that [of s']) (simp_all add: set_redir_entry_def redir_reg_eq res_simps)
qed

text \<open>Registers of different entries are different, and none is the version register.\<close>

lemma entry_regs_distinct:
  assumes "unat i < 120" and "unat j < 120"
  shows "0x10 + i * 2 = 0x10 + j * 2 \<longleftrightarrow> i = j" and "0x11 + i * 2 = 0x11 + j * 2 \<longleftrightarrow> i = j"
    and "0x10 + i * 2 \<noteq> 0x11 + j * 2" and "0x10 + i * 2 \<noteq> (1 :: u8)" and "0x11 + i * 2 \<noteq> (1 :: u8)"
    and "0x10 \<le> 0x10 + i * 2" and "0x10 \<le> 0x11 + i * 2"
proof -
  have u: "unat (0x10 + k * 2 :: u8) = 16 + 2 * unat k" "unat (0x11 + k * 2 :: u8) = 17 + 2 * unat k"
    if "unat k < 120" for k :: u8 using that by (simp_all add: unat_word_ariths)
  note u = u [OF assms(1)] u [OF assms(2)]
  show "0x10 + i * 2 = 0x10 + j * 2 \<longleftrightarrow> i = j" "0x11 + i * 2 = 0x11 + j * 2 \<longleftrightarrow> i = j"
    using u by (auto simp: word_unat_eq_iff)
  show "0x10 + i * 2 \<noteq> 0x11 + j * 2" "0x10 + i * 2 \<noteq> (1 :: u8)" "0x11 + i * 2 \<noteq> (1 :: u8)"
    unfolding word_unat_eq_iff u by (simp_all, presburger)
  show "0x10 \<le> 0x10 + i * 2" "0x10 \<le> 0x11 + i * 2"
    unfolding word_le_nat_alt u by simp_all
qed

lemma entry_at_written:
  assumes "unat i < 120" and "unat j < 120"
  shows "entry_at (r(0x10 + i * 2 := ucast e, 0x11 + i * 2 := ucast (drop_bit 32 e))) j =
    (if j = i then e else entry_at r j)"
  using entry_regs_distinct [OF assms] entry_regs_distinct [OF assms(2,1)]
  by (auto simp: entry_at_def halves_join)

section \<open>Properties\<close>

text \<open>
  The four flag setters of a redirection entry, exactly: each changes only its own bit, and the bit
  afterwards is the requested value or the opposite of the old one. So a setter does what it is asked
  exactly if it is asked for true or the flag was set; asked for false on a clear flag it sets it.
\<close>

theorem flag_setters_toggle:
  "(masked (set_masked e m) \<longleftrightarrow> (if m then True else \<not> masked e)) \<and> (logical_mode (set_logical_mode e m) \<longleftrightarrow> (if m then True else \<not> logical_mode e)) \<and>
   (low_is_active (set_low_is_active e m) \<longleftrightarrow> (if m then True else \<not> low_is_active e)) \<and>
   (level_sensitive (set_level_sensitive e m) \<longleftrightarrow> (if m then True else \<not> level_sensitive e)) \<and>
   {n. bit (set_masked e m) n \<noteq> bit e n} \<subseteq> {16} \<and> {n. bit (set_logical_mode e m) n \<noteq> bit e n} \<subseteq> {11} \<and>
   {n. bit (set_low_is_active e m) n \<noteq> bit e n} \<subseteq> {13} \<and> {n. bit (set_level_sensitive e m) n \<noteq> bit e n} \<subseteq> {15}"
  by (auto simp: mask_bit.get_set logical_bit.get_set polarity_bit.get_set trigger_bit.get_set
      mask_bit.bit_set logical_bit.bit_set polarity_bit.bit_set trigger_bit.bit_set split: if_splits)

text \<open>
  Setting the delivery mode of an entry whose mode field is clear gives the mode \<^verbatim>\<open>External\<close>, whatever
  mode was asked for; an entry in mode \<^verbatim>\<open>External\<close> gets the requested mode; the reserved mode panics.
\<close>

theorem set_delivery_mode_result:
  "set_delivery_mode e Reserved = Inl (ExplicitPanic ''Cannot use a reserved mode'') \<and>
   (m \<noteq> Reserved \<longrightarrow> (\<exists>e'. set_delivery_mode e m = Inr e' \<and>
      (delivery_mode e = Normal \<longrightarrow> delivery_mode e' = External) \<and>
      (delivery_mode e = External \<longrightarrow> delivery_mode e' = m)))"
proof -
  have normal: "drop_bit 8 e AND 7 = 0" if "delivery_mode e = Normal"
    using that by (auto simp: delivery_mode_def Let_def split: if_splits)
  have external: "drop_bit 8 e AND 7 = 7" if "delivery_mode e = External"
    using that by (auto simp: delivery_mode_def Let_def split: if_splits)
  have "\<exists>e'. set_delivery_mode e m = Inr e' \<and> (delivery_mode e = Normal \<longrightarrow> delivery_mode e' = External) \<and>
      (delivery_mode e = External \<longrightarrow> delivery_mode e' = m)" if m: "m \<noteq> Reserved"
  proof -
    obtain b where b: "delivery_bits m = Inr b" using m by (cases m) (simp_all add: delivery_bits_def)
    then obtain e' where e': "set_delivery_mode e m = Inr e'"
      and F: "drop_bit 8 e' AND 7 = (NOT (drop_bit 8 e AND 7) OR b) AND 7"
      using delivery_field [of e b] by (simp add: set_delivery_mode_def)
    have "delivery_mode e' = External" if "delivery_mode e = Normal"
      unfolding delivery_mode_def [of e'] F normal [OF that] by simp
    moreover have "delivery_mode e' = m" if "delivery_mode e = External"
      unfolding delivery_mode_def [of e'] F external [OF that] using b m by (cases m) (auto simp: delivery_bits_def)
    ultimately show ?thesis using e' by blast
  qed
  then show ?thesis by (simp add: set_delivery_mode_def delivery_bits_def)
qed

theorem set_delivery_mode_result_witness:
  "\<exists>e'. set_delivery_mode 0x20 LowPriority = Inr e' \<and> delivery_mode e' = External"
proof -
  have "delivery_mode 0x20 = Normal" by (simp add: delivery_mode_def drop_bit_eq_div)
  then show ?thesis using set_delivery_mode_result [of "0x20" LowPriority] by auto
qed

text \<open>
  C37. The redirection table behaves as memory: after \<^verbatim>\<open>set_redir_entry\<close> of an entry whose registers store
  what is written, \<^verbatim>\<open>redir_entry\<close> of the same index returns the entry, and every other entry and the
  number of entries are as before.
\<close>

theorem redir_entry_roundtrip:
  assumes "has_ioapic D self upd b" and "unat idx < 120"
    and "idx < entry_limit (ioapic_regs self upd b s)" and "\<forall>i old v. 0x10 \<le> i \<longrightarrow> upd i old v = v"
  shows "\<exists>s'. set_redir_entry self idx e s = Inr ((), s') \<and> rmap fst (redir_entry D self idx s') = Inr e \<and>
    (\<forall>j. unat j < 120 \<and> j \<noteq> idx \<longrightarrow> entry_at (ioapic_regs self upd b s') j = entry_at (ioapic_regs self upd b s) j) \<and>
    entry_limit (ioapic_regs self upd b s') = entry_limit (ioapic_regs self upd b s)"
proof -
  obtain s' where s': "set_redir_entry self idx e s = Inr ((), s')" "ioapic_regs self upd b s' =
      (ioapic_regs self upd b s)(0x10 + idx * 2 := ucast e, 0x11 + idx * 2 := ucast (drop_bit 32 e))"
    using set_redir_entry_run [OF assms(1,2), of e s] assms(4) entry_regs_distinct(6,7) [OF assms(2,2)] by metis
  moreover have "entry_limit (ioapic_regs self upd b s') = entry_limit (ioapic_regs self upd b s)"
    using entry_regs_distinct(4,5) [OF assms(2,2)] unfolding s'(2) entry_limit_def by (metis fun_upd_other)
  moreover obtain s'' where "redir_entry D self idx s' =
      (if entry_limit (ioapic_regs self upd b s') \<le> idx then Inl (ExplicitPanic ''Out of bounds'')
       else if unat idx < 120 then Inr (entry_at (ioapic_regs self upd b s') idx, s'') else Inl ArithmeticOverflow)"
    by (rule redir_entry_run [OF assms(1)])
  ultimately show ?thesis
    using assms(2,3) entry_at_written [OF assms(2)] by (auto simp: not_le)
qed

text \<open>An I/O APIC with 24 entries, all masked, as it comes out of reset.\<close>

definition example_ioapic :: IOApic where
  "example_ioapic = \<lparr>ioapic_address = 0xFEC00000, ioapic_base_interrupt = 0\<rparr>"

definition reset_bank :: "(u8, u32) bank" where
  "reset_bank = \<lparr>selected = 0,
     contents = (\<lambda>i. if i = 1 then 0x00170011 else if 0x10 \<le> i \<and> even (unat i) then 0x10000 else 0)\<rparr>"

definition ioapic_devices :: devices where
  "ioapic_devices = \<lparr>port_answer = (\<lambda>t n port. 0),
     load_answer = (\<lambda>t n a. let d = ioapic_after example_ioapic (\<lambda>i old v. v) reset_bank t
       in unat (contents d (selected d)))\<rparr>"

lemma ioapic_devices_ok: "has_ioapic ioapic_devices example_ioapic (\<lambda>i old v. v) reset_bank"
  by (simp add: has_ioapic_def ioapic_devices_def example_ioapic_def Let_def)

lemma reset_limit:
  "entry_limit (ioapic_regs example_ioapic (\<lambda>i old v. v) reset_bank \<lparr>trace = [], interrupt_flag = False\<rparr>) = 23"
  by (simp add: entry_limit_def ioapic_regs_def ioapic_after_def reset_bank_def drop_bit_eq_div)

theorem redir_entry_roundtrip_witness:
  "\<exists>s'. set_redir_entry example_ioapic 2 0x30 \<lparr>trace = [], interrupt_flag = False\<rparr> = Inr ((), s') \<and>
     rmap fst (redir_entry ioapic_devices example_ioapic 2 s') = Inr 0x30"
  using redir_entry_roundtrip [OF ioapic_devices_ok, of 2 "\<lparr>trace = [], interrupt_flag = False\<rparr>" "0x30"]
  by (auto simp: reset_limit)

text \<open>
  Reading an entry, on every branch: with the register contents \<open>r\<close>, \<^verbatim>\<open>redir_entry\<close> returns the entry
  for an index below the limit that the version register reports; it panics from the limit on,
  although the register reports the index of the last entry, so the last entry cannot be read; and
  from index 120 the register number overflows.
\<close>

theorem redir_entry_bounds:
  assumes "has_ioapic D self upd b" and "r = ioapic_regs self upd b s"
  shows "rmap fst (redir_entry D self idx s) =
    (if entry_limit r \<le> idx then Inl (ExplicitPanic ''Out of bounds'')
     else if 120 \<le> unat idx then Inl ArithmeticOverflow
     else Inr (push_bit 32 (ucast (r (0x11 + idx * 2))) OR ucast (r (0x10 + idx * 2))))"
  by (rule redir_entry_run [OF assms(1), of idx s]) (simp add: assms(2) entry_at_def not_less)

theorem redir_entry_bounds_witness:
  "rmap fst (redir_entry ioapic_devices example_ioapic 23 \<lparr>trace = [], interrupt_flag = False\<rparr>) =
     Inl (ExplicitPanic ''Out of bounds'')"
  using redir_entry_bounds [OF ioapic_devices_ok refl, where idx = 23 and s = "\<lparr>trace = [], interrupt_flag = False\<rparr>"]
  by (simp add: reset_limit)

section \<open>Iteration\<close>

text \<open>A \<^verbatim>\<open>for\<close> loop over the iterator, with a bound on the number of steps.\<close>

primrec iter_collect :: "devices \<Rightarrow> nat \<Rightarrow> RedirEntryIter \<Rightarrow> ('z hw_scheme, RedirEntry list option) eff" where
  "iter_collect D 0 it = ret None"
| "iter_collect D (Suc n) it =
     bnd (redir_iter_next D it) (\<lambda>(e, it').
     case e of
       None \<Rightarrow> ret (Some [])
     | Some x \<Rightarrow> bnd (iter_collect D n it') (\<lambda>rest. ret (map_option (\<lambda>xs. x # xs) rest)))"

lemma redir_iter_next_run:
  assumes D: "has_ioapic D self upd b"
    and lim: "iter_idx it \<le> entry_limit (ioapic_regs self upd b s)" "unat (entry_limit (ioapic_regs self upd b s)) \<le> 120"
    and it: "iter_ioapic it = self"
  obtains s' where "redir_iter_next D it s = Inr
      (if iter_idx it = entry_limit (ioapic_regs self upd b s) then (None, it)
       else (Some (entry_at (ioapic_regs self upd b s) (iter_idx it)), it\<lparr>iter_idx := iter_idx it + 1\<rparr>), s')"
    and "ioapic_regs self upd b s' = ioapic_regs self upd b s"
proof -
  let ?r = "ioapic_regs self upd b"
  obtain s1 where 1: "redir_entry_count D self s = Inr (entry_limit (?r s), s1)" "?r s1 = ?r s"
    using D by (rule count_run)
  obtain s2 where 2: "redir_entry D self (iter_idx it) s1 =
      (if entry_limit (?r s1) \<le> iter_idx it then Inl (ExplicitPanic ''Out of bounds'')
       else if unat (iter_idx it) < 120 then Inr (entry_at (?r s1) (iter_idx it), s2) else Inl ArithmeticOverflow)"
    "?r s2 = ?r s1" using D by (rule redir_entry_run)
  show thesis
  proof (cases "iter_idx it = entry_limit (?r s)")
    case True
    with 1 it show thesis by (intro that [of s1]) (simp_all add: redir_iter_next_def res_simps)
  next
    case False
    with lim have "iter_idx it < entry_limit (?r s)" by simp
    moreover from this lim(2) have "unat (iter_idx it) < 120" by (simp add: word_less_nat_alt)
    ultimately show thesis using 1 2 it False
      by (intro that [of s2]) (simp_all add: redir_iter_next_def res_simps checked_add_def not_le)
  qed
qed

text \<open>
  Iterating over the redirection table terminates: after as many steps as the version register reports,
  and one more to see the end, the loop has seen the entries \<open>0\<close> up to but not including that number,
  in order.
\<close>

theorem redir_entry_iter_collects:
  assumes "has_ioapic D self upd b" and "unat (entry_limit (ioapic_regs self upd b s)) \<le> 120"
  shows "rmap fst (iter_collect D (Suc (unat (entry_limit (ioapic_regs self upd b s)))) (redir_entry_iter self) s) =
    Inr (Some (map (entry_at (ioapic_regs self upd b s)) (urange 0 (entry_limit (ioapic_regs self upd b s)))))"
proof -
  define r where "r = ioapic_regs self upd b s"
  have lim: "unat (entry_limit r) \<le> 120" using assms(2) by (simp add: r_def)
  have step: "iter_idx it \<le> entry_limit (ioapic_regs self upd b s)" "unat (entry_limit (ioapic_regs self upd b s)) \<le> 120"
    if "iter_idx it \<le> entry_limit r" "ioapic_regs self upd b s = r" for it and s :: "'a hw_scheme"
    using that lim by simp_all
  have "\<exists>s'. iter_collect D (Suc n) it s = Inr (Some (map (entry_at r) (urange (iter_idx it) (entry_limit r))), s')"
    if "n = unat (entry_limit r) - unat (iter_idx it)" "iter_ioapic it = self" "iter_idx it \<le> entry_limit r"
      "ioapic_regs self upd b s = r" for n it and s :: "'a hw_scheme"
    using that
  proof (induction n arbitrary: it s)
    case 0
    then have e: "iter_idx it = entry_limit r" by (simp add: word_le_nat_alt word_unat_eq_iff)
    obtain s' where "redir_iter_next D it s = Inr ((None, it), s')"
      by (rule redir_iter_next_run [OF assms(1) step(1,2) [OF 0(3,4)] 0(2)]) (use 0(4) e in simp)
    with e show ?case by (simp add: bnd_run urange_def)
  next
    case (Suc n)
    from Suc.prems(1) have ne: "iter_idx it \<noteq> entry_limit r" by auto
    obtain s' where 1: "redir_iter_next D it s = Inr ((Some (entry_at r (iter_idx it)), it\<lparr>iter_idx := iter_idx it + 1\<rparr>), s')"
      "ioapic_regs self upd b s' = r"
      by (rule redir_iter_next_run [OF assms(1) step(1,2) [OF Suc.prems(3,4)] Suc.prems(2)])
         (use Suc.prems(4) ne in simp)
    have inc: "unat (iter_idx it + 1) = Suc (unat (iter_idx it))"
      using Suc.prems(1,3) lim by (simp add: unat_word_ariths word_le_nat_alt)
    have "urange (iter_idx it) (entry_limit r) = iter_idx it # urange (iter_idx it + 1) (entry_limit r)"
      using Suc.prems(1) inc by (simp add: urange_def upt_conv_Cons)
    moreover have "n = unat (entry_limit r) - unat (iter_idx (it\<lparr>iter_idx := iter_idx it + 1\<rparr>))"
      "iter_ioapic (it\<lparr>iter_idx := iter_idx it + 1\<rparr>) = self" "iter_idx (it\<lparr>iter_idx := iter_idx it + 1\<rparr>) \<le> entry_limit r"
      using Suc.prems(1,2) inc by (simp_all add: word_le_nat_alt)
    from Suc.IH [OF this 1(2)] obtain s'' where "iter_collect D (Suc n) (it\<lparr>iter_idx := iter_idx it + 1\<rparr>) s' =
        Inr (Some (map (entry_at r) (urange (iter_idx (it\<lparr>iter_idx := iter_idx it + 1\<rparr>)) (entry_limit r))), s'')" by blast
    ultimately show ?case using 1(1) by (subst iter_collect.simps(2)) (simp add: bnd_run del: iter_collect.simps(2))
  qed
  from this [of "unat (entry_limit r)" "redir_entry_iter self" s] show ?thesis
    unfolding r_def [symmetric] by (auto simp: redir_entry_iter_def r_def)
qed

theorem redir_entry_iter_collects_witness:
  "\<exists>es. rmap fst (iter_collect ioapic_devices 24 (redir_entry_iter example_ioapic)
     \<lparr>trace = [], interrupt_flag = False\<rparr>) = Inr (Some es) \<and> length es = 23"
proof -
  have lim: "unat (entry_limit (ioapic_regs example_ioapic (\<lambda>i old v. v) reset_bank
      \<lparr>trace = [], interrupt_flag = False\<rparr>)) \<le> 120" by (simp add: reset_limit)
  have "Suc (unat (23 :: u8)) = 24" by simp
  then show ?thesis
    using redir_entry_iter_collects [OF ioapic_devices_ok lim] unfolding reset_limit by auto
qed

end
