(* ===== verification/Acpi_Handler.thy ===== *)
theory Acpi_Handler
  imports Machine
begin

text \<open>
  The memory handler given to the ACPI and AML crates: \<^verbatim>\<open>Handler\<close> and \<^verbatim>\<open>LockedHandler\<close> of
  \<^verbatim>\<open>src/acpi.rs\<close> and the \<^verbatim>\<open>AcpiHandler\<close> implementation of \<^verbatim>\<open>src/acpi/handlers.rs\<close>. The handler
  counts the users of each mapped frame, so that regions may overlap. Its map is a part of the
  state beside the machine. The operations take \<^verbatim>\<open>mmap_dev(_, true)\<close> and \<^verbatim>\<open>unmap\<close> as arguments
  \<open>dmap\<close> and \<open>dunmap\<close>; what they rely on is the locale \<open>device_mapper\<close>.
\<close>

section \<open>Operations\<close>

type_synonym 'g mapping_refs = "u64 \<rightharpoonup> usize \<times> 'g"

definition handler_new :: "'g mapping_refs" where
  "handler_new = Map.empty"

definition handler_map ::
    "(u64 \<Rightarrow> ('s, MapToError + 'g) eff) \<Rightarrow> u64 \<Rightarrow> ('g mapping_refs \<times> 's, unit) eff" where
  "handler_map dmap frame = (\<lambda>(refs, s).
     let key = frame
     in case refs key of
          Some (rc, guard) \<Rightarrow> rbind (checked_add rc 1) (\<lambda>rc. Inr ((), refs(key \<mapsto> (rc, guard)), s))
        | None \<Rightarrow>
            rbind (dmap frame s) (\<lambda>(r, s').
            rbind (expect_ok ''Failed to identity map'' r) (\<lambda>guard.
            Inr ((), refs(key \<mapsto> (1, guard)), s'))))"

definition handler_unmap ::
    "('g \<Rightarrow> ('s, UnmapError + unit) eff) \<Rightarrow> u64 \<Rightarrow> ('g mapping_refs \<times> 's, unit) eff" where
  "handler_unmap dunmap page = (\<lambda>(refs, s).
     let key = page
     in rbind (expect ''Trying to unmap non mapped frame'' (refs key)) (\<lambda>(rc, guard).
        rbind (checked_sub rc 1) (\<lambda>rc.
        if rc = 0 then
          rbind (dunmap guard s) (\<lambda>(r, s').
          rbind (expect_ok ''Failed to unmap'' r) (\<lambda>_.
          Inr ((), refs(key := None), s')))
        else Inr ((), refs(key \<mapsto> (rc, guard)), s))))"

record PhysicalMapping =
  physical_start :: usize
  virtual_start :: usize
  region_length :: usize
  mapped_length :: usize

definition map_physical_region ::
    "crates \<Rightarrow> (u64 \<Rightarrow> ('s, MapToError + 'g) eff) \<Rightarrow> usize \<Rightarrow> usize \<Rightarrow>
     ('g mapping_refs \<times> 's, PhysicalMapping) eff" where
  "map_physical_region E dmap physical_address size' =
     bnd (lift_res (PhysAddr_new E physical_address)) (\<lambda>a.
     let start = containing_address E a
     in bnd (lift_res (checked_add physical_address size')) (\<lambda>limit.
        bnd (lift_res (PhysAddr_new E limit)) (\<lambda>b.
        let fin = containing_address E b
        in bnd (for_eff (handler_map dmap) (range_inclusive E start fin)) (\<lambda>_.
           bnd (lift_res (checked_add fin 0x1000)) (\<lambda>x.
           bnd (lift_res (checked_sub x start)) (\<lambda>mapped_len.
           ret \<lparr>physical_start = start, virtual_start = physical_address,
                region_length = size', mapped_length = mapped_len\<rparr>))))))"

definition unmap_physical_region ::
    "crates \<Rightarrow> ('g \<Rightarrow> ('s, UnmapError + unit) eff) \<Rightarrow> PhysicalMapping \<Rightarrow>
     ('g mapping_refs \<times> 's, unit) eff" where
  "unmap_physical_region E dunmap region =
     bnd (lift_res (VirtAddr_new E (physical_start region))) (\<lambda>a.
     bnd (lift_res (unwrap (from_start_address E a))) (\<lambda>start.
     bnd (lift_res (checked_add (physical_start region) (mapped_length region))) (\<lambda>limit.
     bnd (lift_res (VirtAddr_new E limit)) (\<lambda>b.
     bnd (lift_res (unwrap (from_start_address E b))) (\<lambda>fin.
     for_eff (handler_unmap dunmap) (range_exclusive E start fin))))))"

text \<open>
  \<^verbatim>\<open>LockedHandler::read\<close> and \<^verbatim>\<open>write\<close>, which the AML accessors \<^verbatim>\<open>read_u8\<close> to \<^verbatim>\<open>write_u64\<close> call
  with the word type of their width.
\<close>

definition on_machine :: "('s, 'a) eff \<Rightarrow> ('r \<times> 's, 'a) eff" where
  "on_machine f = (\<lambda>(refs, s). rmap (\<lambda>(r, s'). (r, refs, s')) (f s))"

definition locked_read ::
    "crates \<Rightarrow> devices \<Rightarrow> (u64 \<Rightarrow> ('z hw_scheme, MapToError + 'g) eff) \<Rightarrow> usize \<Rightarrow>
     ('g mapping_refs \<times> 'z hw_scheme, 'w::len word) eff" where
  "locked_read E D dmap address =
     bnd (lift_res (PhysAddr_new E address)) (\<lambda>a.
     bnd (handler_map dmap (containing_address E a)) (\<lambda>_.
     on_machine (read_volatile D address)))"

definition locked_write ::
    "crates \<Rightarrow> (u64 \<Rightarrow> ('z hw_scheme, MapToError + 'g) eff) \<Rightarrow> usize \<Rightarrow> 'w::len word \<Rightarrow>
     ('g mapping_refs \<times> 'z hw_scheme, unit) eff" where
  "locked_write E dmap address value =
     bnd (lift_res (PhysAddr_new E address)) (\<lambda>a.
     bnd (handler_map dmap (containing_address E a)) (\<lambda>_.
     on_machine (write_volatile address value)))"

section \<open>Counting users\<close>

definition ref_count :: "'g mapping_refs \<Rightarrow> u64 \<Rightarrow> nat" where
  "ref_count refs k = (case refs k of None \<Rightarrow> 0 | Some (rc, _) \<Rightarrow> unat rc)"

text \<open>
  The invariant: every frame in the map has a user, its guard is a usable guard of that frame, and
  the frame is mapped.
\<close>

definition handler_inv ::
    "('g \<Rightarrow> u64) \<Rightarrow> ('s \<Rightarrow> u64 set) \<Rightarrow> ('s \<Rightarrow> 'g \<Rightarrow> bool) \<Rightarrow> 'g mapping_refs \<times> 's \<Rightarrow> bool" where
  "handler_inv page_of mapped guard_ok = (\<lambda>(refs, s).
     \<forall>k rc g. refs k = Some (rc, g) \<longrightarrow> rc \<noteq> 0 \<and> page_of g = k \<and> guard_ok s g \<and> k \<in> mapped s)"

lemma handler_new_inv: "handler_inv page_of mapped guard_ok (handler_new, s)"
  by (simp add: handler_inv_def handler_new_def)

lemma ref_count_update [simp]:
  "ref_count (refs(k \<mapsto> (rc, g))) = (ref_count refs)(k := unat rc)"
  "ref_count (refs(k := None)) = (ref_count refs)(k := 0)"
  by (auto simp: ref_count_def)

text \<open>The frames of a region, up to the frame of the byte after it.\<close>

definition region_frames :: "usize \<Rightarrow> usize \<Rightarrow> u64 list" where
  "region_frames a n = map frame_addr [frame_no a ..< Suc (frame_no (a + n))]"

lemma frame_addr_Suc: "frame_addr (Suc n) = frame_addr n + 0x1000"
  by (simp add: frame_addr_def)

lemma region_frame_bound:
  "unat a + unat n < 2 ^ 47 \<Longrightarrow> k \<in> set [frame_no a ..< Suc (frame_no (a + n))] \<Longrightarrow> 4096 * k < 2 ^ 47 \<and> k < 2 ^ 52"
  by (auto simp: frame_no_def unat_plus_if' simp del: upt_Suc)

lemma region_frames_device:
  assumes "unat a + unat n < 2 ^ 47" shows "\<forall>f \<in> set (region_frames a n). device_frame f"
  using region_frame_bound [OF assms] by (auto simp: region_frames_def device_frame_def simp del: upt_Suc)

lemma region_frames_mem:
  assumes "unat a + unat n < 2 ^ 47" and "k < 2 ^ 52"
  shows "frame_addr k \<in> set (region_frames a n) \<longleftrightarrow> frame_no a \<le> k \<and> k \<le> frame_no (a + n)"
proof -
  have "frame_addr k \<in> set (region_frames a n) \<longleftrightarrow> k \<in> set [frame_no a ..< Suc (frame_no (a + n))]"
    using region_frame_bound [OF assms(1)] assms(2) frame_addr_inj [OF assms(2)]
    unfolding region_frames_def set_map image_iff by blast
  then show ?thesis by (simp add: less_Suc_eq_le del: upt_Suc)
qed

lemma region_frames_byte:
  assumes "unat a + unat n < 2 ^ 47" and "a \<le> x" and "x \<le> a + n"
  shows "frame_addr (frame_no x) \<in> set (region_frames a n)"
  unfolding region_frames_mem [OF assms(1) frame_no_bound]
  using assms(2,3) by (auto simp: frame_no_def word_le_nat_alt intro: div_le_mono)

lemma region_frames_distinct:
  assumes "unat a + unat n < 2 ^ 47" shows "distinct (region_frames a n)"
  using region_frame_bound [OF assms]
  by (auto simp: region_frames_def distinct_map inj_on_def frame_addr_inj simp del: upt_Suc)

context device_mapper
begin

abbreviation (input) hinv :: "'g mapping_refs \<times> 's \<Rightarrow> bool" where
  "hinv \<equiv> handler_inv page_of mapped guard_ok"

lemma handler_map_step:
  assumes good: "good s" and inv: "hinv (refs, s)" and f: "mappable f"
    and run: "handler_map dmap f (refs, s) = Inr (u, refs', s')"
  shows "good s'" and "hinv (refs', s')"
    and "ref_count refs' = (ref_count refs)(f := Suc (ref_count refs f))"
    and "mapped s' = insert f (mapped s)" and "ref_count refs f = 0 \<Longrightarrow> f \<notin> mapped s"
proof -
  have "good s' \<and> hinv (refs', s') \<and> ref_count refs' = (ref_count refs)(f := Suc (ref_count refs f)) \<and>
      mapped s' = insert f (mapped s) \<and> (ref_count refs f = 0 \<longrightarrow> f \<notin> mapped s)"
  proof (cases "refs f")
    case None
    with run obtain g where g: "dmap f s = Inr (Inr g, s')" and refs': "refs' = refs(f \<mapsto> (1, g))"
      by (auto simp: handler_map_def res_iffs)
    from map_law [OF good f g] None inv show ?thesis
      unfolding refs' by (auto simp: handler_inv_def) (simp add: ref_count_def)
  next
    case (Some e)
    then obtain rc g where e: "refs f = Some (rc, g)" by (cases e) auto
    with run obtain rc' where rc': "checked_add rc 1 = Inr rc'" "refs' = refs(f \<mapsto> (rc', g))" "s' = s"
      by (auto simp: handler_map_def res_iffs)
    from checked_add_unat [OF rc'(1)] have "unat rc' = Suc (unat rc)" by simp
    moreover from this have "rc' \<noteq> 0" by auto
    moreover from e inv have "0 < unat rc" by (auto simp: handler_inv_def unat_gt_0)
    ultimately show ?thesis using e rc' good inv by (auto simp: handler_inv_def ref_count_def)
  qed
  then show "good s'" "hinv (refs', s')" "ref_count refs' = (ref_count refs)(f := Suc (ref_count refs f))"
    "mapped s' = insert f (mapped s)" "ref_count refs f = 0 \<Longrightarrow> f \<notin> mapped s" by simp_all
qed

lemma handler_unmap_step:
  assumes good: "good s" and inv: "hinv (refs, s)" and used: "0 < ref_count refs f"
  obtains refs' s' where "handler_unmap dunmap f (refs, s) = Inr ((), refs', s')"
    and "good s'" and "hinv (refs', s')" and "ref_count refs' = (ref_count refs)(f := ref_count refs f - 1)"
    and "mapped s' = (if ref_count refs f = 1 then mapped s - {f} else mapped s)"
proof -
  from used obtain rc g where e: "refs f = Some (rc, g)" by (auto simp: ref_count_def split: option.splits)
  with inv have g: "rc \<noteq> 0" "page_of g = f" "guard_ok s g" "f \<in> mapped s" by (auto simp: handler_inv_def)
  from g(1) have rc: "checked_sub rc 1 = Inr (rc - 1)" "unat (rc - 1) = unat rc - 1"
    by (simp_all add: checked_sub_def word_le_nat_alt unat_sub_if' unat_gt_0 Suc_le_eq)
  show thesis
  proof (cases "rc = 1")
    case True
    from unmap_law [OF good g(3)] g obtain s' where s': "dunmap g s = Inr (Inr (), s')" "good s'"
      "mapped s' = mapped s - {f}" "\<forall>h. guard_ok s h \<longrightarrow> guard_ok s' h" by auto
    with True e inv show thesis
      by (intro that [of "refs(f := None)" s'])
         (auto simp: handler_unmap_def checked_sub_def handler_inv_def ref_count_def)
  next
    case False
    then have "rc - 1 \<noteq> 0" "unat rc \<noteq> 1" using word_unat_eq_iff [of rc 1] by simp_all
    with rc e good inv show thesis
      by (intro that [of "refs(f \<mapsto> (rc - 1, g))" s]) (auto simp: handler_unmap_def handler_inv_def ref_count_def)
  qed
qed

text \<open>The loops over the frames of a region.\<close>

lemma handler_map_loop:
  assumes "good s" and "hinv (refs, s)" and "\<forall>f \<in> set fs. mappable f" and "distinct fs"
    and "for_eff (handler_map dmap) fs (refs, s) = Inr (u, refs', s')"
  shows "good s' \<and> hinv (refs', s') \<and>
    ref_count refs' = (\<lambda>k. ref_count refs k + (if k \<in> set fs then 1 else 0)) \<and>
    mapped s' = mapped s \<union> set fs \<and> (\<forall>f \<in> set fs. ref_count refs f = 0 \<longrightarrow> f \<notin> mapped s)"
  using assms
proof (induction fs arbitrary: refs s)
  case (Cons f fs)
  from Cons.prems(5) obtain refs1 s1 where 1: "handler_map dmap f (refs, s) = Inr ((), refs1, s1)"
    "for_eff (handler_map dmap) fs (refs1, s1) = Inr (u, refs', s')" by (auto simp: bnd_eq_Inr_iff)
  from Cons.prems(3) have "mappable f" by simp
  note st = handler_map_step [OF Cons.prems(1,2) this 1(1)]
  from Cons.IH [OF st(1,2) _ _ 1(2)] Cons.prems(3,4) have "good s' \<and> hinv (refs', s') \<and>
    ref_count refs' = (\<lambda>k. ref_count refs1 k + (if k \<in> set fs then 1 else 0)) \<and>
    mapped s' = mapped s1 \<union> set fs \<and> (\<forall>f \<in> set fs. ref_count refs1 f = 0 \<longrightarrow> f \<notin> mapped s1)" by simp
  with st(3-5) Cons.prems(4) show ?case by (auto simp: fun_eq_iff split: if_splits)
qed simp

lemma handler_unmap_loop:
  assumes "good s" and "hinv (refs, s)" and "\<forall>f \<in> set fs. 0 < ref_count refs f" and "distinct fs"
  shows "\<exists>refs' s'. for_eff (handler_unmap dunmap) fs (refs, s) = Inr ((), refs', s') \<and> good s' \<and>
    hinv (refs', s') \<and> ref_count refs' = (\<lambda>k. ref_count refs k - (if k \<in> set fs then 1 else 0)) \<and>
    mapped s' = mapped s - {f \<in> set fs. ref_count refs f = 1}"
  using assms
proof (induction fs arbitrary: refs s)
  case (Cons f fs)
  from Cons.prems(3) have "0 < ref_count refs f" by simp
  from handler_unmap_step [OF Cons.prems(1,2) this] obtain refs1 s1 where
    1: "handler_unmap dunmap f (refs, s) = Inr ((), refs1, s1)" "good s1" "hinv (refs1, s1)"
      "ref_count refs1 = (ref_count refs)(f := ref_count refs f - 1)"
      "mapped s1 = (if ref_count refs f = 1 then mapped s - {f} else mapped s)" .
  from Cons.prems(3,4) 1(4) have "\<forall>f \<in> set fs. 0 < ref_count refs1 f" "distinct fs" by auto
  from Cons.IH [OF 1(2,3) this] obtain refs' s' where
    "for_eff (handler_unmap dunmap) fs (refs1, s1) = Inr ((), refs', s')" "good s'" "hinv (refs', s')"
    "ref_count refs' = (\<lambda>k. ref_count refs1 k - (if k \<in> set fs then 1 else 0))"
    "mapped s' = mapped s1 - {f \<in> set fs. ref_count refs1 f = 1}" by blast
  with 1 Cons.prems(4) show ?case
    by (intro exI [of _ refs'] exI [of _ s']) (auto simp: res_simps fun_eq_iff)
qed (auto simp: fun_eq_iff)

text \<open>A region of \<open>n\<close> bytes at \<open>a\<close> is mapped and unmapped as the frames \<open>region_frames\<close>.\<close>

lemma map_physical_region_run:
  assumes E: "crates_ok E" and "unat a + unat n < 2 ^ 47"
    and run: "map_physical_region E dmap a n h = Inr (r, h')"
  shows "for_eff (handler_map dmap) (region_frames a n) h = Inr ((), h')"
    and "r = \<lparr>physical_start = frame_addr (frame_no a), virtual_start = a, region_length = n,
      mapped_length = frame_addr (Suc (frame_no (a + n))) - frame_addr (frame_no a)\<rparr>"
  using assms
  by (auto simp: map_physical_region_def res_iffs bnd_eq_Inr_iff lift_res_eq_Inr_iff Let_def checked_add_eq_Inr_iff
      crates_PhysAddr_new crates_containing crates_range_inclusive region_frames_def frame_addr_Suc
      checked_sub_def simp del: upt_Suc split: if_splits)

lemma unmap_physical_region_run:
  assumes E: "crates_ok E" and bound: "unat a + unat n < 2 ^ 47 - 4096"
    and r: "physical_start r = frame_addr (frame_no a)"
      "mapped_length r = frame_addr (Suc (frame_no (a + n))) - frame_addr (frame_no a)"
  shows "unmap_physical_region E dunmap r = for_eff (handler_unmap dunmap) (region_frames a n)"
proof -
  define N where "N = Suc (frame_no (a + n))"
  have le: "frame_no a \<le> N" "4096 * N < 2 ^ 47" "unat a < 2 ^ 47"
    using bound by (auto simp: N_def frame_no_def unat_plus_if' intro: div_le_mono le_SucI)
  then have bnds: "N < 2 ^ 52" "frame_no a < 2 ^ 52" by auto
  have "checked_add (frame_addr (frame_no a)) (mapped_length r) = Inr (frame_addr N)"
    using le bnds unfolding r(2) N_def [symmetric] by (simp add: checked_add_def unat_sub word_le_nat_alt)
  then show ?thesis
    using le bnds E
    by (simp add: unmap_physical_region_def r(1) fun_eq_iff res_simps crates_VirtAddr_new crates_from_start
        crates_range_exclusive region_frames_def N_def [symmetric])
qed

lemma region_mapped:
  assumes "crates_ok E" and "good s" and "hinv (refs, s)" and "unat a + unat n < 2 ^ 47"
    and frames: "\<And>f. aligned f \<Longrightarrow> unat f < 2 ^ 47 \<Longrightarrow> mappable f"
    and run: "map_physical_region E dmap a n (refs, s) = Inr (r, refs', s')"
  shows "good s' \<and> hinv (refs', s') \<and>
    ref_count refs' = (\<lambda>k. ref_count refs k + (if k \<in> set (region_frames a n) then 1 else 0)) \<and>
    mapped s' = mapped s \<union> set (region_frames a n) \<and>
    (\<forall>f \<in> set (region_frames a n). ref_count refs f = 0 \<longrightarrow> f \<notin> mapped s)"
proof (rule handler_map_loop [OF assms(2,3)])
  show "\<forall>f \<in> set (region_frames a n). mappable f"
    using frames region_frames_device [OF assms(4)] by (simp add: device_frame_def)
  show "distinct (region_frames a n)" by (rule region_frames_distinct [OF assms(4)])
  show "for_eff (handler_map dmap) (region_frames a n) (refs, s) = Inr ((), refs', s')"
    by (rule map_physical_region_run [OF assms(1,4) run])
qed

lemma region_roundtrip:
  assumes "crates_ok E" and "good s" and "hinv (refs, s)" and "unat a + unat n < 2 ^ 47 - 4096"
    and frames: "\<And>f. aligned f \<Longrightarrow> unat f < 2 ^ 47 \<Longrightarrow> mappable f"
    and run: "map_physical_region E dmap a n (refs, s) = Inr (r, refs', s')"
  shows "\<exists>refs'' s''. unmap_physical_region E dunmap r (refs', s') = Inr ((), refs'', s'') \<and> good s'' \<and>
    hinv (refs'', s'') \<and> ref_count refs'' = ref_count refs \<and> mapped s'' = mapped s"
proof -
  from assms(4) have bound: "unat a + unat n < 2 ^ 47" by simp
  note m = region_mapped [OF assms(1-3) bound frames run]
  have "\<forall>f \<in> set (region_frames a n). 0 < ref_count refs' f" using m by simp
  from handler_unmap_loop [OF _ _ this region_frames_distinct [OF bound], of s'] m
  obtain refs'' s'' where u: "for_eff (handler_unmap dunmap) (region_frames a n) (refs', s') = Inr ((), refs'', s'')"
    "good s''" "hinv (refs'', s'')"
    "ref_count refs'' = (\<lambda>k. ref_count refs' k - (if k \<in> set (region_frames a n) then 1 else 0))"
    "mapped s'' = mapped s' - {f \<in> set (region_frames a n). ref_count refs' f = 1}" by blast
  have "f \<in> mapped s" if "ref_count refs f \<noteq> 0" for f
    using that assms(3) by (auto simp: ref_count_def handler_inv_def split: option.splits)
  with u(4,5) m have "ref_count refs'' = ref_count refs" "mapped s'' = mapped s" by auto
  with u map_physical_region_run(2) [OF assms(1) bound run] show ?thesis
    by (simp add: unmap_physical_region_run [OF assms(1,4)])
qed

end

section \<open>Properties\<close>

text \<open>A machine with reserved frames 9 to 11 and seven usable ones, for closed examples.\<close>

definition example_machine :: "translation machine" where
  "example_machine = \<lparr>trace = [], interrupt_flag = False, paging_ctx = Some example_ctx,
     heap = \<lparr>heap_region = None, INITIALIZED = False\<rparr>, PICS = Pics 32 40\<rparr>"

lemma example_machine_good: "machine_good std_crates flat_mapper (\<lambda>m. m) example_machine"
  by (simp add: machine_good_def paging_good_def example_machine_def std_crates_ok flat_mapper_ok example_ctx_inv)

lemma example_handler_map:
  "\<exists>refs s. handler_map (machine_mmap std_crates flat_mapper True) 0x9000 (handler_new, example_machine) =
     Inr ((), refs, s)"
proof -
  obtain g c where "mmap_dev std_crates flat_mapper 0x9000 True (Some example_ctx) = Inr (Inr g, Some c)"
    using example_mmap by blast
  then show ?thesis
    by (simp add: handler_map_def handler_new_def machine_mmap_def on_paging_def example_machine_def)
qed

lemma example_region:
  "\<exists>r refs s. map_physical_region std_crates (machine_mmap std_crates flat_mapper True) 0x9010 0x20
     (handler_new, example_machine) = Inr (r, refs, s)"
proof -
  have "containing_address std_crates 0x9010 = 0x9000" "containing_address std_crates 0x9030 = 0x9000"
    "range_inclusive std_crates 0x9000 0x9000 = [0x9000]"
    by (simp_all add: std_crates_def frame_no_def frame_addr_def)
  with example_handler_map show ?thesis
    by (auto simp: map_physical_region_def res_simps Let_def crates_PhysAddr_new [OF std_crates_ok]
        checked_add_def checked_sub_def)
qed

text \<open>
  C14. A mapped physical region can be used: after \<^verbatim>\<open>map_physical_region\<close> every byte of the region
  lies in a mapped page, exactly the frames from the first byte to the byte after the last one have
  one user more, no frame that was mapped becomes unmapped, and the handler keeps its invariant.
\<close>

theorem map_physical_region_covers:
  assumes "machine_good E M tr s" and "handler_inv guard_page (machine_mapped tr) machine_guard_ok (refs, s)"
    and "unat a + unat n < 2 ^ 47"
    and "map_physical_region E (machine_mmap E M True) a n (refs, s) = Inr (r, refs', s')"
  shows "handler_inv guard_page (machine_mapped tr) machine_guard_ok (refs', s') \<and>
    (\<forall>x. a \<le> x \<and> x \<le> a + n \<longrightarrow> frame_addr (frame_no x) \<in> machine_mapped tr s') \<and>
    machine_mapped tr s \<subseteq> machine_mapped tr s' \<and>
    (\<forall>k < 2 ^ 52. ref_count refs' (frame_addr k) = ref_count refs (frame_addr k) +
       (if frame_no a \<le> k \<and> k \<le> frame_no (a + n) then 1 else 0))"
proof -
  have E: "crates_ok E" using assms(1) by (simp add: machine_good_def paging_good_def)
  have "handler_inv guard_page (machine_mapped tr) machine_guard_ok (refs', s') \<and>
    ref_count refs' = (\<lambda>k. ref_count refs k + (if k \<in> set (region_frames a n) then 1 else 0)) \<and>
    machine_mapped tr s' = machine_mapped tr s \<union> set (region_frames a n)"
    using dev.region_mapped [OF E assms(1-3) _ assms(4)] by (simp add: device_frame_def)
  with region_frames_byte [OF assms(3)] region_frames_mem [OF assms(3)] show ?thesis by auto
qed

theorem map_physical_region_covers_witness:
  "\<exists>r refs s. map_physical_region std_crates (machine_mmap std_crates flat_mapper True) 0x9010 0x20
       (handler_new, example_machine) = Inr (r, refs, s) \<and>
     frame_addr (frame_no 0x901F) \<in> machine_mapped (\<lambda>m. m) s"
proof -
  obtain r refs s where run: "map_physical_region std_crates (machine_mmap std_crates flat_mapper True) 0x9010 0x20
       (handler_new, example_machine) = Inr (r, refs, s)" using example_region by blast
  have "\<forall>x. (0x9010 :: usize) \<le> x \<and> x \<le> 0x9010 + 0x20 \<longrightarrow> frame_addr (frame_no x) \<in> machine_mapped (\<lambda>m. m) s"
    using map_physical_region_covers [OF example_machine_good handler_new_inv _ run] by simp
  from this [rule_format, of "0x901F"] run show ?thesis by auto
qed



text \<open>
  The last user counts: a frame of the handler stays mapped while it has another user and is
  unmapped with the last one; unmapping a frame without users panics.
\<close>

theorem handler_unmap_last_user:
  assumes "machine_good E M tr s" and "handler_inv guard_page (machine_mapped tr) machine_guard_ok (refs, s)"
  shows "case handler_unmap (machine_unmap M) f (refs, s) of
      Inl p \<Rightarrow> ref_count refs f = 0 \<and> p = Expect ''Trying to unmap non mapped frame''
    | Inr (u, refs', s') \<Rightarrow>
        ref_count refs f > 0 \<and> ref_count refs' = (ref_count refs)(f := ref_count refs f - 1) \<and>
        machine_mapped tr s' = machine_mapped tr s - (if ref_count refs f = 1 then {f} else {}) \<and>
        handler_inv guard_page (machine_mapped tr) machine_guard_ok (refs', s')"
proof (cases "ref_count refs f = 0")
  case True
  with assms(2) have "refs f = None" by (auto simp: ref_count_def handler_inv_def unat_eq_0 split: option.splits)
  with True show ?thesis by (simp add: handler_unmap_def)
next
  case False
  then have "0 < ref_count refs f" by simp
  from dev.handler_unmap_step [OF assms this] obtain refs' s' where
    "handler_unmap (machine_unmap M) f (refs, s) = Inr ((), refs', s')"
    "handler_inv guard_page (machine_mapped tr) machine_guard_ok (refs', s')"
    "ref_count refs' = (ref_count refs)(f := ref_count refs f - 1)"
    "machine_mapped tr s' = (if ref_count refs f = 1 then machine_mapped tr s - {f} else machine_mapped tr s)" .
  with False show ?thesis by simp
qed

theorem handler_unmap_last_user_witness:
  "handler_unmap (machine_unmap flat_mapper) 0x9000 (handler_new, example_machine) =
     Inl (Expect ''Trying to unmap non mapped frame'')"
  using handler_unmap_last_user [OF example_machine_good handler_new_inv, of "0x9000"]
  by (simp add: ref_count_def handler_new_def handler_unmap_def)

text \<open>
  An AML memory access returns what the device answers at the mapped address, and each one adds a
  user to its frame that no operation of the accessor removes again: after the access the count is one
  higher and the frame is mapped.
\<close>

theorem locked_read_keeps_mapping:
  assumes "machine_good E M tr s" and "handler_inv guard_page (machine_mapped tr) machine_guard_ok (refs, s)"
    and "unat a < 2 ^ 47"
    and "locked_read E D (machine_mmap E M True) a (refs, s) = Inr (v :: 'w::len word, refs', s')"
  shows "v = word_of_nat (load_answer D (trace s) LENGTH('w) a) \<and>
    frame_addr (frame_no a) \<in> machine_mapped tr s' \<and>
    ref_count refs' = (ref_count refs)(frame_addr (frame_no a) := Suc (ref_count refs (frame_addr (frame_no a)))) \<and>
    handler_inv guard_page (machine_mapped tr) machine_guard_ok (refs', s')"
proof -
  have E: "crates_ok E" using assms(1) by (simp add: machine_good_def paging_good_def)
  let ?p = "frame_addr (frame_no a)"
  have "unat a < 2 ^ 52" using assms(3) by simp
  then obtain s1 where run: "handler_map (machine_mmap E M True) ?p (refs, s) = Inr ((), refs', s1)"
    and rd: "read_volatile D a s1 = Inr (v, s')"
    using assms(4) E by (auto simp: locked_read_def bnd_eq_Inr_iff crates_PhysAddr_new crates_containing
        on_machine_def res_iffs lift_res_eq_Inr_iff)
  have "trace s1 = trace s"
    using run by (auto simp: handler_map_def machine_mmap_def on_paging_def res_iffs Let_def split: option.splits)
  with rd have "v = word_of_nat (load_answer D (trace s) LENGTH('w) a)" "paging_ctx s' = paging_ctx s1"
    by (auto simp: read_volatile_def Let_def emit_def)
  moreover have "device_frame ?p"
    using assms(3) by (auto simp: device_frame_def frame_no_def unat_frame_start [unfolded frame_no_def])
  note dev.handler_map_step [OF assms(1,2) this run]
  ultimately show ?thesis
    by (auto simp: handler_inv_def machine_mapped_def machine_guard_ok_def)
qed

theorem locked_read_keeps_mapping_witness:
  "\<exists>v :: u32. \<exists>refs s. locked_read std_crates pic_devices (machine_mmap std_crates flat_mapper True) 0x9000
     (handler_new, example_machine) = Inr (v, refs, s) \<and> ref_count refs 0x9000 = 1"
proof -
  have c: "containing_address std_crates 0x9000 = 0x9000" "frame_addr (frame_no 0x9000) = 0x9000"
    by (simp_all add: std_crates_def frame_no_def frame_addr_def)
  have "\<exists>v :: u32. \<exists>refs s. locked_read std_crates pic_devices (machine_mmap std_crates flat_mapper True) 0x9000
     (handler_new, example_machine) = Inr (v, refs, s)"
    using example_handler_map by (auto simp: locked_read_def res_simps crates_PhysAddr_new [OF std_crates_ok] c
        on_machine_def Let_def)
  then obtain v :: u32 and refs s where run: "locked_read std_crates pic_devices
      (machine_mmap std_crates flat_mapper True) 0x9000 (handler_new, example_machine) = Inr (v, refs, s)" by blast
  have "ref_count (handler_new :: UnmapGuard mapping_refs) 0x9000 = 0"
    by (simp add: ref_count_def handler_new_def)
  then have "ref_count refs 0x9000 = 1"
    using locked_read_keeps_mapping [OF example_machine_good handler_new_inv _ run] c by simp
  with run show ?thesis by blast
qed

end
