(* ===== verification/Acpi.thy ===== *)
theory Acpi
  imports Acpi_Handler Timer
begin

text \<open>
  The ACPI driver of \<^verbatim>\<open>src/acpi.rs\<close>: reading the tables, enabling ACPI mode, and the sleep states.
  The crates \<^verbatim>\<open>acpi\<close> and \<^verbatim>\<open>aml\<close> are parameters. Both call back into the memory handler and so work
  on the state \<open>'s\<close> of handler and machine.
\<close>

section \<open>The crates acpi and aml\<close>

record ('n, 'v, 'c, 's) aml_crate =
  AmlName_from_str :: "string \<Rightarrow> 'n option"
  AmlContext_new :: 'c
  parse_table :: "usize \<Rightarrow> usize \<Rightarrow> ('c \<times> 's, bool) eff"
  initialize_objects :: "('c \<times> 's, bool) eff"
  invoke_method :: "'n \<Rightarrow> 'v option \<Rightarrow> ('c \<times> 's, 'v option) eff"
  as_package :: "'v \<Rightarrow> 'v list option"
  as_integer :: "'c \<Rightarrow> 'v \<Rightarrow> u64 option"
  AmlValue_Integer :: "u64 \<Rightarrow> 'v"

text \<open>
  \<^verbatim>\<open>parse_table\<close> is given the address and the length of the stream, the first argument of
  \<^verbatim>\<open>invoke_method\<close> after the name is \<^verbatim>\<open>arg_0\<close>. An error is \<open>False\<close> or \<open>None\<close>: the kernel does not look
  at it.
\<close>

record AmlTable =
  table_address :: usize
  table_length :: u32

record Fadt =
  pm1a_control_block :: "u64 option"
  pm1b_control_block :: "u64 option option"
  fadt_acpi_enable :: u8
  fadt_smi_cmd_port :: u32

record ('t, 'p, 's) acpi_crate =
  search_for_rsdp_bios :: "('s, 't option) eff"
  dsdt :: "'t \<Rightarrow> AmlTable option"
  ssdts :: "'t \<Rightarrow> AmlTable list"
  get_sdt_FADT :: "'t \<Rightarrow> ('s, Fadt option option) eff"
  tables_platform_info :: "'t \<Rightarrow> ('s, 'p option) eff"

section \<open>State and operations\<close>

definition SLP_EN :: u16 where "SLP_EN = push_bit 13 1"

datatype SleepState = S1 | S2 | S3 | S4 | S5

record ('t, 'c) Acpi =
  tables :: 't
  aml_context :: 'c
  smi_cmd_port :: u16
  pm1a_cnt :: u16
  pm1b_cnt :: "u16 option"
  acpi_enable :: u8

definition sleep_state_name :: "SleepState \<Rightarrow> string" where
  "sleep_state_name state =
     (case state of
        S1 \<Rightarrow> CHR 0x5C # ''_S1'' | S2 \<Rightarrow> CHR 0x5C # ''_S2'' | S3 \<Rightarrow> CHR 0x5C # ''_S3''
      | S4 \<Rightarrow> CHR 0x5C # ''_S4'' | S5 \<Rightarrow> CHR 0x5C # ''_S5'')"

definition as_aml_name :: "('n, 'v, 'c, 's) aml_crate \<Rightarrow> SleepState \<Rightarrow> 'n res" where
  "as_aml_name A state = unwrap (AmlName_from_str A (sleep_state_name state))"

text \<open>\<^verbatim>\<open>enable\<close>: one poll of the control registers, and the loop of at most 300 polls.\<close>

definition sci_poll :: "devices \<Rightarrow> ('t, 'c) Acpi \<Rightarrow> ('z hw_scheme, bool) eff" where
  "sci_poll D self =
     bnd (read_from_port D (pm1a_cnt self)) (\<lambda>v :: u16.
     if v AND 1 = 1 then
       (case pm1b_cnt self of
          None \<Rightarrow> ret True
        | Some cnt \<Rightarrow> bnd (read_from_port D cnt) (\<lambda>w :: u16. ret (w AND 1 = 1)))
     else ret False)"

primrec enable_poll :: "devices \<Rightarrow> ('t, 'c) Acpi \<Rightarrow> nat \<Rightarrow> ('z hw_scheme, bool) eff" where
  "enable_poll D self 0 = ret False"
| "enable_poll D self (Suc n) =
     bnd (sci_poll D self) (\<lambda>enabled.
     if enabled then ret True else bnd (sleep 10) (\<lambda>_. enable_poll D self n))"

definition enable :: "devices \<Rightarrow> ('t, 'c) Acpi \<Rightarrow> ('z hw_scheme, bool) eff" where
  "enable D self =
     (if smi_cmd_port self = 0 \<or> acpi_enable self = 0 then ret False
      else bnd (write_to_port (smi_cmd_port self) (acpi_enable self)) (\<lambda>_. enable_poll D self 300))"

text \<open>
  The operations that run AML code change the AML context in the \<^verbatim>\<open>Acpi\<close> value; the state is the
  pair of the value and the state below it.
\<close>

definition get_sleep_state ::
    "('n, 'v, 'c, 's) aml_crate \<Rightarrow> SleepState \<Rightarrow> (('t, 'c) Acpi \<times> 's, (u16 \<times> u16) option) eff" where
  "get_sleep_state A state = (\<lambda>(self, s).
     rbind (as_aml_name A state) (\<lambda>name.
     rbind (invoke_method A name None (aml_context self, s)) (\<lambda>(r, ctx, s').
     let self' = self\<lparr>aml_context := ctx\<rparr>
     in case r of
          None \<Rightarrow> Inr (None, self', s')
        | Some v \<Rightarrow>
            (case as_package A v of
               Some items \<Rightarrow>
                 rbind (index items 0) (\<lambda>item.
                 rbind (unwrap (as_integer A ctx item)) (\<lambda>res.
                 Inr (Some (ucast res AND 7, ucast (drop_bit 8 res) AND 7), self', s')))
             | None \<Rightarrow> Inr (None, self', s')))))"

definition set_sleep_state ::
    "('n, 'v, 'c, 'r \<times> 'z hw_scheme) aml_crate \<Rightarrow> SleepState \<Rightarrow>
     (('t, 'c) Acpi \<times> 'r \<times> 'z hw_scheme, bool) eff" where
  "set_sleep_state A state =
     bnd (get_sleep_state A state) (\<lambda>val.
     case val of
       None \<Rightarrow> ret False
     | Some (slp_typa, slp_typb) \<Rightarrow> (\<lambda>(self, refs, s).
         rbind (write_to_port (pm1a_cnt self) (SLP_EN OR push_bit 10 slp_typa) s) (\<lambda>(_, s1).
         rbind (case pm1b_cnt self of
                  Some cnt \<Rightarrow> write_to_port cnt (SLP_EN OR push_bit 10 slp_typb) s1
                | None \<Rightarrow> Inr ((), s1)) (\<lambda>(_, s2).
         Inr (True, self, refs, s2)))))"

definition platform_info :: "('t, 'p, 's) acpi_crate \<Rightarrow> ('t, 'c) Acpi \<Rightarrow> ('s, 'p) eff" where
  "platform_info T self s =
     rbind (tables_platform_info T (tables self) s) (\<lambda>(r, s').
     rbind (expect ''Failed to get platform info'' r) (\<lambda>info. Inr (info, s')))"

section \<open>Reading the tables\<close>

definition on_second :: "('s, 'a) eff \<Rightarrow> ('c \<times> 's, 'a) eff" where
  "on_second f = (\<lambda>(c, s). rmap (\<lambda>(r, s'). (r, c, s')) (f s))"

text \<open>Mapping and parsing one table: the body for the DSDT and of the loop over the SSDTs.\<close>

definition map_table ::
    "crates \<Rightarrow> (u64 \<Rightarrow> ('s, MapToError + 'g) eff) \<Rightarrow> AmlTable \<Rightarrow> ('g mapping_refs \<times> 's, unit) eff" where
  "map_table E dmap t =
     bnd (lift_res (PhysAddr_new E (table_address t))) (\<lambda>a.
     let start = containing_address E a
     in bnd (lift_res (checked_add (table_address t) (ucast (table_length t)))) (\<lambda>limit.
        bnd (lift_res (PhysAddr_new E limit)) (\<lambda>b.
        let fin = containing_address E b
        in for_eff (handler_map dmap) (range_inclusive E start fin))))"

definition load_table ::
    "crates \<Rightarrow> ('n, 'v, 'c, 'g mapping_refs \<times> 's) aml_crate \<Rightarrow> (u64 \<Rightarrow> ('s, MapToError + 'g) eff) \<Rightarrow>
     AmlTable \<Rightarrow> ('c \<times> 'g mapping_refs \<times> 's, unit) eff" where
  "load_table E A dmap t =
     bnd (on_second (map_table E dmap t)) (\<lambda>_.
     bnd (parse_table A (table_address t) (ucast (table_length t))) (\<lambda>ok.
     lift_res (if ok then Inr () else Inl (Expect ''Failed to parse the dsdt''))))"

text \<open>
  \<open>dbg\<close> is \<^verbatim>\<open>log::debug!\<close> with the line of the call; \<^verbatim>\<open>log::trace!\<close> is below the level that \<^verbatim>\<open>init\<close> sets and
  does nothing.
\<close>

definition bios_get_acpi ::
    "crates \<Rightarrow> ('t, 'p, 'g mapping_refs \<times> 's) acpi_crate \<Rightarrow>
     ('n, 'v, 'c, 'g mapping_refs \<times> 's) aml_crate \<Rightarrow> (u32 \<Rightarrow> string \<Rightarrow> ('s, unit) eff) \<Rightarrow>
     (u64 \<Rightarrow> ('s, MapToError + 'g) eff) \<Rightarrow> 's \<Rightarrow> (('t, 'c) Acpi \<times> 'g mapping_refs \<times> 's) res" where
  "bios_get_acpi E T A dbg dmap s0 =
     rbind (dbg 111 ''Reading the acpi tables'' s0) (\<lambda>(_, s).
     rbind (search_for_rsdp_bios T (handler_new, s)) (\<lambda>(found, h0).
     rbind (unwrap found) (\<lambda>tb.
     rbind (on_second (dbg 118 ''Reading the dsdt'') h0) (\<lambda>(_, h).
     rbind (for_eff (load_table E A dmap) (case dsdt T tb of None \<Rightarrow> [] | Some t \<Rightarrow> [t]) (AmlContext_new A, h))
       (\<lambda>(_, c1).
     rbind (for_eff (\<lambda>t. bnd (on_second (on_second (dbg 139 ''Reading a ssdt''))) (\<lambda>_. load_table E A dmap t))
       (ssdts T tb) c1) (\<lambda>(_, c2).
     rbind (initialize_objects A c2) (\<lambda>(ok, ctx, h3).
     rbind (if ok then Inr () else Inl (Expect ''Failed to init the aml objects'')) (\<lambda>_.
     rbind (get_sdt_FADT T tb h3) (\<lambda>(r, h4).
     rbind (expect ''Error when serching for the FADT'' r) (\<lambda>r'.
     rbind (expect ''Couldn't find the FADT'' r') (\<lambda>fadt.
     rbind (expect ''Error when parsing pm1a control block'' (pm1a_control_block fadt)) (\<lambda>pm1a.
     rbind (expect ''Error when parsing pm1b control block'' (pm1b_control_block fadt)) (\<lambda>pm1b.
     Inr (\<lparr>tables = tb, aml_context = ctx, smi_cmd_port = ucast (fadt_smi_cmd_port fadt),
            pm1a_cnt = ucast pm1a,
            pm1b_cnt = (case pm1b of
                Some address \<Rightarrow> if address \<noteq> 0 then Some (ucast address) else None
              | None \<Rightarrow> None),
            acpi_enable = fadt_acpi_enable fadt\<rparr>, h4))))))))))))))"

section \<open>Enabling ACPI\<close>

definition halts :: "io_event list \<Rightarrow> nat" where
  "halts t = length (filter (\<lambda>e. e = Halt) t)"

lemma halts_append [simp]: "halts (t @ u) = halts t + halts u"
  by (simp add: halts_def)

lemma halts_simps [simp]:
  "halts [] = 0" "halts (Halt # t) = Suc (halts t)" "halts (PortIn n p v # t) = halts t"
  "halts (PortOut n p v # t) = halts t" "halts (replicate k Halt) = k"
  by (simp_all add: halts_def filter_replicate)

text \<open>
  The firmware reacts to the command after \<open>m\<close> ticks: after the events \<open>base\<close>, the enable bit of a
  control register reads as set exactly from the \<open>m\<close>-th halt on.
\<close>

definition sci_enabled_after :: "devices \<Rightarrow> ('t, 'c) Acpi \<Rightarrow> io_event list \<Rightarrow> nat \<Rightarrow> bool" where
  "sci_enabled_after D acpi base m \<longleftrightarrow>
     (\<forall>t. \<forall>port \<in> insert (pm1a_cnt acpi) (set_option (pm1b_cnt acpi)).
        bit (word_of_nat (port_answer D (base @ t) 16 port) :: u16) 0 \<longleftrightarrow> m \<le> halts t)"

lemma and_one_iff: "(v AND 1 = (1 :: u16)) \<longleftrightarrow> bit v 0"
  by (simp add: and_one_eq mod2_eq_if bit_0)

lemma sci_poll_run:
  assumes "sci_enabled_after D acpi base m" and "trace s = base @ t"
  shows "\<exists>u. sci_poll D acpi s = Inr (m \<le> halts t, emits u s) \<and> halts u = 0"
  using assms
  by (auto simp: sci_poll_def res_simps Let_def sci_enabled_after_def and_one_iff split: option.splits)

lemma enable_poll_run:
  assumes "sci_enabled_after D acpi base m" and "trace s = base @ t"
  shows "\<exists>u. enable_poll D acpi n s = Inr (\<exists>k < n. m \<le> halts t + 10 * k, emits u s) \<and>
    halts u \<le> 10 * n \<and> (m \<le> halts t + 10 * n \<longrightarrow> (if m \<le> halts t then halts u = 0 else halts t + halts u < m + 10))"
  using assms(2)
proof (induction n arbitrary: s t)
  case 0
  show ?case by (intro exI [of _ "[]"]) auto
next
  case (Suc n)
  from sci_poll_run [OF assms(1) Suc.prems] obtain u where
    u: "sci_poll D acpi s = Inr (m \<le> halts t, emits u s)" "halts u = 0" by blast
  show ?case
  proof (cases "m \<le> halts t")
    case True
    then have "\<exists>k < Suc n. m \<le> halts t + 10 * k" by auto
    with True u show ?thesis by (intro exI [of _ u]) (simp add: res_simps)
  next
    case False
    let ?s = "emits (u @ replicate 10 Halt) s" and ?t = "t @ u @ replicate 10 Halt"
    have "trace ?s = base @ ?t" using Suc.prems by simp
    from Suc.IH [OF this] obtain w where
      w: "enable_poll D acpi n ?s = Inr (\<exists>k < n. m \<le> halts ?t + 10 * k, emits w ?s)" "halts w \<le> 10 * n"
        "m \<le> halts ?t + 10 * n \<longrightarrow> (if m \<le> halts ?t then halts w = 0 else halts ?t + halts w < m + 10)" by blast
    have "(\<exists>k < n. m \<le> halts ?t + 10 * k) \<longleftrightarrow> (\<exists>k < Suc n. m \<le> halts t + 10 * k)"
      using False u(2) by (auto simp: Ex_less_Suc2)
    with w u False show ?thesis
      by (intro exI [of _ "(u @ replicate 10 Halt) @ w"]) (auto simp: res_simps sleep_run split: if_splits)
  qed
qed

section \<open>Properties\<close>


definition example_acpi :: "(unit, unit) Acpi" where
  "example_acpi = \<lparr>tables = (), aml_context = (), smi_cmd_port = 0xB2, pm1a_cnt = 0x604, pm1b_cnt = None,
     acpi_enable = 2\<rparr>"

definition acpi_devices :: devices where
  "acpi_devices = \<lparr>port_answer = (\<lambda>t n port. if 25 \<le> halts t then 1 else 0), load_answer = (\<lambda>t n a. 0)\<rparr>"


text \<open>The value of a sleep control register: the type field and the enable bit do not overlap.\<close>

lemma low_three_bits: "(ucast (w :: u64) AND 7 :: u16) = word_of_nat (unat w mod 8)"
proof -
  have "unat (ucast w AND mask 3 :: u16) = unat w mod 8"
    unfolding take_bit_eq_mask [symmetric] unsigned_take_bit_eq unsigned_ucast_eq
    by (simp add: take_bit_eq_mod mod_mod_cancel)
  then show ?thesis unfolding word_unat_eq_iff low_masks by (simp add: unsigned_of_nat take_bit_nat_eq_self)
qed

lemma sleep_register: "unat (SLP_EN OR push_bit 10 (ucast (w :: u64) AND 7)) = 2 ^ 13 + 2 ^ 10 * (unat w mod 8)"
proof -
  define k where "k = unat w mod 8"
  have "k \<in> {0, 1, 2, 3, 4, 5, 6, 7}" by (auto simp: k_def)
  then show ?thesis unfolding low_three_bits k_def [symmetric] SLP_EN_def by auto
qed

lemma unat_drop_byte: "unat (drop_bit 8 (w :: u64)) = unat w div 256"
  by (simp add: drop_bit_eq_div unat_div_distrib)

text \<open>A machine and an AML interpreter whose only method result is a package with one integer.\<close>

definition example_aml :: "(string, u64 list, unit, 's) aml_crate" where
  "example_aml = \<lparr>AmlName_from_str = Some, AmlContext_new = (), parse_table = (\<lambda>a n. ret True),
     initialize_objects = ret True, invoke_method = (\<lambda>name arg. ret (Some [0x0705])),
     as_package = (\<lambda>v. Some (map (\<lambda>x. [x]) v)), as_integer = (\<lambda>c v. Some (hd v)), AmlValue_Integer = (\<lambda>n. [n])\<rparr>"

lemma set_sleep_state_run:
  assumes "AmlName_from_str A (sleep_state_name state) = Some name"
    and "invoke_method A name None (aml_context acpi, refs, s) = Inr (r, ctx, refs', s')"
  shows "set_sleep_state A state (acpi, refs, s) =
    (let acpi' = acpi\<lparr>aml_context := ctx\<rparr>
     in case Option.bind r (as_package A) of
          None \<Rightarrow> Inr (False, acpi', refs', s')
        | Some [] \<Rightarrow> Inl IndexOutOfBounds
        | Some (item # _) \<Rightarrow>
            (case as_integer A ctx item of
               None \<Rightarrow> Inl UnwrapFailed
             | Some v \<Rightarrow> Inr (True, acpi', refs', emits
                 (PortOut 16 (pm1a_cnt acpi) (2 ^ 13 + 2 ^ 10 * (unat v mod 8)) #
                  (case pm1b_cnt acpi of
                     None \<Rightarrow> []
                   | Some cnt \<Rightarrow> [PortOut 16 cnt (2 ^ 13 + 2 ^ 10 * (unat v div 2 ^ 8 mod 8))])) s')))"
proof -
  show ?thesis
    using assms
    by (simp add: set_sleep_state_def get_sleep_state_def as_aml_name_def res_simps Let_def sleep_register
        unat_drop_byte index_def del: push_bit_and split: option.splits list.splits)
qed

text \<open>
  C36. \<^verbatim>\<open>set_sleep_state\<close> after the AML method has run: if the method returned a package that starts with
  an integer, the control registers are written with the enable bit 13 and the sleep type in bits
  10 to 12, the type of the first register being the low three bits of the integer and that of the
  second, if there is one, its bits 8 to 10, and the result is true; if the method failed or did
  not return a package nothing is written and the result is false. An empty package or one that
  starts with something else panics.
\<close>

theorem set_sleep_state_writes:
  assumes "AmlName_from_str A (sleep_state_name state) = Some name"
    and "invoke_method A name None (aml_context acpi, refs, s) = Inr (r, ctx, refs', s')"
  shows "set_sleep_state A state (acpi, refs, s) =
    (let acpi' = acpi\<lparr>aml_context := ctx\<rparr>
     in case Option.bind r (as_package A) of
          None \<Rightarrow> Inr (False, acpi', refs', s')
        | Some [] \<Rightarrow> Inl IndexOutOfBounds
        | Some (item # _) \<Rightarrow>
            (case as_integer A ctx item of
               None \<Rightarrow> Inl UnwrapFailed
             | Some v \<Rightarrow> Inr (True, acpi', refs', emits
                 (PortOut 16 (pm1a_cnt acpi) (2 ^ 13 + 2 ^ 10 * (unat v mod 8)) #
                  (case pm1b_cnt acpi of
                     None \<Rightarrow> []
                   | Some cnt \<Rightarrow> [PortOut 16 cnt (2 ^ 13 + 2 ^ 10 * (unat v div 2 ^ 8 mod 8))])) s')))"
  using assms by (rule set_sleep_state_run)

theorem set_sleep_state_writes_witness:
  "set_sleep_state example_aml S5 (example_acpi, (), \<lparr>trace = [], interrupt_flag = True\<rparr>) =
     Inr (True, example_acpi, (), \<lparr>trace = [PortOut 16 0x604 0x3400], interrupt_flag = True\<rparr>)"
proof -
  have n: "AmlName_from_str example_aml (sleep_state_name S5) = Some (sleep_state_name S5)"
    by (simp add: example_aml_def)
  have m: "invoke_method example_aml (sleep_state_name S5) None
      (aml_context example_acpi, (), \<lparr>trace = [], interrupt_flag = True\<rparr>) =
      Inr (Some [0x0705], (), (), \<lparr>trace = [], interrupt_flag = True\<rparr>)" by (simp add: example_aml_def)
  show ?thesis
    using set_sleep_state_writes [OF n m]
    by (simp add: example_aml_def example_acpi_def emits_def)
qed

section \<open>Reading the tables keeps the handler sound\<close>

text \<open>
  The state of handler and machine is sound: the paging context is set up, and the handler's map
  describes mapped frames.
\<close>

definition handler_sound ::
    "crates \<Rightarrow> 'm mapper_ops \<Rightarrow> ('m \<Rightarrow> translation) \<Rightarrow> UnmapGuard mapping_refs \<times> ('m, 'z) machine_scheme \<Rightarrow> bool"
where
  "handler_sound E M tr h \<longleftrightarrow>
     machine_good E M tr (snd h) \<and> handler_inv guard_page (machine_mapped tr) machine_guard_ok h"

definition keeps :: "('s \<Rightarrow> bool) \<Rightarrow> ('s, 'a) eff \<Rightarrow> bool" where
  "keeps P f \<longleftrightarrow> (\<forall>s r s'. P s \<longrightarrow> f s = Inr (r, s') \<longrightarrow> P s')"

lemma keepsD: "keeps P f \<Longrightarrow> P s \<Longrightarrow> f s = Inr (r, s') \<Longrightarrow> P s'"
  by (auto simp: keeps_def)

lemma keeps_bnd: "keeps P f \<Longrightarrow> (\<And>x. keeps P (g x)) \<Longrightarrow> keeps P (bnd f g)"
  unfolding keeps_def bnd_eq_Inr_iff by blast

lemma keeps_on_second: "keeps P f \<Longrightarrow> keeps (\<lambda>(c, s). P s) (on_second f)"
  by (auto simp: keeps_def on_second_def res_iffs)

lemma keeps_for_eff: "(\<And>x. x \<in> set xs \<Longrightarrow> keeps P (f x)) \<Longrightarrow> keeps P (for_eff f xs)"
proof (induction xs)
  case (Cons x xs)
  then have "keeps P (f x)" "keeps P (for_eff f xs)" by auto
  then show ?case unfolding keeps_def for_eff.simps bnd_eq_Inr_iff by blast
qed (simp add: keeps_def)

definition table_bounded :: "AmlTable \<Rightarrow> bool" where
  "table_bounded t \<longleftrightarrow> unat (table_address t) + unat (table_length t) < 2 ^ 47"

lemma map_table_run:
  assumes E: "crates_ok E" and "table_bounded t" and "map_table E dmap t h = Inr (u, h')"
  shows "for_eff (handler_map dmap) (region_frames (table_address t) (ucast (table_length t))) h = Inr ((), h')"
proof -
  have "unat (table_address t) + unat (ucast (table_length t) :: usize) < 2 ^ 47" using assms(2) by (simp add: table_bounded_def)
  then show ?thesis
    using assms(3) E by (auto simp: map_table_def bnd_eq_Inr_iff lift_res_eq_Inr_iff Let_def checked_add_eq_Inr_iff
        crates_PhysAddr_new crates_containing crates_range_inclusive region_frames_def simp del: upt_Suc split: if_splits)
qed

lemma map_table_sound:
  assumes sound: "handler_sound E M tr (refs, s)" and t: "table_bounded t"
    and run: "map_table E (machine_mmap E M True) t (refs, s) = Inr (u, refs', s')"
  shows "handler_sound E M tr (refs', s')"
    and "\<forall>x. table_address t \<le> x \<and> x \<le> table_address t + ucast (table_length t) \<longrightarrow>
      frame_addr (frame_no x) \<in> machine_mapped tr s'"
proof -
  let ?a = "table_address t" and ?n = "ucast (table_length t) :: usize"
  have E: "crates_ok E" and good: "machine_good E M tr s"
    and inv: "handler_inv guard_page (machine_mapped tr) machine_guard_ok (refs, s)"
    using sound by (simp_all add: handler_sound_def machine_good_def paging_good_def)
  from t have b: "unat ?a + unat ?n < 2 ^ 47" by (simp add: table_bounded_def)
  have "for_eff (handler_map (machine_mmap E M True)) (region_frames ?a ?n) (refs, s) = Inr ((), refs', s')"
    by (rule map_table_run [OF E t run])
  from dev.handler_map_loop [OF good inv region_frames_device [OF b] region_frames_distinct [OF b] this]
  show "handler_sound E M tr (refs', s')"
    and "\<forall>x. ?a \<le> x \<and> x \<le> ?a + ?n \<longrightarrow> frame_addr (frame_no x) \<in> machine_mapped tr s'"
    using region_frames_byte [OF b] by (auto simp: handler_sound_def)
qed

lemma load_table_run:
  assumes "load_table E A dmap t (ctx, h) = Inr (u, ctx', h')"
  obtains h1 where "map_table E dmap t h = Inr ((), h1)"
    and "parse_table A (table_address t) (ucast (table_length t)) (ctx, h1) = Inr (True, ctx', h')"
  using assms by (auto simp: load_table_def bnd_eq_Inr_iff on_second_def res_iffs lift_res_eq_Inr_iff split: if_splits)

text \<open>
  A table is parsed only once it is mapped: when loading a table succeeds, the AML parser was called
  on the whole table in a state in which every byte of it lies in a mapped page.
\<close>

theorem load_table_parses_mapped:
  assumes "handler_sound E M tr (refs, s)" and "table_bounded t"
    and "load_table E A (machine_mmap E M True) t (ctx, refs, s) = Inr (u, ctx', h')"
  shows "\<exists>refs1 s1. parse_table A (table_address t) (ucast (table_length t)) (ctx, refs1, s1) = Inr (True, ctx', h') \<and>
    handler_sound E M tr (refs1, s1) \<and>
    (\<forall>x. table_address t \<le> x \<and> x \<le> table_address t + ucast (table_length t) \<longrightarrow>
       frame_addr (frame_no x) \<in> machine_mapped tr s1)"
proof -
  obtain h1 where h1: "map_table E (machine_mmap E M True) t (refs, s) = Inr ((), h1)"
    "parse_table A (table_address t) (ucast (table_length t)) (ctx, h1) = Inr (True, ctx', h')"
    using assms(3) by (rule load_table_run)
  obtain refs1 s1 where s1: "h1 = (refs1, s1)" by (cases h1)
  from map_table_sound [OF assms(1,2) h1(1) [unfolded s1]] h1(2) s1 show ?thesis by blast
qed

definition example_table :: AmlTable where
  "example_table = \<lparr>table_address = 0x9010, table_length = 0x20\<rparr>"

lemma example_sound: "handler_sound std_crates flat_mapper (\<lambda>m. m) (handler_new, example_machine)"
  by (simp add: handler_sound_def example_machine_good handler_new_inv)

lemma example_load:
  "\<exists>h. load_table std_crates example_aml (machine_mmap std_crates flat_mapper True) example_table
     ((), handler_new, example_machine) = Inr ((), (), h)"
proof -
  have "containing_address std_crates 0x9010 = 0x9000" "containing_address std_crates 0x9030 = 0x9000"
    "range_inclusive std_crates 0x9000 0x9000 = [0x9000]"
    by (simp_all add: std_crates_def frame_no_def frame_addr_def)
  with example_handler_map show ?thesis
    by (auto simp: load_table_def map_table_def on_second_def example_table_def example_aml_def res_simps Let_def
        crates_PhysAddr_new [OF std_crates_ok] checked_add_def)
qed

theorem load_table_parses_mapped_witness:
  "\<exists>h refs1 s1. load_table std_crates example_aml (machine_mmap std_crates flat_mapper True) example_table
       ((), handler_new, example_machine) = Inr ((), (), h) \<and>
     frame_addr (frame_no 0x9020) \<in> machine_mapped (\<lambda>m. m) s1 \<and>
     parse_table example_aml 0x9010 0x20 ((), refs1, s1) = Inr (True, (), h)"
proof -
  obtain h where h: "load_table std_crates example_aml (machine_mmap std_crates flat_mapper True) example_table
     ((), handler_new, example_machine) = Inr ((), (), h)" using example_load by blast
  have t: "table_bounded example_table" "table_address example_table = 0x9010"
    "(ucast (table_length example_table) :: usize) = 0x20" by (simp_all add: table_bounded_def example_table_def)
  obtain refs1 s1 where "parse_table example_aml 0x9010 0x20 ((), refs1, s1) = Inr (True, (), h)"
    and "\<forall>x. (0x9010 :: u64) \<le> x \<and> x \<le> 0x9010 + 0x20 \<longrightarrow> frame_addr (frame_no x) \<in> machine_mapped (\<lambda>m. m) s1"
    using load_table_parses_mapped [OF example_sound t(1) h] unfolding t by blast
  moreover from this(2) [rule_format, of "0x9020"] have "frame_addr (frame_no 0x9020) \<in> machine_mapped (\<lambda>m. m) s1"
    by simp
  ultimately show ?thesis using h by blast
qed

text \<open>Whatever the crates, the logger and the mapping of the tables keep, \<^verbatim>\<open>bios_get_acpi\<close> keeps.\<close>

lemma load_table_keeps:
  assumes "keeps P (map_table E dmap t)" and "\<And>a n. keeps (\<lambda>(c, h). P h) (parse_table A a n)"
  shows "keeps (\<lambda>(c, h). P h) (load_table E A dmap t)"
  unfolding keeps_def
proof (intro allI impI)
  fix x r y assume P: "case x of (c, h) \<Rightarrow> P h" and run: "load_table E A dmap t x = Inr (r, y)"
  obtain c h c' h' where xy: "x = (c, h)" "y = (c', h')" by (metis prod.exhaust)
  obtain h1 where h1: "map_table E dmap t h = Inr ((), h1)"
    "parse_table A (table_address t) (ucast (table_length t)) (c, h1) = Inr (True, c', h')"
    using run unfolding xy by (rule load_table_run)
  have "P h1" using keepsD [OF assms(1) _ h1(1)] P xy(1) by simp
  with keepsD [OF assms(2) _ h1(2)] show "case y of (c, h) \<Rightarrow> P h" unfolding xy by simp
qed

lemma bios_get_acpi_keeps:
  assumes "keeps P (search_for_rsdp_bios T)" and "\<And>a n. keeps (\<lambda>(c, h). P h) (parse_table A a n)"
    and "keeps (\<lambda>(c, h). P h) (initialize_objects A)" and "\<And>tb. keeps P (get_sdt_FADT T tb)"
    and "\<And>tb t. t \<in> set_option (dsdt T tb) \<union> set (ssdts T tb) \<Longrightarrow> keeps P (map_table E dmap t)"
    and "\<And>line msg. keeps P (on_second (dbg line msg))"
    and "P (handler_new, s)" and "bios_get_acpi E T A dbg dmap s = Inr (acpi, h)"
  shows "P h \<and>
    (\<exists>fadt pm1a pm1b h3. get_sdt_FADT T (tables acpi) h3 = Inr (Some (Some fadt), h) \<and>
       pm1a_control_block fadt = Some pm1a \<and> pm1b_control_block fadt = Some pm1b \<and>
       smi_cmd_port acpi = ucast (fadt_smi_cmd_port fadt) \<and> acpi_enable acpi = fadt_acpi_enable fadt \<and>
       pm1a_cnt acpi = ucast pm1a \<and> (pm1b_cnt acpi = None \<longleftrightarrow> pm1b \<in> {None, Some 0}))"
proof -
  let ?Q = "\<lambda>(c, h). P h" and ?load = "load_table E A dmap"
  let ?log = "on_second (on_second (dbg 139 ''Reading a ssdt''))"
  from assms(8) obtain s1 tb h0 h1 c2 c3 ctx h4 fadt pm1a pm1b where
    0: "dbg 111 ''Reading the acpi tables'' s = Inr ((), s1)"
    and 1: "search_for_rsdp_bios T (handler_new, s1) = Inr (Some tb, h0)"
      "on_second (dbg 118 ''Reading the dsdt'') h0 = Inr ((), h1)"
    and 2: "for_eff ?load (case dsdt T tb of None \<Rightarrow> [] | Some t \<Rightarrow> [t]) (AmlContext_new A, h1) = Inr ((), c2)"
    and 3: "for_eff (\<lambda>t. bnd ?log (\<lambda>_. ?load t)) (ssdts T tb) c2 = Inr ((), c3)"
    and 4: "initialize_objects A c3 = Inr (True, ctx, h4)"
    and 5: "get_sdt_FADT T tb h4 = Inr (Some (Some fadt), h)"
    and 6: "pm1a_control_block fadt = Some pm1a" "pm1b_control_block fadt = Some pm1b"
    and 7: "acpi = \<lparr>tables = tb, aml_context = ctx, smi_cmd_port = ucast (fadt_smi_cmd_port fadt),
            pm1a_cnt = ucast pm1a, pm1b_cnt = (case pm1b of
                Some address \<Rightarrow> if address \<noteq> 0 then Some (ucast address) else None | None \<Rightarrow> None),
            acpi_enable = fadt_acpi_enable fadt\<rparr>"
    by (auto simp: bios_get_acpi_def res_iffs on_second_def split: if_splits)
  have "P (handler_new, s1)"
    using keepsD [OF assms(6) [of 111 "''Reading the acpi tables''"] assms(7)] by (simp add: on_second_def 0 res_simps)
  then have "P h0" using 1(1) keepsD [OF assms(1)] by blast
  then have "P h1" using 1(2) keepsD [OF assms(6)] by blast
  then have "?Q (AmlContext_new A, h1)" by simp
  moreover have "keeps ?Q (for_eff ?load (case dsdt T tb of None \<Rightarrow> [] | Some t \<Rightarrow> [t]))"
    using assms(5) [of _ tb] by (intro keeps_for_eff load_table_keeps [OF _ assms(2)]; force split: option.splits)+
  moreover have "keeps ?Q (for_eff (\<lambda>t. bnd ?log (\<lambda>_. ?load t)) (ssdts T tb))"
    using assms(5) [of _ tb]
    by (intro keeps_for_eff keeps_bnd keeps_on_second assms(6) load_table_keeps [OF _ assms(2)]) blast
  ultimately have "?Q c3" using 2 3 unfolding keeps_def by blast
  with 4 assms(3) have "P h4" unfolding keeps_def by fastforce
  with 5 assms(4) have "P h" unfolding keeps_def by blast
  moreover have "pm1b_cnt acpi = None \<longleftrightarrow> pm1b \<in> {None, Some 0}" using 7 by (auto split: option.splits)
  ultimately show ?thesis using 5 6 7
    by (intro conjI exI [of _ fadt] exI [of _ pm1a] exI [of _ pm1b] exI [of _ h4]) simp_all
qed


definition example_acpi_crate :: "(unit, unit, 's) acpi_crate" where
  "example_acpi_crate = \<lparr>search_for_rsdp_bios = ret (Some ()), dsdt = (\<lambda>_. Some example_table), ssdts = (\<lambda>_. []),
     get_sdt_FADT = (\<lambda>_. ret (Some (Some \<lparr>pm1a_control_block = Some 0x604, pm1b_control_block = Some (Some 0),
       fadt_acpi_enable = 2, fadt_smi_cmd_port = 0xB2\<rparr>))), tables_platform_info = (\<lambda>_. ret (Some ()))\<rparr>"


end
