(* ===== verification/Io_Apic.thy ===== *)
theory Io_Apic
  imports Redirection Acpi
begin

text \<open>
  The \<^verbatim>\<open>Apic\<close> of \<^verbatim>\<open>src/apic.rs\<close>: the choice of the I/O APIC and the entry of an interrupt, and
  \<^verbatim>\<open>apic_init\<close>, which hands the interrupts over from the PICs. The platform description comes from
  the crate \<^verbatim>\<open>acpi\<close>; \<open>without_interrupts\<close> of the crate \<^verbatim>\<open>x86_64\<close> is the parameter \<open>WI\<close>.
\<close>

section \<open>State and operations\<close>

record IoApicInfo =
  info_address :: u32
  global_system_interrupt_base :: u32

record InterruptSourceOverride =
  isa_source :: u8
  global_system_interrupt :: u32

record ApicInfo =
  local_apic_address :: u64
  info_io_apics :: "IoApicInfo list"
  interrupt_source_overrides :: "InterruptSourceOverride list"

record Apic =
  apic_info :: ApicInfo
  io_apics :: "IOApic list"

definition get_interrupt_source :: "Apic \<Rightarrow> u8 \<Rightarrow> u8" where
  "get_interrupt_source self vec =
     (case find (\<lambda>v. isa_source v = vec) (interrupt_source_overrides (apic_info self)) of
        Some v \<Rightarrow> ucast (global_system_interrupt v)
      | None \<Rightarrow> vec)"

text \<open>The loop body over \<^verbatim>\<open>(i, io_apic)\<close>, on the pair of \<^verbatim>\<open>idx\<close> and \<^verbatim>\<open>current_base\<close>.\<close>

definition select_step :: "u8 \<Rightarrow> nat \<times> IOApic \<Rightarrow> usize \<times> u8 \<Rightarrow> usize \<times> u8" where
  "select_step vec = (\<lambda>(i, io_apic) (idx, current_base).
     if vec < ioapic_base_interrupt io_apic then (idx, current_base)
     else if current_base < ioapic_base_interrupt io_apic then
       (word_of_nat i, ioapic_base_interrupt io_apic)
     else (idx, current_base))"

definition get_interrupt_ioapic :: "Apic \<Rightarrow> u8 \<Rightarrow> usize res" where
  "get_interrupt_ioapic self vec =
     rbind (index (io_apics self) 0) (\<lambda>first.
     Inr (fst (fold (select_step vec) (enumerate 0 (io_apics self)) (0, ioapic_base_interrupt first))))"

definition get_entry :: "devices \<Rightarrow> Apic \<Rightarrow> u8 \<Rightarrow> ('z hw_scheme, RedirEntry) eff" where
  "get_entry D self vec =
     (let vec = get_interrupt_source self vec
      in bnd (lift_res (get_interrupt_ioapic self vec)) (\<lambda>idx.
         bnd (lift_res (index (io_apics self) idx)) (\<lambda>io_apic. redir_entry D io_apic vec)))"

definition set_entry :: "Apic \<Rightarrow> u8 \<Rightarrow> RedirEntry \<Rightarrow> ('z hw_scheme, unit) eff" where
  "set_entry self vec entry =
     (let vec = get_interrupt_source self vec
      in bnd (lift_res (get_interrupt_ioapic self vec)) (\<lambda>idx.
         bnd (lift_res (index (io_apics self) idx)) (\<lambda>io_apic. set_redir_entry io_apic vec entry)))"

definition map_device_frame ::
    "crates \<Rightarrow> 'm mapper_ops \<Rightarrow> u64 \<Rightarrow> (('m, 'z) machine_scheme, unit) eff" where
  "map_device_frame E M base =
     bnd (lift_res (PhysAddr_new E base)) (\<lambda>a.
     bnd (lift_res (unwrap (from_start_address E a))) (\<lambda>frame.
     bnd (machine_mmap E M False frame) (\<lambda>r.
     bnd (lift_res (expect_ok ''Failed to identity map'' r)) (\<lambda>_. ret ()))))"

definition lapic_handover ::
    "crates \<Rightarrow> 'm mapper_ops \<Rightarrow> devices \<Rightarrow> u64 \<Rightarrow> (('m, 'z) machine_scheme, unit) eff" where
  "lapic_handover E M D base =
     bnd (map_device_frame E M base) (\<lambda>_ s.
     rbind (apic_handover D base (PICS s) s) (\<lambda>(c, s'). Inr ((), s'\<lparr>PICS := c\<rparr>)))"

text \<open>The loop that maps the I/O APICs and collects them.\<close>

definition collect_io_apics ::
    "crates \<Rightarrow> 'm mapper_ops \<Rightarrow> IoApicInfo list \<Rightarrow> (('m, 'z) machine_scheme, IOApic list) eff" where
  "collect_io_apics E M infos s =
     for_each (\<lambda>io_apic (acc, s).
       let base_address = ucast (info_address io_apic)
       in rbind (map_device_frame E M base_address s) (\<lambda>(_, s').
          Inr (acc @ [\<lparr>ioapic_address = base_address,
            ioapic_base_interrupt = ucast (global_system_interrupt_base io_apic)\<rparr>], s')))
     infos ([], s)"

text \<open>The entry of one interrupt: read it, give it its vector, unmask it, write it back.\<close>

definition route_interrupt :: "devices \<Rightarrow> Apic \<Rightarrow> u8 \<Rightarrow> u8 \<Rightarrow> ('z hw_scheme, unit) eff" where
  "route_interrupt D this irq vec =
     bnd (get_entry D this irq) (\<lambda>entry.
     let entry = set_vector entry vec;
         entry = set_masked entry False
     in set_entry this irq entry)"

definition apic_init_body ::
    "crates \<Rightarrow> 'm mapper_ops \<Rightarrow> devices \<Rightarrow> ('n, 'v, 'c, 'r \<times> ('m, 'z) machine_scheme) aml_crate \<Rightarrow> ApicInfo \<Rightarrow>
     (('t, 'c) Acpi \<times> 'r \<times> ('m, 'z) machine_scheme, Apic) eff" where
  "apic_init_body E M D A info = (\<lambda>(acpi, refs, s).
     rbind (unwrap (AmlName_from_str A (CHR 0x5C # ''_PIC''))) (\<lambda>name.
     rbind (invoke_method A name (Some (AmlValue_Integer A 1)) (aml_context acpi, refs, s)) (\<lambda>(_, ctx, refs', s1).
     rbind (lapic_handover E M D (local_apic_address info) s1) (\<lambda>(_, s2).
     rbind (collect_io_apics E M (info_io_apics info) s2) (\<lambda>(ios, s3).
     let this = \<lparr>apic_info = info, io_apics = ios\<rparr>
     in rbind (route_interrupt D this 0 32 s3) (\<lambda>(_, s4).
        rbind (route_interrupt D this 1 33 s4) (\<lambda>(_, s5).
        Inr (this, acpi\<lparr>aml_context := ctx\<rparr>, refs', s5))))))))"

definition apic_init where
  "apic_init E M D A WI info = WI (apic_init_body E M D A info)"

section \<open>Choosing the I/O APIC\<close>

lemma select_fold:
  assumes "fold (select_step vec) (enumerate 0 xs) (0, c0) = (i, c)"
  shows "c0 \<le> c \<and> (c = c0 \<and> i = 0 \<or>
      (\<exists>n < length xs. i = word_of_nat n \<and> c = ioapic_base_interrupt (xs ! n) \<and> c \<le> vec \<and> c0 < c)) \<and>
    (\<forall>j < length xs. ioapic_base_interrupt (xs ! j) \<le> vec \<longrightarrow> ioapic_base_interrupt (xs ! j) \<le> c)"
  using assms
proof (induction xs arbitrary: i c rule: rev_induct)
  case (snoc x xs)
  obtain i' c' where f: "fold (select_step vec) (enumerate 0 xs) (0, c0) = (i', c')" by fastforce
  note IH = snoc.IH [OF f]
  have step: "select_step vec (length xs, x) (i', c') = (i, c)"
    using snoc.prems f by (simp add: enumerate_append_eq)
  show ?case
  proof (cases "ioapic_base_interrupt x \<le> vec \<and> c' < ioapic_base_interrupt x")
    case True
    with step have "i = word_of_nat (length xs)" "c = ioapic_base_interrupt x"
      by (auto simp: select_step_def split: if_splits)
    with True IH show ?thesis
      by (auto simp: nth_append less_Suc_eq intro!: exI [of _ "length xs"])
  next
    case False
    with step have "i = i'" "c = c'" by (auto simp: select_step_def split: if_splits)
    with False IH show ?thesis by (auto simp: nth_append less_Suc_eq)
  qed
qed simp

text \<open>
  Which I/O APIC an interrupt goes to: if the base of the first one is not above the interrupt, the
  chosen one has the greatest base that is not above it. If the base of the first one is above the
  interrupt, the first one is chosen although it does not handle the interrupt. Without I/O APICs
  the lookup panics.
\<close>

theorem ioapic_selection:
  assumes "length (io_apics self) < 2 ^ 64"
  shows "case get_interrupt_ioapic self vec of
      Inl p \<Rightarrow> io_apics self = [] \<and> p = IndexOutOfBounds
    | Inr idx \<Rightarrow> unat idx < length (io_apics self) \<and>
        (let base = (\<lambda>j. ioapic_base_interrupt (io_apics self ! j))
         in if base 0 \<le> vec then
              base (unat idx) \<le> vec \<and> (\<forall>j < length (io_apics self). base j \<le> vec \<longrightarrow> base j \<le> base (unat idx))
            else idx = 0)"
proof (cases "io_apics self")
  case Nil
  then show ?thesis by (simp add: get_interrupt_ioapic_def index_def)
next
  case (Cons x xs)
  let ?ios = "io_apics self" let ?c0 = "ioapic_base_interrupt (?ios ! 0)"
  obtain i c where f: "fold (select_step vec) (enumerate 0 ?ios) (0, ?c0) = (i, c)" by fastforce
  have run: "get_interrupt_ioapic self vec = Inr i"
    using f Cons by (simp add: get_interrupt_ioapic_def index_def)
  have small: "n < length ?ios \<Longrightarrow> unat (word_of_nat n :: usize) = n" for n
    using assms by (simp add: unsigned_of_nat take_bit_nat_eq_self)
  from select_fold [OF f] have "unat i < length ?ios \<and> c = ioapic_base_interrupt (?ios ! unat i) \<and>
      (c = ?c0 \<and> i = 0 \<or> ?c0 < c \<and> c \<le> vec)" using small Cons by auto
  with select_fold [OF f] show ?thesis unfolding run by (auto simp: Let_def)
qed

definition two_io_apics :: Apic where
  "two_io_apics = \<lparr>apic_info = \<lparr>local_apic_address = 0xFEE00000, info_io_apics = [],
       interrupt_source_overrides = [\<lparr>isa_source = 0, global_system_interrupt = 2\<rparr>]\<rparr>,
     io_apics = [example_ioapic, \<lparr>ioapic_address = 0xFEC01000, ioapic_base_interrupt = 24\<rparr>]\<rparr>"

theorem ioapic_selection_witness:
  "\<exists>idx. get_interrupt_ioapic two_io_apics 30 = Inr idx \<and>
     ioapic_base_interrupt (io_apics two_io_apics ! unat idx) = 24"
proof -
  have "\<exists>idx. get_interrupt_ioapic two_io_apics 30 = Inr idx"
    by (simp add: get_interrupt_ioapic_def two_io_apics_def index_def)
  then obtain idx where idx: "get_interrupt_ioapic two_io_apics 30 = Inr idx" by blast
  have ios: "io_apics two_io_apics = [example_ioapic, \<lparr>ioapic_address = 0xFEC01000, ioapic_base_interrupt = 24\<rparr>]"
    "ioapic_base_interrupt example_ioapic = 0" by (simp_all add: two_io_apics_def example_ioapic_def)
  have len: "length (io_apics two_io_apics) = Suc (Suc 0)" by (simp add: ios)
  have "unat idx < Suc (Suc 0) \<and> (\<forall>j < Suc (Suc 0). ioapic_base_interrupt (io_apics two_io_apics ! j) \<le> 30 \<longrightarrow>
      ioapic_base_interrupt (io_apics two_io_apics ! j) \<le> ioapic_base_interrupt (io_apics two_io_apics ! unat idx))"
    using ioapic_selection [of two_io_apics 30] idx unfolding len by (simp add: ios(2) Let_def) (simp add: ios)
  then have "unat idx = 0 \<or> unat idx = Suc 0" "(24 :: u8) \<le> ioapic_base_interrupt (io_apics two_io_apics ! unat idx)"
    by (auto simp: ios less_Suc_eq)
  with idx show ?thesis by (auto simp: ios)
qed

section \<open>Routing an interrupt\<close>

lemma route_interrupt_run:
  assumes "get_interrupt_ioapic this (get_interrupt_source this irq) = Inr idx" and "unat idx < length (io_apics this)"
    and "n = get_interrupt_source this irq" and "io = io_apics this ! unat idx"
    and "has_ioapic D io upd b" and "n < entry_limit (ioapic_regs io upd b s)" and "unat n < 120"
    and "\<forall>i old v. 0x10 \<le> i \<longrightarrow> upd i old v = v"
  shows "\<exists>s'. route_interrupt D this irq vec s = Inr ((), s') \<and>
    (let e = entry_at (ioapic_regs io upd b s) n; e' = entry_at (ioapic_regs io upd b s') n
     in vector e' = vector e OR vec \<and> (masked e' \<longleftrightarrow> \<not> masked e) \<and> (e = 0x10000 \<longrightarrow> e' = ucast vec)) \<and>
    (\<forall>j. unat j < 120 \<and> j \<noteq> n \<longrightarrow> entry_at (ioapic_regs io upd b s') j = entry_at (ioapic_regs io upd b s) j) \<and>
    entry_limit (ioapic_regs io upd b s') = entry_limit (ioapic_regs io upd b s)"
proof -
  let ?r = "ioapic_regs io upd b" and ?e = "entry_at (ioapic_regs io upd b s) n"
  let ?e' = "set_masked (set_vector ?e vec) False"
  obtain s1 where "redir_entry D io n s =
      (if entry_limit (?r s) \<le> n then Inl (ExplicitPanic ''Out of bounds'')
       else if unat n < 120 then Inr (?e, s1) else Inl ArithmeticOverflow)" and r1: "?r s1 = ?r s"
    using assms(5) by (rule redir_entry_run)
  with assms(6,7) have 1: "redir_entry D io n s = Inr (?e, s1)" by (simp add: not_le)
  obtain s2 where s2: "set_redir_entry io n ?e' s1 = Inr ((), s2)" "?r s2 =
      (?r s1)(0x10 + n * 2 := ucast ?e', 0x11 + n * 2 := ucast (drop_bit 32 ?e'))"
    using set_redir_entry_run [OF assms(5,7), of ?e' s1] assms(8) entry_regs_distinct(6,7) [OF assms(7,7)] by metis
  have "route_interrupt D this irq vec s = Inr ((), s2)"
    using 1 s2(1) assms(1-4)
    by (simp add: route_interrupt_def get_entry_def set_entry_def Let_def res_simps index_def)
  moreover have e2: "entry_at (?r s2) j = (if j = n then ?e' else entry_at (?r s) j)" if "unat j < 120" for j
    unfolding s2(2) r1 by (rule entry_at_written [OF assms(7) that])
  moreover have "entry_limit (?r s2) = entry_limit (?r s)"
    using entry_regs_distinct(4,5) [OF assms(7,7)] unfolding s2(2) r1 entry_limit_def by (metis fun_upd_other)
  moreover have "vector ?e' = vector ?e OR vec" "masked ?e' \<longleftrightarrow> \<not> masked ?e"
    by (simp_all add: vector_set_masked vector_set_vector mask_bit.get_set masked_set_vector)
  moreover have "?e' = ucast vec" if "?e = 0x10000"
  proof (rule bit_word_eqI)
    fix k assume "k < LENGTH(64)"
    then have "bit (0x10000 :: u64) k \<longleftrightarrow> k = 16" using bit_exp_iff [where 'a = "64 word", of 16 k] by simp
    then show "bit ?e' k = bit (ucast vec :: u64) k"
      by (auto simp: that mask_bit.bit_set set_vector_def bit_simps dest: bit_imp_le_length)
  qed
  ultimately show ?thesis using assms(7) by (auto simp: Let_def)
qed

text \<open>
  C39. What \<^verbatim>\<open>apic_init\<close> does to the entry of an interrupt with number \<open>n\<close> (after overrides) on the I/O
  APIC \<open>io\<close> that the lookup chooses: entry number \<open>n\<close> of that I/O APIC, also if its base is not zero,
  gets the vector added to the bits of its old vector and its mask bit inverted; every other entry
  stays. So an entry as it is after reset, masked and with vector zero, ends up unmasked and with
  the requested vector.
\<close>

theorem route_interrupt_effect:
  assumes "get_interrupt_ioapic this (get_interrupt_source this irq) = Inr idx" and "unat idx < length (io_apics this)"
    and "n = get_interrupt_source this irq" and "io = io_apics this ! unat idx"
    and "has_ioapic D io upd b" and "n < entry_limit (ioapic_regs io upd b s)" and "unat n < 120"
    and "\<forall>i old v. 0x10 \<le> i \<longrightarrow> upd i old v = v"
  shows "\<exists>s'. route_interrupt D this irq vec s = Inr ((), s') \<and>
    (let e = entry_at (ioapic_regs io upd b s) n; e' = entry_at (ioapic_regs io upd b s') n
     in vector e' = vector e OR vec \<and> (masked e' \<longleftrightarrow> \<not> masked e) \<and> (e = 0x10000 \<longrightarrow> e' = ucast vec)) \<and>
    (\<forall>j. unat j < 120 \<and> j \<noteq> n \<longrightarrow> entry_at (ioapic_regs io upd b s') j = entry_at (ioapic_regs io upd b s) j) \<and>
    entry_limit (ioapic_regs io upd b s') = entry_limit (ioapic_regs io upd b s)"
  using assms by (rule route_interrupt_run)

theorem route_interrupt_effect_witness:
  "\<exists>s'. route_interrupt ioapic_devices two_io_apics 0 32 \<lparr>trace = [], interrupt_flag = False\<rparr> = Inr ((), s') \<and>
     entry_at (ioapic_regs example_ioapic (\<lambda>i old v. v) reset_bank s') 2 = 32"
proof -
  have src: "get_interrupt_source two_io_apics 0 = 2" by (simp add: get_interrupt_source_def two_io_apics_def)
  have sel: "get_interrupt_ioapic two_io_apics (get_interrupt_source two_io_apics 0) = Inr 0"
    unfolding src by (simp add: get_interrupt_ioapic_def two_io_apics_def index_def example_ioapic_def select_step_def)
  have io: "example_ioapic = io_apics two_io_apics ! unat (0 :: usize)" "unat (0 :: usize) < length (io_apics two_io_apics)"
    by (simp_all add: two_io_apics_def)
  have old: "entry_at (ioapic_regs example_ioapic (\<lambda>i old v. v) reset_bank \<lparr>trace = [], interrupt_flag = False\<rparr>) 2 = 0x10000"
    by (simp add: entry_at_def ioapic_regs_def ioapic_after_def reset_bank_def)
  have "(2 :: u8) < entry_limit (ioapic_regs example_ioapic (\<lambda>i old v. v) reset_bank \<lparr>trace = [], interrupt_flag = False\<rparr>)"
    by (simp add: reset_limit)
  from route_interrupt_effect [OF sel io(2) src [symmetric] io(1) ioapic_devices_ok this, of 32] old
  show ?thesis by (auto simp: Let_def)
qed

section \<open>The hand-over\<close>

definition runs_without_interrupts ::
    "(('x \<times> 'r \<times> 'z hw_scheme, 'a) eff \<Rightarrow> ('x \<times> 'r \<times> 'z hw_scheme, 'a) eff) \<Rightarrow> bool" where
  "runs_without_interrupts WI \<longleftrightarrow>
     (\<forall>f x refs s. WI f (x, refs, s) =
        rmap (\<lambda>(r, x', refs', s'). (r, x', refs', s'\<lparr>interrupt_flag := interrupt_flag s \<or> interrupt_flag s'\<rparr>))
          (f (x, refs, s\<lparr>interrupt_flag := False\<rparr>)))"

lemma machine_mapped_emits [simp]:
  "machine_mapped tr (emits u s) = machine_mapped tr s" "machine_good E M tr (emits u s) = machine_good E M tr s"
  "PICS (emits u s) = PICS s" "machine_mapped tr (s\<lparr>interrupt_flag := b\<rparr>) = machine_mapped tr s"
  "machine_good E M tr (s\<lparr>interrupt_flag := b\<rparr>) = machine_good E M tr s"
  "machine_mapped tr (s\<lparr>PICS := c\<rparr>) = machine_mapped tr s" "machine_good E M tr (s\<lparr>PICS := c\<rparr>) = machine_good E M tr s"
  by (simp_all add: machine_mapped_def machine_good_def emits_def)

lemma map_device_frame_run:
  assumes good: "machine_good E M tr s" and base: "unat base < 2 ^ 47"
    and run: "map_device_frame E M base s = Inr (u, s')"
  shows "machine_good E M tr s'" and "machine_mapped tr s' = insert base (machine_mapped tr s)"
    and "PICS s' = PICS s" and "interrupt_flag s' = interrupt_flag s"
proof -
  have E: "crates_ok E" using good by (simp add: machine_good_def paging_good_def)
  from run base obtain g where al: "aligned base" and g: "machine_mmap E M False base s = Inr (Inr g, s')"
    by (auto simp: map_device_frame_def bnd_eq_Inr_iff lift_res_eq_Inr_iff crates_PhysAddr_new [OF E]
        crates_from_start [OF E] res_iffs split: if_splits)
  then have "device_frame base" using base by (simp add: device_frame_def)
  from dev.map_law [OF good this g] show "machine_good E M tr s'"
    "machine_mapped tr s' = insert base (machine_mapped tr s)" by auto
  show "PICS s' = PICS s" "interrupt_flag s' = interrupt_flag s"
    using g by (auto simp: machine_mmap_def on_paging_eq_Inr_iff)
qed

lemma lapic_handover_run:
  assumes "machine_good E M tr s" and "unat base < 2 ^ 47" and "lapic_handover E M D base s = Inr (u, s')"
  shows "machine_good E M tr s'" and "machine_mapped tr s' = insert base (machine_mapped tr s)"
    and "PICS s' = InterruptController.Apic base" and "interrupt_flag s' = interrupt_flag s"
proof -
  from assms(3) obtain s1 c s2 where 1: "map_device_frame E M base s = Inr ((), s1)"
    and 2: "apic_handover D base (PICS s1) s1 = Inr (c, s2)" and s': "s' = s2\<lparr>PICS := c\<rparr>"
    by (auto simp: lapic_handover_def bnd_eq_Inr_iff res_iffs)
  note st = map_device_frame_run [OF assms(1,2) 1]
  from 2 have "c = InterruptController.Apic base" by (auto simp: apic_handover_def Let_def bnd_eq_Inr_iff)
  moreover obtain t where "s2 = emits t s1" using only_emitsD [OF only_emits_controller(3) 2] by blast
  ultimately show "machine_good E M tr s'" "machine_mapped tr s' = insert base (machine_mapped tr s)"
    "PICS s' = InterruptController.Apic base" "interrupt_flag s' = interrupt_flag s"
    using st s' by simp_all
qed

definition io_apic_of :: "IoApicInfo \<Rightarrow> IOApic" where
  "io_apic_of i = \<lparr>ioapic_address = ucast (info_address i), ioapic_base_interrupt = ucast (global_system_interrupt_base i)\<rparr>"

lemma collect_io_apics_run:
  assumes "machine_good E M tr s" and "collect_io_apics E M infos s = Inr (ios, s')"
  shows "machine_good E M tr s' \<and> ios = map io_apic_of infos \<and> PICS s' = PICS s \<and> interrupt_flag s' = interrupt_flag s \<and>
    machine_mapped tr s' = machine_mapped tr s \<union> ioapic_address ` set ios"
proof -
  define f where "f = (\<lambda>io_apic (acc, s :: ('a, 'b) machine_scheme). rbind (map_device_frame E M (ucast (info_address io_apic)) s) (\<lambda>(_, s').
      Inr (acc @ [io_apic_of io_apic], s')))"
  have "machine_good E M tr s' \<and> ios = acc @ map io_apic_of xs \<and> PICS s' = PICS s \<and> interrupt_flag s' = interrupt_flag s \<and>
      machine_mapped tr s' = machine_mapped tr s \<union> ioapic_address ` io_apic_of ` set xs"
    if "machine_good E M tr s" "for_each f xs (acc, s) = Inr (ios, s')" for xs acc and s :: "('a, 'b) machine_scheme"
    using that
  proof (induction xs arbitrary: acc s)
    case (Cons x xs)
    from Cons.prems(2) obtain s1 where 1: "map_device_frame E M (ucast (info_address x)) s = Inr ((), s1)"
      "for_each f xs (acc @ [io_apic_of x], s1) = Inr (ios, s')" by (auto simp: f_def res_iffs)
    have "unat (ucast (info_address x) :: u64) < 2 ^ 47"
      using unat_u32_bound [of "info_address x"] by simp
    note st = map_device_frame_run [OF Cons.prems(1) this 1(1)]
    from Cons.IH [OF st(1) 1(2)] st show ?case by (simp add: io_apic_of_def)
  qed simp
  from this [OF assms(1), of infos "[]"] assms(2) show ?thesis
    by (simp add: collect_io_apics_def f_def io_apic_of_def Let_def image_image)
qed

lemma only_emits_route: "only_emits (route_interrupt D this irq vec)"
  unfolding route_interrupt_def get_entry_def set_entry_def Let_def by (intro emits_intros)

lemma apic_init_run:
  assumes "runs_without_interrupts WI" and "machine_good E M tr s" and "unat (local_apic_address info) < 2 ^ 47"
    and "\<forall>name arg. keeps (\<lambda>(c, refs, s). machine_good E M tr s \<and> \<not> interrupt_flag s) (invoke_method A name arg)"
    and "apic_init E M D A WI info (acpi, refs, s) = Inr (apic, acpi', refs', s')"
  shows "PICS s' = InterruptController.Apic (local_apic_address info) \<and> machine_good E M tr s' \<and>
    apic_info apic = info \<and> io_apics apic = map io_apic_of (info_io_apics info) \<and>
    insert (local_apic_address info) (ioapic_address ` set (io_apics apic)) \<subseteq> machine_mapped tr s' \<and>
    interrupt_flag s' = interrupt_flag s"
proof -
  let ?s0 = "s\<lparr>interrupt_flag := False\<rparr>" and ?la = "local_apic_address info"
  from assms(1,5) obtain t where body: "apic_init_body E M D A info (acpi, refs, ?s0) = Inr (apic, acpi', refs', t)"
    and s': "s' = t\<lparr>interrupt_flag := interrupt_flag s \<or> interrupt_flag t\<rparr>"
    by (auto simp: apic_init_def runs_without_interrupts_def res_iffs)
  from body obtain name v ctx refs1 s1 s2 ios s3 s4 where
    1: "invoke_method A name (Some (AmlValue_Integer A 1)) (aml_context acpi, refs, ?s0) = Inr (v, ctx, refs1, s1)"
    and 2: "lapic_handover E M D ?la s1 = Inr ((), s2)" and 3: "collect_io_apics E M (info_io_apics info) s2 = Inr (ios, s3)"
    and 4: "route_interrupt D \<lparr>apic_info = info, io_apics = ios\<rparr> 0 32 s3 = Inr ((), s4)"
    and 5: "route_interrupt D \<lparr>apic_info = info, io_apics = ios\<rparr> 1 33 s4 = Inr ((), t)"
    and apic: "apic = \<lparr>apic_info = info, io_apics = ios\<rparr>"
    by (auto simp: apic_init_body_def res_iffs Let_def)
  have g1: "machine_good E M tr s1 \<and> \<not> interrupt_flag s1"
    using keepsD [OF assms(4) [rule_format] _ 1] assms(2) by simp
  note h = lapic_handover_run [OF conjunct1 [OF g1] assms(3) 2]
  note c = collect_io_apics_run [OF h(1) 3]
  obtain u where "t = emits u s3"
    using only_emitsD [OF only_emits_route 4] only_emitsD [OF only_emits_route 5] by auto
  with h c g1 s' apic show ?thesis by auto
qed

text \<open>
  C19. The hand-over to the APIC: when \<^verbatim>\<open>apic_init\<close> returns, the controller is the local APIC at the address
  of the platform description, the I/O APICs are the described ones in order, the windows of the
  local APIC and of every I/O APIC are mapped, the paging context is still sound, and the
  interrupt flag is what it was before, although the hand-over ran with interrupts disabled.
\<close>

theorem apic_init_result:
  assumes "runs_without_interrupts WI" and "machine_good E M tr s" and "unat (local_apic_address info) < 2 ^ 47"
    and "\<forall>name arg. keeps (\<lambda>(c, refs, s). machine_good E M tr s \<and> \<not> interrupt_flag s) (invoke_method A name arg)"
    and "apic_init E M D A WI info (acpi, refs, s) = Inr (apic, acpi', refs', s')"
  shows "PICS s' = InterruptController.Apic (local_apic_address info) \<and> machine_good E M tr s' \<and>
    apic_info apic = info \<and> io_apics apic = map io_apic_of (info_io_apics info) \<and>
    insert (local_apic_address info) (ioapic_address ` set (io_apics apic)) \<subseteq> machine_mapped tr s' \<and>
    interrupt_flag s' = interrupt_flag s"
  using assms by (rule apic_init_run)

text \<open>A closed run: the local APIC at \<open>0x9000\<close>, an I/O APIC as after reset at \<open>0xA000\<close>.\<close>

lemma flat_mmap_succeeds:
  assumes E: "crates_ok E" and inv: "allocator_inv (allocator ctx)"
    and ty: "get_frame_ty E (allocator ctx) f = Some MemoryRegionType.Reserved" and free: "mapper ctx f = None"
    and frames: "free_frames (allocator ctx) \<noteq> {}" and bits: "in_bitmap (allocator ctx) (f div 0x1000)"
    and f: "device_frame f"
  shows "\<exists>g ctx' fl. mmap_dev E flat_mapper f acpi (Some ctx) = Inr (Inr g, Some ctx') \<and>
    mapper ctx' = (mapper ctx)(f \<mapsto> (f, fl)) \<and> allocator_inv (allocator ctx') \<and>
    card (free_frames (allocator ctx)) - 1 \<le> card (free_frames (allocator ctx')) \<and>
    memory_map (allocator ctx') = memory_map (allocator ctx) \<and>
    length (bitmap (allocator ctx')) = length (bitmap (allocator ctx))"
proof -
  from allocate_frame_some [OF E inv frames] obtain p al where
    al: "allocate_frame E (allocator ctx) = Inr (Some p, al)" by metis
  have run: "alloc_run (allocate_frame E) (allocator ctx) [p] al" by (rule alloc_run_single) (rule al)
  note st = alloc_run_steps [OF E run inv] and cd = card_free_run [OF E run inv]
  have "VirtAddr_new E f = Inr f" using f E by (simp add: device_frame_def crates_VirtAddr_new)
  moreover have "\<exists>u. frame_in_use al f = Inr u" using bits st(7) by (simp add: frame_in_use_def is_used_eq in_bitmap_def)
  ultimately show ?thesis
    using al ty free st cd by (auto simp: mmap_dev_def mmap_extra_flags_def flat_mapper_def)
qed

definition apic_ctx :: "translation PagingContext" where
  "apic_ctx = \<lparr>mapper = Map.empty, allocator = \<lparr>memory_map =
     [\<lparr>region_range = \<lparr>start_frame_number = 2, end_frame_number = 9\<rparr>, region_type = Usable\<rparr>,
      \<lparr>region_range = \<lparr>start_frame_number = 9, end_frame_number = 10\<rparr>, region_type = MemoryRegionType.Reserved\<rparr>,
      \<lparr>region_range = \<lparr>start_frame_number = 10, end_frame_number = 11\<rparr>, region_type = MemoryRegionType.Reserved\<rparr>],
     next_usable = 0, bitmap = replicate 12 0\<rparr>\<rparr>"

definition example_info :: ApicInfo where
  "example_info = \<lparr>local_apic_address = 0x9000,
     info_io_apics = [\<lparr>info_address = 0xA000, global_system_interrupt_base = 0\<rparr>], interrupt_source_overrides = []\<rparr>"

definition low_ioapic :: IOApic where
  "low_ioapic = \<lparr>ioapic_address = 0xA000, ioapic_base_interrupt = 0\<rparr>"

definition apic_devices :: devices where
  "apic_devices = \<lparr>port_answer = (\<lambda>t n port. 0),
     load_answer = (\<lambda>t n a. let d = ioapic_after low_ioapic (\<lambda>i old v. v) reset_bank t
       in unat (contents d (selected d)))\<rparr>"

definition example_WI ::
    "('x \<times> 'r \<times> 'z hw_scheme, 'a) eff \<Rightarrow> ('x \<times> 'r \<times> 'z hw_scheme, 'a) eff" where
  "example_WI f = (\<lambda>(x, refs, s).
     rmap (\<lambda>(r, x', refs', s'). (r, x', refs', s'\<lparr>interrupt_flag := interrupt_flag s \<or> interrupt_flag s'\<rparr>))
       (f (x, refs, s\<lparr>interrupt_flag := False\<rparr>)))"

definition apic_machine :: "translation machine" where
  "apic_machine = \<lparr>trace = [], interrupt_flag = True, paging_ctx = Some apic_ctx,
     heap = \<lparr>heap_region = None, INITIALIZED = False\<rparr>, PICS = Pics 32 40\<rparr>"

lemma apic_ctx_ok:
  "allocator_inv (allocator apic_ctx)" "card (free_frames (allocator apic_ctx)) = 7"
proof -
  have us: "usable_frames (memory_map (allocator apic_ctx)) = [2, 3, 4, 5, 6, 7, 8]"
    by (simp add: apic_ctx_def usable_frames_def urange_def)
  show "allocator_inv (allocator apic_ctx)"
    by (rule init_inv [of "memory_map (allocator apic_ctx)"])
       (simp_all add: map_ok_def us, simp_all add: apic_ctx_def region_start_def region_end_def)
  have "used_frames (allocator apic_ctx) = {}"
    by (auto simp: used_frames_def is_used_eq apic_ctx_def in_bitmap_def split: if_splits)
  then have "free_frames (allocator apic_ctx) = {2, 3, 4, 5, 6, 7, 8}"
    by (auto simp: free_frames_def us) (simp_all add: apic_ctx_def)
  then show "card (free_frames (allocator apic_ctx)) = 7" by simp
qed

text \<open>Both windows can be mapped, one after the other.\<close>

lemma apic_maps:
  "\<exists>g1 c1 g2 c2. mmap_dev std_crates flat_mapper 0x9000 False (Some apic_ctx) = Inr (Inr g1, Some c1) \<and>
     mmap_dev std_crates flat_mapper 0xA000 False (Some c1) = Inr (Inr g2, Some c2)"
proof -
  have dev: "device_frame 0x9000" "device_frame 0xA000" by (simp_all add: device_frame_def aligned_def)
  have ty: "memory_map al = memory_map (allocator apic_ctx) \<Longrightarrow>
      get_frame_ty std_crates al 0x9000 = Some MemoryRegionType.Reserved \<and>
      get_frame_ty std_crates al 0xA000 = Some MemoryRegionType.Reserved" for al
    by (simp add: get_frame_ty_def apic_ctx_def std_crates_def)
  have bits: "length (bitmap al) = length (bitmap (allocator apic_ctx)) \<Longrightarrow>
      in_bitmap al (0x9000 div 0x1000) \<and> in_bitmap al (0xA000 div 0x1000)" for al
    by (simp add: in_bitmap_def apic_ctx_def)
  have none: "mapper apic_ctx = Map.empty" by (simp add: apic_ctx_def)
  then have n9: "mapper apic_ctx 0x9000 = None" by simp
  have ne: "free_frames (allocator apic_ctx) \<noteq> {}" using apic_ctx_ok(2) by auto
  obtain g1 c1 fl where 1: "mmap_dev std_crates flat_mapper 0x9000 False (Some apic_ctx) = Inr (Inr g1, Some c1)"
    "mapper c1 = (mapper apic_ctx)(0x9000 \<mapsto> (0x9000, fl))" "allocator_inv (allocator c1)"
    "card (free_frames (allocator apic_ctx)) - 1 \<le> card (free_frames (allocator c1))"
    "memory_map (allocator c1) = memory_map (allocator apic_ctx)"
    "length (bitmap (allocator c1)) = length (bitmap (allocator apic_ctx))"
    using flat_mmap_succeeds [OF std_crates_ok apic_ctx_ok(1) conjunct1 [OF ty [OF refl]] n9 ne
        conjunct1 [OF bits [OF refl]] dev(1)] by blast
  have "free_frames (allocator c1) \<noteq> {}" "mapper c1 0xA000 = None" using 1(2,4) apic_ctx_ok(2) none by auto
  then obtain g2 c2 where "mmap_dev std_crates flat_mapper 0xA000 False (Some c1) = Inr (Inr g2, Some c2)"
    using flat_mmap_succeeds [OF std_crates_ok 1(3) conjunct2 [OF ty [OF 1(5)]] _ _
        conjunct2 [OF bits [OF 1(6)]] dev(2)] by blast
  with 1(1) show ?thesis by blast
qed

lemma apic_handover_example:
  fixes s :: "(translation, 'z) machine_scheme"
  assumes "trace s = []" and "paging_ctx s = Some apic_ctx"
  shows "\<exists>s2 s3 x y. lapic_handover std_crates flat_mapper apic_devices 0x9000 s = Inr ((), s2) \<and>
     collect_io_apics std_crates flat_mapper (info_io_apics example_info) s2 = Inr ([low_ioapic], s3) \<and>
     trace s3 = [Load 32 0x90F0 x, Store 32 0x90F0 y, PortOut 8 0x21 255, PortOut 8 0xA1 255] \<and>
     machine.more s3 = machine.more s"
proof -
  obtain g1 c1 g2 c2 where m: "mmap_dev std_crates flat_mapper 0x9000 False (Some apic_ctx) = Inr (Inr g1, Some c1)"
    "mmap_dev std_crates flat_mapper 0xA000 False (Some c1) = Inr (Inr g2, Some c2)" using apic_maps by blast
  have a: "PhysAddr_new std_crates 0x9000 = Inr 0x9000" "PhysAddr_new std_crates 0xA000 = Inr 0xA000"
    "from_start_address std_crates 0x9000 = Some 0x9000" "from_start_address std_crates 0xA000 = Some 0xA000"
    by (simp_all add: crates_PhysAddr_new [OF std_crates_ok] crates_from_start [OF std_crates_ok] aligned_def)
  have "map_device_frame std_crates flat_mapper 0x9000 s = Inr ((), s\<lparr>paging_ctx := Some c1\<rparr>)"
    using m(1) assms(2) by (simp add: map_device_frame_def res_simps a machine_mmap_def on_paging_def)
  moreover have "map_device_frame std_crates flat_mapper 0xA000 t = Inr ((), t\<lparr>paging_ctx := Some c2\<rparr>)"
    if "paging_ctx t = Some c1" for t :: "(translation, 'z) machine_scheme"
    using m(2) that by (simp add: map_device_frame_def res_simps a machine_mmap_def on_paging_def)
  ultimately show ?thesis
    by (simp add: lapic_handover_def res_simps apic_handover_def controller_init_def read_apic_reg_def write_apic_reg_def
        Let_def checked_add_def pic_consts collect_io_apics_def example_info_def low_ioapic_def)
       (simp add: emits_def assms(1) res_simps)
qed

lemma apic_init_example:
  fixes s :: "(translation, 'z) machine_scheme"
  assumes "trace s = []" and "paging_ctx s = Some apic_ctx"
  shows "\<exists>apic s'. apic_init std_crates flat_mapper apic_devices example_aml example_WI example_info
     (example_acpi, (), s) = Inr (apic, example_acpi, (), s') \<and> machine.more s' = machine.more s"
proof -
  let ?upd = "\<lambda>(i :: u8) (old :: u32) (v :: u32). v" and ?r = "ioapic_regs low_ioapic (\<lambda>i old v. v) reset_bank"
  let ?apic = "\<lparr>apic_info = example_info, io_apics = [low_ioapic]\<rparr>"
  obtain s2 x y s3 where h: "lapic_handover std_crates flat_mapper apic_devices 0x9000 (s\<lparr>interrupt_flag := False\<rparr>) = Inr ((), s2)"
    "collect_io_apics std_crates flat_mapper (info_io_apics example_info) s2 = Inr ([low_ioapic], s3)"
    "trace s3 = [Load 32 0x90F0 x, Store 32 0x90F0 y, PortOut 8 0x21 255, PortOut 8 0xA1 255]" "machine.more s3 = machine.more s"
    using apic_handover_example [of "s\<lparr>interrupt_flag := False\<rparr>"] assms by auto
  have D: "has_ioapic apic_devices low_ioapic ?upd reset_bank"
    by (simp add: has_ioapic_def apic_devices_def low_ioapic_def Let_def)
  have "?r s3 = contents reset_bank"
    by (simp add: ioapic_regs_def ioapic_after_def h(3) bank_step_def ioapic_select_def ioapic_data_def low_ioapic_def)
  then have lim: "entry_limit (?r s3) = 23" by (simp add: entry_limit_def reset_bank_def drop_bit_eq_div)
  have sel: "get_interrupt_source ?apic k = k" "get_interrupt_ioapic ?apic k = Inr 0" for k
    by (simp_all add: get_interrupt_source_def example_info_def get_interrupt_ioapic_def index_def low_ioapic_def select_step_def)
  have route: "\<exists>t'. route_interrupt apic_devices ?apic k vec t = Inr ((), t') \<and> entry_limit (?r t') = 23 \<and> machine.more t' = machine.more t"
    if l: "entry_limit (?r t) = 23" and k23: "k < 23" for k vec and t :: "(translation, 'z) machine_scheme"
  proof -
    have k: "unat k < 120" using k23 by (simp add: word_less_nat_alt)
    obtain t' where t': "route_interrupt apic_devices ?apic k vec t = Inr ((), t')" "entry_limit (?r t') = 23"
      using route_interrupt_run [of ?apic k 0 k low_ioapic apic_devices ?upd reset_bank t vec] sel D l k23 k by auto
    moreover obtain u where "t' = emits u t" using only_emitsD [OF only_emits_route t'(1)] by blast
    ultimately show ?thesis by (simp add: emits_def)
  qed
  obtain s4 where s4: "route_interrupt apic_devices ?apic 0 32 s3 = Inr ((), s4)" "entry_limit (?r s4) = 23" "machine.more s4 = machine.more s3"
    using route [OF lim, of 0 32] by auto
  obtain s5 where "route_interrupt apic_devices ?apic 1 33 s4 = Inr ((), s5)" "machine.more s5 = machine.more s4"
    using route [OF s4(2), of 1 33] by auto
  with h s4 show ?thesis
    by (simp add: apic_init_def example_WI_def apic_init_body_def example_aml_def example_info_def example_acpi_def Let_def)
qed

theorem apic_init_result_witness:
  "\<exists>apic acpi' s'. apic_init std_crates flat_mapper apic_devices example_aml example_WI example_info
       (example_acpi, (), apic_machine) = Inr (apic, acpi', (), s') \<and>
     PICS s' = InterruptController.Apic 0x9000 \<and> {0x9000, 0xA000} \<subseteq> machine_mapped (\<lambda>m. m) s' \<and> interrupt_flag s'"
proof -
  obtain apic s' where run: "apic_init std_crates flat_mapper apic_devices example_aml example_WI example_info
     (example_acpi, (), apic_machine) = Inr (apic, example_acpi, (), s')"
    using apic_init_example [of apic_machine] by (auto simp: apic_machine_def)
  have WI: "runs_without_interrupts example_WI" by (simp add: runs_without_interrupts_def example_WI_def)
  have good: "machine_good std_crates flat_mapper (\<lambda>m. m) apic_machine"
    by (simp add: machine_good_def paging_good_def apic_machine_def std_crates_ok flat_mapper_ok apic_ctx_ok)
  have "PICS s' = InterruptController.Apic (local_apic_address example_info) \<and>
      insert (local_apic_address example_info) (ioapic_address ` set (io_apics apic)) \<subseteq> machine_mapped (\<lambda>m. m) s' \<and>
      io_apics apic = map io_apic_of (info_io_apics example_info) \<and> interrupt_flag s' = interrupt_flag apic_machine"
    using apic_init_result [OF WI good _ _ run] by (auto simp: example_info_def keeps_def example_aml_def)
  with run show ?thesis by (auto simp: example_info_def io_apic_of_def apic_machine_def)
qed

end
