(* ===== verification/Pci.thy ===== *)
theory Pci
  imports Registers
begin

text \<open>
  \<^verbatim>\<open>src/pci.rs\<close>: configuration space through the ports \<^verbatim>\<open>0xCF8\<close> and \<^verbatim>\<open>0xCFC\<close>, and the enumeration
  of the PCI functions. \<^verbatim>\<open>PciAddress\<close> and \<^verbatim>\<open>PciHeader\<close> come from the crate \<^verbatim>\<open>pci_types\<close>; the record
  \<open>pci_types\<close> has the operations that the kernel uses.
\<close>

section \<open>The crate pci\_types\<close>

record ('a, 'h) pci_types =
  PciAddress_new :: "u16 \<Rightarrow> u8 \<Rightarrow> u8 \<Rightarrow> u8 \<Rightarrow> 'a res"
  address_bus :: "'a \<Rightarrow> u8"
  address_device :: "'a \<Rightarrow> u8"
  address_function :: "'a \<Rightarrow> u8"
  PciHeader_new :: "'a \<Rightarrow> 'h"

text \<open>Documented: an address has the parts it is made of; a device has 5 bits, a function 3.\<close>

definition pci_types_ok :: "('a, 'h) pci_types \<Rightarrow> bool" where
  "pci_types_ok P \<longleftrightarrow>
     (\<forall>seg bus dev fn. dev < 32 \<and> fn < 8 \<longrightarrow>
        (\<exists>a. PciAddress_new P seg bus dev fn = Inr a \<and>
           address_bus P a = bus \<and> address_device P a = dev \<and> address_function P a = fn))"

definition std_pci_types :: "(u16 \<times> u8 \<times> u8 \<times> u8, u16 \<times> u8 \<times> u8 \<times> u8) pci_types" where
  "std_pci_types = \<lparr>
     PciAddress_new = (\<lambda>seg bus dev fn. if dev < 32 \<and> fn < 8 then Inr (seg, bus, dev, fn) else Inl ForeignPanic),
     address_bus = (\<lambda>(seg, bus, dev, fn). bus),
     address_device = (\<lambda>(seg, bus, dev, fn). dev),
     address_function = (\<lambda>(seg, bus, dev, fn). fn),
     PciHeader_new = (\<lambda>a. a)\<rparr>"

lemma std_pci_types_ok: "pci_types_ok std_pci_types"
  by (simp add: pci_types_ok_def std_pci_types_def)

section \<open>Operations\<close>

definition CONFIG_ADDRESS :: u16 where "CONFIG_ADDRESS = 0xCF8"
definition CONFIG_DATA :: u16 where "CONFIG_DATA = 0xCFC"

definition ConfigAddress_from :: "('a, 'h) pci_types \<Rightarrow> 'a \<Rightarrow> u32" where
  "ConfigAddress_from P address =
     (let result = 0;
          result = result OR push_bit 8 (ucast (address_function P address));
          result = result OR push_bit 11 (ucast (address_device P address));
          result = result OR push_bit 16 (ucast (address_bus P address));
          result = result OR push_bit 31 1
      in result)"

definition pci_read :: "devices \<Rightarrow> ('a, 'h) pci_types \<Rightarrow> 'a \<Rightarrow> u16 \<Rightarrow> ('z hw_scheme, u32) eff" where
  "pci_read D P address offset =
     (if offset AND 3 \<noteq> 0 then lift_res (Inl (ExplicitPanic ''Try to read pci with unaligned offset''))
      else
        let config_address = ConfigAddress_from P address
        in bnd (write_to_port CONFIG_ADDRESS (config_address OR (ucast offset AND 0xff))) (\<lambda>_.
           read_from_port D CONFIG_DATA))"

definition pci_write :: "('a, 'h) pci_types \<Rightarrow> 'a \<Rightarrow> u16 \<Rightarrow> u32 \<Rightarrow> ('z hw_scheme, unit) eff" where
  "pci_write P address offset value =
     (if offset AND 3 \<noteq> 0 then lift_res (Inl (ExplicitPanic ''Try to write pci with unaligned offset''))
      else
        let config_address = ConfigAddress_from P address
        in bnd (write_to_port CONFIG_ADDRESS (config_address OR (ucast offset AND 0xff))) (\<lambda>_.
           write_to_port CONFIG_DATA value))"

definition function_exists :: "devices \<Rightarrow> ('a, 'h) pci_types \<Rightarrow> 'a \<Rightarrow> ('z hw_scheme, bool) eff" where
  "function_exists D P address =
     bnd (pci_read D P address 0) (\<lambda>v. let vendor = v AND 0xFFFF in ret (vendor \<noteq> 0xFFFF))"

text \<open>
  The loop body and the three loops; \<open>exists\<close> is the method \<^verbatim>\<open>function_exists\<close> of the access.
\<close>

definition probe_function ::
    "('a, 'h) pci_types \<Rightarrow> ('a \<Rightarrow> ('s, bool) eff) \<Rightarrow> u8 \<Rightarrow> u8 \<Rightarrow> u8 \<Rightarrow> ('a \<times> 'h) list \<times> 's \<Rightarrow>
     (('a \<times> 'h) list \<times> 's) res" where
  "probe_function P exists bus dev fn = (\<lambda>(results, s).
     rbind (PciAddress_new P 0 bus dev fn) (\<lambda>address.
     rbind (exists address s) (\<lambda>(found, s').
     Inr (if found then results @ [(address, PciHeader_new P address)] else results, s'))))"

definition brute_force_find ::
    "('a, 'h) pci_types \<Rightarrow> ('a \<Rightarrow> ('s, bool) eff) \<Rightarrow> ('s, ('a \<times> 'h) list) eff" where
  "brute_force_find P exists s =
     for_each (\<lambda>bus. for_each (\<lambda>dev. for_each (\<lambda>fn. probe_function P exists bus dev fn)
         (urange 0 8)) (urange 0 32)) (urange_incl 0 255) ([], s)"

section \<open>Configuration space\<close>

text \<open>
  The device: the address port latches a configuration address, the data port accesses the
  double word at it. The configuration address of a register of a function is \<open>config_reg\<close>.
\<close>

definition pci_select :: "io_event \<Rightarrow> u32 option" where
  "pci_select e =
     (case e of PortOut n port v \<Rightarrow> if n = 32 \<and> port = 0xCF8 then Some (word_of_nat v) else None | _ \<Rightarrow> None)"

definition pci_data :: "io_event \<Rightarrow> u32 option" where
  "pci_data e =
     (case e of PortOut n port v \<Rightarrow> if n = 32 \<and> port = 0xCFC then Some (word_of_nat v) else None | _ \<Rightarrow> None)"

definition pci_after ::
    "(u32 \<Rightarrow> u32 \<Rightarrow> u32 \<Rightarrow> u32) \<Rightarrow> (u32, u32) bank \<Rightarrow> io_event list \<Rightarrow> (u32, u32) bank" where
  "pci_after upd b t = fold (bank_step pci_select pci_data upd) t b"

definition has_pci :: "devices \<Rightarrow> (u32 \<Rightarrow> u32 \<Rightarrow> u32 \<Rightarrow> u32) \<Rightarrow> (u32, u32) bank \<Rightarrow> bool" where
  "has_pci D upd b \<longleftrightarrow>
     (\<forall>t. port_answer D t 32 0xCFC = unat (contents (pci_after upd b t) (selected (pci_after upd b t))))"

definition pci_regs ::
    "(u32 \<Rightarrow> u32 \<Rightarrow> u32 \<Rightarrow> u32) \<Rightarrow> (u32, u32) bank \<Rightarrow> 'z hw_scheme \<Rightarrow> u32 \<Rightarrow> u32" where
  "pci_regs upd b s = contents (pci_after upd b (trace s))"

text \<open>The access by configuration address, as \<open>read\<close> and \<open>write\<close> perform it.\<close>

definition config_read :: "devices \<Rightarrow> u32 \<Rightarrow> ('z hw_scheme, u32) eff" where
  "config_read D i = bnd (write_to_port 0xCF8 i) (\<lambda>_. read_from_port D 0xCFC)"

definition config_write :: "u32 \<Rightarrow> u32 \<Rightarrow> ('z hw_scheme, unit) eff" where
  "config_write i v = bnd (write_to_port 0xCF8 i) (\<lambda>_. write_to_port 0xCFC v)"

definition config_reg :: "u8 \<Rightarrow> u8 \<Rightarrow> u8 \<Rightarrow> u16 \<Rightarrow> u32" where
  "config_reg bus dev fn offset =
     push_bit 31 1 OR push_bit 16 (ucast bus) OR push_bit 11 (ucast dev) OR push_bit 8 (ucast fn) OR
     (ucast offset AND 0xFF)"

interpretation pci: register_bank "config_read D" config_write "pci_regs upd b" upd
    "\<lambda>_. has_pci D upd b" "\<lambda>_. True" for D upd b
proof unfold_locales
  fix s :: "'a hw_scheme" and i v :: u32
  assume D: "has_pci D upd b"
  show "\<exists>s'. config_read D i s = Inr (pci_regs upd b s i, s') \<and> has_pci D upd b \<and>
      pci_regs upd b s' = pci_regs upd b s"
    using D by (simp add: config_read_def res_simps Let_def has_pci_def pci_regs_def pci_after_def
        bank_step_def pci_select_def pci_data_def)
  show "\<exists>s'. config_write i v s = Inr ((), s') \<and> has_pci D upd b \<and>
      pci_regs upd b s' = (pci_regs upd b s)(i := upd i (pci_regs upd b s i) v)"
    using D by (simp add: config_write_def res_simps pci_regs_def pci_after_def
        bank_step_def pci_select_def pci_data_def)
qed

section \<open>Addressing\<close>

lemma ConfigAddress_eq:
  "ConfigAddress_from P a OR (ucast offset AND 0xFF) =
     config_reg (address_bus P a) (address_device P a) (address_function P a) offset"
  by (simp add: ConfigAddress_from_def config_reg_def ac_simps)

lemma pci_read_eq:
  "offset AND 3 = 0 \<Longrightarrow> pci_read D P a offset =
     config_read D (config_reg (address_bus P a) (address_device P a) (address_function P a) offset)"
  by (simp add: pci_read_def config_read_def ConfigAddress_eq CONFIG_ADDRESS_def CONFIG_DATA_def)

lemma pci_write_eq:
  "offset AND 3 = 0 \<Longrightarrow> pci_write P a offset v =
     config_write (config_reg (address_bus P a) (address_device P a) (address_function P a) offset) v"
  by (simp add: pci_write_def config_write_def ConfigAddress_eq CONFIG_ADDRESS_def CONFIG_DATA_def)

lemma bit_config_reg:
  assumes "dev < 32" and "fn < 8"
  shows "bit (config_reg bus dev fn offset) n \<longleftrightarrow>
    n = 31 \<or> 16 \<le> n \<and> bit bus (n - 16) \<or> 11 \<le> n \<and> n < 16 \<and> bit dev (n - 11) \<or>
    8 \<le> n \<and> n < 11 \<and> bit fn (n - 8) \<or> n < 8 \<and> bit offset n"
proof -
  have bounds: "bit dev (n - 11) \<Longrightarrow> n - 11 < 5" "bit fn (n - 8) \<Longrightarrow> n - 8 < 3" "bit bus (n - 16) \<Longrightarrow> n - 16 < 8"
    using bit_less_exp [of dev 5 "n - 11"] bit_less_exp [of fn 3 "n - 8"] assms
      bit_imp_le_length [of bus "n - 16"] by (simp_all add: word_less_nat_alt)
  have b: "bit (push_bit 31 (1 :: u32)) n \<longleftrightarrow> n = 31"
    unfolding push_bit_of_1 bit_exp_iff by auto
  have o: "bit (ucast offset AND 0xFF :: u32) n \<longleftrightarrow> n < 8 \<and> bit offset n"
    unfolding low_masks bit_and_iff by (auto simp: bit_mask_iff bit_unsigned_iff)
  have p: "bit (push_bit k (ucast x :: u32)) n \<longleftrightarrow> k \<le> n \<and> n < 32 \<and> bit x (n - k)"
    for k and x :: u8 by (auto simp: bit_push_bit_iff bit_unsigned_iff)
  from bounds show ?thesis unfolding config_reg_def bit_or_iff b o p by auto
qed

text \<open>The parts of an address can be read off its configuration address.\<close>

lemma config_reg_fields:
  assumes "dev < 32" and "fn < 8"
  shows "ucast (drop_bit 16 (config_reg bus dev fn offset)) = bus"
    and "ucast (drop_bit 11 (config_reg bus dev fn offset) AND mask 5) = dev"
    and "ucast (drop_bit 8 (config_reg bus dev fn offset) AND mask 3) = fn"
    and "ucast (config_reg bus dev fn offset AND mask 8) = offset AND mask 8"
proof -
  have "bit dev n \<Longrightarrow> n < 5" "bit fn n \<Longrightarrow> n < 3" for n
    using bit_less_exp [of dev 5 n] bit_less_exp [of fn 3 n] assms by (simp_all add: word_less_nat_alt)
  note simps = bit_config_reg [OF assms] bit_simps and dests = this
  show "ucast (drop_bit 16 (config_reg bus dev fn offset)) = bus"
    by (rule bit_word_eqI) (auto simp: simps)
  show "ucast (drop_bit 11 (config_reg bus dev fn offset) AND mask 5) = dev"
    by (rule bit_word_eqI) (auto simp: simps dest: dests)
  show "ucast (drop_bit 8 (config_reg bus dev fn offset) AND mask 3) = fn"
    by (rule bit_word_eqI) (auto simp: simps dest: dests)
  show "ucast (config_reg bus dev fn offset AND mask 8) = offset AND mask 8"
    by (rule bit_word_eqI) (auto simp: simps)
qed

lemma config_reg_eq_iff:
  assumes "dev < 32" "fn < 8" "dev' < 32" "fn' < 8"
  shows "config_reg bus dev fn offset = config_reg bus' dev' fn' offset' \<longleftrightarrow>
    bus = bus' \<and> dev = dev' \<and> fn = fn' \<and> offset AND 0xFF = offset' AND 0xFF"
proof
  assume "config_reg bus dev fn offset = config_reg bus' dev' fn' offset'"
  with config_reg_fields [OF assms(1,2), of bus offset] config_reg_fields [OF assms(3,4), of bus' offset']
  show "bus = bus' \<and> dev = dev' \<and> fn = fn' \<and> offset AND 0xFF = offset' AND 0xFF"
    unfolding low_masks by metis
next
  assume eq: "bus = bus' \<and> dev = dev' \<and> fn = fn' \<and> offset AND 0xFF = offset' AND 0xFF"
  then have "bit (offset AND mask 8) n = bit (offset' AND mask 8) n" for n unfolding low_masks by simp
  then have "n < 8 \<longrightarrow> bit offset n = bit offset' n" for n
    unfolding bit_simps by (cases "n < 8") fastforce+
  then show "config_reg bus dev fn offset = config_reg bus' dev' fn' offset'"
    using eq by (intro bit_word_eqI) (simp add: bit_config_reg assms, metis)
qed

section \<open>Enumeration\<close>

definition all_functions :: "(u8 \<times> u8 \<times> u8) list" where
  "all_functions = List.product (urange_incl 0 255) (List.product (urange 0 32) (urange 0 8))"

definition present :: "(u32 \<Rightarrow> u32) \<Rightarrow> u8 \<times> u8 \<times> u8 \<Rightarrow> bool" where
  "present r = (\<lambda>(bus, dev, fn). r (config_reg bus dev fn 0) AND 0xFFFF \<noteq> 0xFFFF)"

text \<open>What one probe, one device and one bus add to the results.\<close>

definition found ::
    "('a, 'h) pci_types \<Rightarrow> (u32 \<Rightarrow> u32) \<Rightarrow> u8 \<times> u8 \<times> u8 \<Rightarrow> ('a \<times> 'h) list" where
  "found P r f =
     (case f of (bus, dev, fn) \<Rightarrow>
        if present r f then
          let a = projr (PciAddress_new P 0 bus dev fn) in [(a, PciHeader_new P a)]
        else [])"

lemma probe_function_run:
  assumes P: "pci_types_ok P" and D: "has_pci D upd b" and "dev < 32" and "fn < 8"
  shows "\<exists>s'. probe_function P (function_exists D P) bus dev fn (acc, s) =
      Inr (acc @ found P (pci_regs upd b s) (bus, dev, fn), s') \<and> has_pci D upd b \<and>
      pci_regs upd b s' = pci_regs upd b s"
proof -
  from P assms(3,4) obtain a where a: "PciAddress_new P 0 bus dev fn = Inr a" "address_bus P a = bus"
    "address_device P a = dev" "address_function P a = fn"
    unfolding pci_types_ok_def by blast
  obtain s' where "config_read D (config_reg bus dev fn 0) s =
      Inr (pci_regs upd b s (config_reg bus dev fn 0), s')" "pci_regs upd b s' = pci_regs upd b s"
    by (rule pci.read_cases [OF D TrueI])
  with a D show ?thesis
    by (simp add: probe_function_def function_exists_def pci_read_eq res_simps Let_def found_def present_def)
qed

lemma concat_map_product:
  "concat (map f (List.product xs ys)) = concat (map (\<lambda>x. concat (map (\<lambda>y. f (x, y)) ys)) xs)"
  by (induction xs) (simp_all add: comp_def)

lemma brute_force_find_run:
  assumes P: "pci_types_ok P" and D: "has_pci D upd b"
  shows "\<exists>s'. brute_force_find P (function_exists D P) s =
      Inr (concat (map (found P (pci_regs upd b s)) all_functions), s') \<and>
      pci_regs upd b s' = pci_regs upd b s"
proof -
  let ?r = "pci_regs upd b"
  have fn: "\<exists>s'. for_each (probe_function P (function_exists D P) bus dev) (urange 0 8) (acc, s) =
      Inr (fold (\<lambda>fn acc. acc @ found P (?r s) (bus, dev, fn)) (urange 0 8) acc, s') \<and> has_pci D upd b \<and>
      ?r s' = ?r s" if "dev < 32" for bus dev acc and s :: "'c hw_scheme"
    by (rule pci.for_each_reads [OF D]) (rule probe_function_run [OF P D that], simp)
  have dev: "\<exists>s'. for_each (\<lambda>dev. for_each (probe_function P (function_exists D P) bus dev) (urange 0 8))
      (urange 0 32) (acc, s) = Inr (fold (\<lambda>dev acc. acc @ concat (map (\<lambda>fn.
        found P (?r s) (bus, dev, fn)) (urange 0 8))) (urange 0 32) acc, s') \<and> has_pci D upd b \<and> ?r s' = ?r s"
    for bus acc and s :: "'c hw_scheme"
    by (rule pci.for_each_reads [OF D]) (rule fn [unfolded fold_append], simp)
  have "\<exists>s'. brute_force_find P (function_exists D P) s = Inr (fold (\<lambda>bus acc. acc @
      concat (map (\<lambda>dev. concat (map (\<lambda>fn. found P (?r s) (bus, dev, fn)) (urange 0 8))) (urange 0 32)))
      (urange_incl 0 255) [], s') \<and> has_pci D upd b \<and> ?r s' = ?r s"
    unfolding brute_force_find_def
    by (rule pci.for_each_reads [OF D]) (rule dev [unfolded fold_append])
  then obtain s' where "brute_force_find P (function_exists D P) s = Inr ([] @
      concat (map (\<lambda>bus. concat (map (\<lambda>dev. concat (map (\<lambda>fn. found P (?r s) (bus, dev, fn)) (urange 0 8)))
        (urange 0 32))) (urange_incl 0 255)), s')" "?r s' = ?r s"
    unfolding fold_append by blast
  then show ?thesis
    unfolding all_functions_def concat_map_product append_Nil by blast
qed

lemma all_functions_set: "set all_functions = {(bus, dev, fn). dev < 32 \<and> fn < 8}"
proof -
  have "unat bus < 2 ^ LENGTH(8)" for bus :: u8 by (rule unsigned_less)
  then have "bus \<le> 255" for bus :: u8 by (simp add: word_le_nat_alt less_Suc_eq_le [symmetric])
  then show ?thesis by (auto simp: all_functions_def)
qed

lemma all_functions_distinct: "distinct all_functions"
  by (simp add: all_functions_def distinct_product)

lemma found_parts:
  assumes "pci_types_ok P" and "\<forall>(bus, dev, fn) \<in> set xs. dev < 32 \<and> fn < 8"
  shows "map (\<lambda>(a, h). (address_bus P a, address_device P a, address_function P a))
      (concat (map (found P r) xs)) = filter (present r) xs"
  using assms(2)
proof (induction xs)
  case (Cons f xs)
  obtain bus dev fn where f: "f = (bus, dev, fn)" by (cases f)
  with Cons.prems assms(1) obtain a where "PciAddress_new P 0 bus dev fn = Inr a" "address_bus P a = bus"
    "address_device P a = dev" "address_function P a = fn"
    unfolding pci_types_ok_def by fastforce
  with Cons f show ?case by (simp add: found_def)
qed simp

lemma found_header: "(a, h) \<in> set (concat (map (found P r) xs)) \<Longrightarrow> h = PciHeader_new P a"
  by (auto simp: found_def Let_def split: if_splits)

section \<open>Properties\<close>

text \<open>
  Two accesses select the same configuration register exactly if they name the same bus, device and function
  and their offsets agree in the low eight bits: no two functions share a register, and an offset
  from \<open>0x100\<close> on falls back into the first 256 bytes.
\<close>

theorem config_address_injective:
  fixes offset offset' :: u16
  assumes "address_device P a < 32" and "address_function P a < 8"
    and "address_device P a' < 32" and "address_function P a' < 8"
  shows "ConfigAddress_from P a OR (ucast offset AND 0xff) = ConfigAddress_from P a' OR (ucast offset' AND 0xff) \<longleftrightarrow>
    address_bus P a = address_bus P a' \<and> address_device P a = address_device P a' \<and>
    address_function P a = address_function P a' \<and> offset AND 0xFF = offset' AND 0xFF"
  using config_reg_eq_iff [OF assms] by (simp only: ConfigAddress_eq)

theorem config_address_injective_witness:
  "ConfigAddress_from std_pci_types (0, 1, 2, 3) OR (ucast (4 :: u16) AND 0xff) \<noteq>
     ConfigAddress_from std_pci_types (0, 1, 3, 3) OR (ucast (4 :: u16) AND 0xff) \<and>
   ConfigAddress_from std_pci_types (0, 1, 2, 3) OR (ucast (4 :: u16) AND 0xff) =
     ConfigAddress_from std_pci_types (0, 1, 2, 3) OR (ucast (0x104 :: u16) AND 0xff)"
  using config_address_injective [of std_pci_types "(0, 1, 2, 3)" "(0, 1, 3, 3)" 4 4]
    config_address_injective [of std_pci_types "(0, 1, 2, 3)" "(0, 1, 2, 3)" 4 "0x104"]
  by (simp add: std_pci_types_def)

text \<open>
  Configuration space behaves as memory: after an aligned write every aligned read returns what
  the register holds, the written register what the device makes of the written value and every
  other register its old contents. An unaligned access panics before it touches a port.
\<close>

theorem pci_write_then_read:
  assumes "has_pci D upd b" and "offset AND 3 = 0"
    and "address_device P a < 32" and "address_function P a < 8"
    and "address_device P a' < 32" and "address_function P a' < 8"
  shows "\<exists>s'. pci_write P a offset v s = Inr ((), s') \<and>
    (let r = config_reg (address_bus P a) (address_device P a) (address_function P a) offset;
         r' = config_reg (address_bus P a') (address_device P a') (address_function P a') offset'
     in rmap fst (pci_read D P a' offset' s') =
       (if offset' AND 3 \<noteq> 0 then Inl (ExplicitPanic ''Try to read pci with unaligned offset'')
        else Inr (if r = r' then upd r (pci_regs upd b s r) v else pci_regs upd b s r')))"
proof -
  define r where "r = config_reg (address_bus P a) (address_device P a) (address_function P a) offset"
  define r' where "r' = config_reg (address_bus P a') (address_device P a') (address_function P a') offset'"
  obtain s' where w: "config_write r v s = Inr ((), s')"
    "pci_regs upd b s' = (pci_regs upd b s)(r := upd r (pci_regs upd b s r) v)"
    by (rule pci.write_cases [OF assms(1) TrueI])
  obtain s'' where "config_read D r' s' = Inr (pci_regs upd b s' r', s'')"
    by (rule pci.read_cases [OF assms(1) TrueI])
  with w assms(2) show ?thesis
    unfolding Let_def r_def [symmetric] r'_def [symmetric]
    by (cases "offset' AND 3 = 0")
       (simp_all add: pci_write_eq pci_read_eq r_def [symmetric] r'_def [symmetric], simp add: pci_read_def)
qed

text \<open>A machine whose only PCI function is bus 0, device 31, function 2.\<close>

definition example_bank :: "(u32, u32) bank" where
  "example_bank = \<lparr>selected = 0,
     contents = (\<lambda>r. if r = config_reg 0 31 2 0 then 0x29228086 else 0xFFFFFFFF)\<rparr>"

definition pci_devices :: devices where
  "pci_devices = \<lparr>
     port_answer = (\<lambda>t n port. let d = pci_after (\<lambda>i old v. v) example_bank t in unat (contents d (selected d))),
     load_answer = (\<lambda>t n a. 0)\<rparr>"

lemma pci_devices_ok: "has_pci pci_devices (\<lambda>i old v. v) example_bank"
  by (simp add: has_pci_def pci_devices_def Let_def)

theorem pci_write_then_read_witness:
  "\<exists>s'. pci_write std_pci_types (0, 0, 31, 2) 4 7 \<lparr>trace = [], interrupt_flag = False\<rparr> = Inr ((), s') \<and>
     rmap fst (pci_read pci_devices std_pci_types (0, 0, 31, 2) 4 s') = Inr 7"
  using pci_write_then_read [OF pci_devices_ok, of 4 std_pci_types "(0, 0, 31, 2)" "(0, 0, 31, 2)" 7
      "\<lparr>trace = [], interrupt_flag = False\<rparr>" 4]
  by (simp add: std_pci_types_def Let_def)

text \<open>
  C18. The enumeration is exact and always returns: the result lists, in order and once each, the bus,
  device and function of every function whose vendor register does not read \<open>0xFFFF\<close>, out of all
  256 times 32 times 8 functions, each with its header; and it changes no register.
\<close>

theorem brute_force_find_exact:
  assumes "pci_types_ok P" and "has_pci D upd b"
  shows "\<exists>results s'. brute_force_find P (function_exists D P) s = Inr (results, s') \<and>
    map (\<lambda>(a, h). (address_bus P a, address_device P a, address_function P a)) results =
      filter (present (pci_regs upd b s)) all_functions \<and>
    set all_functions = {(bus, dev, fn). dev < 32 \<and> fn < 8} \<and> distinct all_functions \<and>
    (\<forall>(a, h) \<in> set results. h = PciHeader_new P a) \<and> pci_regs upd b s' = pci_regs upd b s"
proof -
  obtain s' where s': "brute_force_find P (function_exists D P) s =
      Inr (concat (map (found P (pci_regs upd b s)) all_functions), s')" "pci_regs upd b s' = pci_regs upd b s"
    using brute_force_find_run [OF assms] by blast
  moreover have "\<forall>(bus, dev, fn) \<in> set all_functions. dev < 32 \<and> fn < 8"
    by (simp add: all_functions_set)
  note found_parts [OF assms(1) this]
  ultimately show ?thesis
    using all_functions_set all_functions_distinct found_header [of _ _ P "pci_regs upd b s" all_functions] by blast
qed

theorem brute_force_find_exact_witness:
  "\<exists>results s'. brute_force_find std_pci_types (function_exists pci_devices std_pci_types)
       \<lparr>trace = [], interrupt_flag = False\<rparr> = Inr (results, s') \<and>
     (0, 31, 2) \<in> set (map (\<lambda>((seg, bus, dev, fn), h). (bus, dev, fn)) results)"
proof -
  have "pci_regs (\<lambda>i old v. v) example_bank \<lparr>trace = [], interrupt_flag = False\<rparr> (config_reg 0 31 2 0) = 0x29228086"
    by (simp add: pci_regs_def pci_after_def example_bank_def)
  then have "(0, 31, 2) \<in> set (filter (present (pci_regs (\<lambda>i old v. v) example_bank
      \<lparr>trace = [], interrupt_flag = False\<rparr>)) all_functions)"
    by (simp add: present_def all_functions_set)
  with brute_force_find_exact [OF std_pci_types_ok pci_devices_ok, of "\<lparr>trace = [], interrupt_flag = False\<rparr>"]
  obtain results s' where "brute_force_find std_pci_types (function_exists pci_devices std_pci_types)
       \<lparr>trace = [], interrupt_flag = False\<rparr> = Inr (results, s')"
    "(0, 31, 2) \<in> set (map (\<lambda>(a, h). (address_bus std_pci_types a, address_device std_pci_types a,
       address_function std_pci_types a)) results)" by metis
  moreover have "(\<lambda>(a, h). (address_bus std_pci_types a, address_device std_pci_types a,
       address_function std_pci_types a)) = (\<lambda>((seg, bus, dev, fn), h). (bus, dev, fn))"
    by (auto simp: std_pci_types_def)
  ultimately show ?thesis by metis
qed

end
