(* ===== verification/Running_Kernel.thy ===== *)
theory Running_Kernel
  imports Kernel Io_Apic Pci
begin

text \<open>
  The kernel after its initialisation: a step relation over the state of the kernel whose steps are the
  operations of the components, on the locks they take in the source, and the interrupts that are
  delivered between them. The theorem is about every state that can be reached: the heap keeps its
  memory, nothing is locked or disabled for good, and no interrupt and no output ever fails.
\<close>

section \<open>Operations behind their locks\<close>

text \<open>The operations of \<^verbatim>\<open>src/memory/mod.rs\<close> lock the paging context; \<^verbatim>\<open>stats\<close> of \<^verbatim>\<open>src/allocator.rs\<close> locks the heap.\<close>

definition locked_mmap_dev ::
    "crates \<Rightarrow> 'm mapper_ops \<Rightarrow> u64 \<Rightarrow> bool \<Rightarrow> (('m, 'sp, 'kb) kernel, MapToError + UnmapGuard) eff" where
  "locked_mmap_dev E M frame acpi = with_lock PAGING_CTX_lock (machine_mmap E M acpi frame)"

definition locked_unmap :: "'m mapper_ops \<Rightarrow> UnmapGuard \<Rightarrow> (('m, 'sp, 'kb) kernel, UnmapError + unit) eff" where
  "locked_unmap M guard = with_lock PAGING_CTX_lock (machine_unmap M guard)"

definition locked_map_range ::
    "crates \<Rightarrow> 'm mapper_ops \<Rightarrow> u64 list \<Rightarrow> PageTableFlag set \<Rightarrow> (('m, 'sp, 'kb) kernel, MapToError + unit) eff" where
  "locked_map_range E M pages flags = with_lock PAGING_CTX_lock (on_paging (map_range E M pages flags))"

definition heap_stats :: "(heap_state \<Rightarrow> usize) \<Rightarrow> (('m, 'sp, 'kb) kernel, usize) eff" where
  "heap_stats stats_alloc_actual = with_lock ALLOCATOR_lock (\<lambda>s. Inr (stats_alloc_actual (heap s), s))"

text \<open>
  The processor disables interrupts when it enters a handler through the interrupt descriptor table, and
  \<^verbatim>\<open>iret\<close> restores the flag.
\<close>

definition deliver :: "(('m, 'sp, 'kb) kernel, unit) eff \<Rightarrow> (('m, 'sp, 'kb) kernel, unit) eff" where
  "deliver handler s =
     rmap (\<lambda>(r, s'). (r, s'\<lparr>interrupt_flag := interrupt_flag s\<rparr>)) (handler (s\<lparr>interrupt_flag := False\<rparr>))"

section \<open>Steps\<close>

text \<open>
  The guards that are out are part of the state: \<^verbatim>\<open>UnmapGuard\<close> can only be had from \<^verbatim>\<open>mmap_dev\<close>, and \<^verbatim>\<open>unmap\<close> takes
  it away. The guard of the hand-over to the local APIC is dropped.
\<close>

type_synonym ('m, 'sp, 'kb) system = "('m, 'sp, 'kb) kernel \<times> UnmapGuard set"

record ('m, 'sp, 'kb, 'ev, 'a, 'h) environment =
  env_crates :: crates
  env_mapper :: "'m mapper_ops"
  env_devices :: devices
  env_console :: "('m, 'sp, 'kb) console_crates"
  env_keyboard :: "('kb, 'ev) keyboard_crate"
  env_fault :: "'m fault_crate"
  env_pci :: "('a, 'h) pci_types"

inductive system_step ::
    "('m, 'sp, 'kb, 'ev, 'a, 'h) environment \<Rightarrow> ('m, 'sp, 'kb) system \<Rightarrow> ('m, 'sp, 'kb) system \<Rightarrow> bool" for V where
  timer: "interrupt_flag s \<Longrightarrow> deliver timer_interrupt_handler s = Inr ((), s') \<Longrightarrow> system_step V (s, G) (s', G)"
| keyboard: "interrupt_flag s \<Longrightarrow>
    deliver (keyboard_interrupt_handler (env_devices V) (env_console V) (env_keyboard V)) s = Inr ((), s') \<Longrightarrow>
    system_step V (s, G) (s', G)"
| breakpoint: "deliver (breakpoint_handler (env_console V) (env_fault V) frame) s = Inr ((), s') \<Longrightarrow> system_step V (s, G) (s', G)"
| print: "vga_print (env_console V) args s = Inr ((), s') \<Longrightarrow> system_step V (s, G) (s', G)"
| log: "logger_log (env_console V) rec s = Inr ((), s') \<Longrightarrow> system_step V (s, G) (s', G)"
| map: "device_frame f \<Longrightarrow> locked_mmap_dev (env_crates V) (env_mapper V) f acpi s = Inr (Inr g, s') \<Longrightarrow>
    system_step V (s, G) (s', insert g G)"
| map_error: "locked_mmap_dev (env_crates V) (env_mapper V) f acpi s = Inr (Inl e, s') \<Longrightarrow> system_step V (s, G) (s', G)"
| unmap: "g \<in> G \<Longrightarrow> locked_unmap (env_mapper V) g s = Inr (Inr (), s') \<Longrightarrow> system_step V (s, G) (s', G - {g})"
| map_range: "locked_map_range (env_crates V) (env_mapper V) pages flags s = Inr (r, s') \<Longrightarrow> system_step V (s, G) (s', G)"
| handover: "unat base < 2 ^ 47 \<Longrightarrow>
    lapic_handover (env_crates V) (env_mapper V) (env_devices V) base s = Inr ((), s') \<Longrightarrow> system_step V (s, G) (s', G)"
| config_read: "pci_read (env_devices V) (env_pci V) a offset s = Inr (v, s') \<Longrightarrow> system_step V (s, G) (s', G)"
| config_write: "pci_write (env_pci V) a offset v s = Inr ((), s') \<Longrightarrow> system_step V (s, G) (s', G)"
| wait: "sleep n s = Inr ((), s') \<Longrightarrow> system_step V (s, G) (s', G)"
| stats: "heap_stats f s = Inr (n, s') \<Longrightarrow> system_step V (s, G) (s', G)"

section \<open>The invariant\<close>

definition system_inv ::
    "('m, 'sp, 'kb, 'ev, 'a, 'h) environment \<Rightarrow> ('m \<Rightarrow> translation) \<Rightarrow> (nat \<Rightarrow> u64) \<Rightarrow> ('m, 'sp, 'kb) system \<Rightarrow> bool" where
  "system_inv V tr backing x \<longleftrightarrow>
     (case x of (s, G) \<Rightarrow>
        paging_inv (env_crates V) (env_mapper V) tr backing G (paging_ctx s) \<and>
        held s = {} \<and> interrupt_flag s \<and> controller_ok (PICS s) \<and> (\<exists>upper old t. shows_text upper old (WRITER s) t))"

lemma only_emits_pci: "only_emits (pci_read D Y a offset)" "only_emits (pci_write Y a offset v)"
  unfolding pci_read_def pci_write_def Let_def by (intro emits_intros)+

lemma with_lock_paging:
  assumes "held s = {}" and "with_lock PAGING_CTX_lock (on_paging f) s = Inr (r, s')"
  obtains c where "f (paging_ctx s) = Inr (r, c)" and "s' = s\<lparr>paging_ctx := c\<rparr>"
  using assms by (auto simp: with_lock_def on_paging_def res_iffs)

lemma with_lock_paging_run:
  assumes "held s = {}" and "f (paging_ctx s) = Inr (r, c)"
  shows "with_lock PAGING_CTX_lock (on_paging f) s = Inr (r, s\<lparr>paging_ctx := c\<rparr>)"
  using assms by (cases s) (simp add: with_lock_def on_paging_def)

lemmas locked_defs = locked_mmap_dev_def locked_unmap_def locked_map_range_def machine_mmap_def machine_unmap_def

lemma system_inv_emits:
  "system_inv V tr backing (s, G) \<Longrightarrow> system_inv V tr backing (emits u s, G)"
  by (simp add: system_inv_def emits_def)

lemma timer_returns:
  assumes "system_inv V tr backing (s, G)"
  shows "deliver timer_interrupt_handler s = Inr ((), emits [end_of_interrupt_event (PICS s)] s)"
  using assms timer_handler_run [of "s\<lparr>interrupt_flag := False\<rparr>"] by (simp add: system_inv_def deliver_def emits_def)

lemma print_returns:
  assumes "system_inv V tr backing (s, G)" and "interrupts_off (without_interrupts (env_console V))"
  shows "\<exists>w. vga_print (env_console V) args s = Inr ((), s\<lparr>WRITER := w\<rparr>) \<and> system_inv V tr backing (s\<lparr>WRITER := w\<rparr>, G)"
proof -
  obtain upper old t where t: "shows_text upper old (WRITER s) t" using assms(1) by (auto simp: system_inv_def)
  have "WRITER_lock \<notin> held s" using assms(1) by (simp add: system_inv_def)
  from vga_print_run [OF assms(2) this t] assms(1) show ?thesis by (fastforce simp: system_inv_def)
qed

lemma deliver_print:
  assumes "system_inv V tr backing (s, G)" and "interrupts_off (without_interrupts (env_console V))"
  shows "\<exists>w. deliver (breakpoint_handler (env_console V) F frame) s = Inr ((), s\<lparr>WRITER := w\<rparr>) \<and>
     system_inv V tr backing (s\<lparr>WRITER := w\<rparr>, G)"
proof -
  obtain upper old t where t: "shows_text upper old (WRITER s) t" using assms(1) by (auto simp: system_inv_def)
  have "WRITER_lock \<notin> held (s\<lparr>interrupt_flag := False\<rparr>)" using assms(1) by (simp add: system_inv_def)
  from vga_print_run [OF assms(2) this, of upper old t] t obtain w upper' old' t' where
    "breakpoint_handler (env_console V) F frame (s\<lparr>interrupt_flag := False\<rparr>) = Inr ((), s\<lparr>interrupt_flag := False, WRITER := w\<rparr>)"
    "shows_text upper' old' w t'" unfolding breakpoint_handler_def println_def by fastforce
  moreover have "s\<lparr>interrupt_flag := interrupt_flag s, WRITER := w\<rparr> = s\<lparr>WRITER := w\<rparr>" by (cases s) simp
  ultimately show ?thesis using assms(1) by (intro exI [of _ w]) (auto simp: system_inv_def deliver_def)
qed

lemma keyboard_returns:
  assumes "system_inv V tr backing (s, G)" and "interrupts_off (without_interrupts (env_console V))"
  shows "\<exists>s'. deliver (keyboard_interrupt_handler (env_devices V) (env_console V) (env_keyboard V)) s = Inr ((), s') \<and>
     system_inv V tr backing (s', G)"
proof -
  let ?s = "s\<lparr>interrupt_flag := False\<rparr>"
  obtain upper old t where t: "shows_text upper old (WRITER ?s) t" using assms(1) by (auto simp: system_inv_def)
  have "controller_ok (PICS ?s)" "held ?s \<inter> {KEYBOARD_lock, WRITER_lock, PICS_lock} = {}"
    using assms(1) by (simp_all add: system_inv_def)
  from keyboard_handler_run [OF assms(2) this t, of "env_devices V" "env_keyboard V"] assms(1) show ?thesis
    unfolding deliver_def system_inv_def Let_def emits_def by fastforce
qed

lemma log_returns:
  assumes "system_inv V tr backing (s, G)" and "interrupts_off (without_interrupts (env_console V))"
    and "uart_ok (env_console V) sent"
  shows "\<exists>sp u. logger_log (env_console V) rec s = Inr ((), (emits u s)\<lparr>SERIAL1 := sp\<rparr>) \<and>
     system_inv V tr backing ((emits u s)\<lparr>SERIAL1 := sp\<rparr>, G)"
proof -
  have "SERIAL1_lock \<notin> held s" using assms(1) by (simp add: system_inv_def)
  with sends_log [OF assms(2,3)] obtain sp u where "logger_log (env_console V) rec s = Inr ((), (emits u s)\<lparr>SERIAL1 := sp\<rparr>)"
    unfolding sends_def by blast
  then show ?thesis using assms(1) by (auto simp: system_inv_def emits_def)
qed

lemma unmap_returns:
  assumes "system_inv V tr backing (s, G)" and "g \<in> G"
  shows "\<exists>c. locked_unmap (env_mapper V) g s = Inr (Inr (), s\<lparr>paging_ctx := c\<rparr>) \<and>
     system_inv V tr backing (s\<lparr>paging_ctx := c\<rparr>, G - {g})"
proof -
  have "paging_inv (env_crates V) (env_mapper V) tr backing G (paging_ctx s)" using assms(1) by (simp add: system_inv_def)
  from paging_inv_unmap [OF this assms(2)] obtain c where c: "Paging.unmap (env_mapper V) g (paging_ctx s) = Inr (Inr (), c)"
    "paging_inv (env_crates V) (env_mapper V) tr backing (G - {g}) c" by blast
  have "held s = {}" using assms(1) by (simp add: system_inv_def)
  from with_lock_paging_run [of s "Paging.unmap (env_mapper V) g", OF this c(1)] c(2) assms(1) show ?thesis
    by (intro exI [of _ c]) (auto simp: system_inv_def locked_defs)
qed

lemma handover_keeps:
  assumes inv: "system_inv V tr backing (s, G)" and base: "unat base < 2 ^ 47"
    and run: "lapic_handover (env_crates V) (env_mapper V) (env_devices V) base s = Inr (u, s')"
  shows "system_inv V tr backing (s', G)"
proof -
  let ?E = "env_crates V" and ?M = "env_mapper V"
  from inv have pinv: "paging_inv ?E ?M tr backing G (paging_ctx s)" by (simp add: system_inv_def)
  then have E: "crates_ok ?E" by (simp add: paging_inv_def paging_good_def)
  from run obtain s1 c s2 where 1: "map_device_frame ?E ?M base s = Inr ((), s1)"
    and 2: "apic_handover (env_devices V) base (PICS s1) s1 = Inr (c, s2)" and s': "s' = s2\<lparr>PICS := c\<rparr>"
    by (auto simp: lapic_handover_def bnd_eq_Inr_iff res_iffs)
  from 1 base obtain g c1 where al: "aligned base" and g: "mmap_dev ?E ?M base False (paging_ctx s) = Inr (Inr g, c1)"
    and s1: "s1 = s\<lparr>paging_ctx := c1\<rparr>"
    by (auto simp: map_device_frame_def bnd_eq_Inr_iff lift_res_eq_Inr_iff crates_PhysAddr_new [OF E] machine_mmap_def
        crates_from_start [OF E] res_iffs on_paging_eq_Inr_iff split: if_splits)
  have "paging_inv ?E ?M tr backing (insert g G) c1"
    by (rule paging_inv_mmap [OF pinv _ g]) (use al base in \<open>simp add: device_frame_def\<close>)
  then have "paging_inv ?E ?M tr backing G c1" by (rule paging_inv_subset) auto
  moreover from 2 have "c = InterruptController.Apic base" by (auto simp: apic_handover_def Let_def bnd_eq_Inr_iff)
  moreover obtain t where "s2 = emits t s1" using only_emitsD [OF only_emits_controller(3) 2] by blast
  ultimately show ?thesis using inv s1 s' base by (auto simp: system_inv_def controller_ok_def emits_def)
qed

lemma system_inv_step:
  assumes "system_step V x y" and "system_inv V tr backing x"
    and "interrupts_off (without_interrupts (env_console V))" and "uart_ok (env_console V) sent"
  shows "system_inv V tr backing y"
  using assms(1,2)
proof (induction rule: system_step.induct)
  case (timer s s' G)
  then have "s' = emits [end_of_interrupt_event (PICS s)] s" using timer_returns [OF timer(3)] by simp
  then show ?case using system_inv_emits [OF timer(3)] by simp
next
  case (keyboard s s' G)
  then show ?case using keyboard_returns [OF keyboard(3) assms(3)] by auto
next
  case (breakpoint frame s s' G)
  then show ?case using deliver_print [OF breakpoint(2) assms(3), of "env_fault V" frame] by auto
next
  case (print args s s' G)
  then show ?case using print_returns [OF print(2) assms(3), of args] by auto
next
  case (log rec s s' G)
  then show ?case using log_returns [OF log(2) assms(3,4), of rec] by auto
next
  case (map f acpi s g s' G)
  then have "held s = {}" by (simp add: system_inv_def)
  from with_lock_paging [OF this map(2) [unfolded locked_defs]] obtain c where
    "mmap_dev (env_crates V) (env_mapper V) f acpi (paging_ctx s) = Inr (Inr g, c)" "s' = s\<lparr>paging_ctx := c\<rparr>" .
  with map(1,3) show ?case using paging_inv_mmap by (fastforce simp: system_inv_def)
next
  case (map_error f acpi s e s' G)
  then have "held s = {}" by (simp add: system_inv_def)
  from with_lock_paging [OF this map_error(1) [unfolded locked_defs]] obtain c where
    "mmap_dev (env_crates V) (env_mapper V) f acpi (paging_ctx s) = Inr (Inl e, c)" "s' = s\<lparr>paging_ctx := c\<rparr>" .
  with map_error(2) show ?case using paging_inv_mmap_error by (fastforce simp: system_inv_def)
next
  case (unmap g G s s')
  then show ?case using unmap_returns [OF unmap(3,1)] by auto
next
  case (map_range pages flags s r s' G)
  then have "held s = {}" by (simp add: system_inv_def)
  from with_lock_paging [OF this map_range(1) [unfolded locked_defs]] obtain c where
    "Paging.map_range (env_crates V) (env_mapper V) pages flags (paging_ctx s) = Inr (r, c)" "s' = s\<lparr>paging_ctx := c\<rparr>" .
  with map_range(2) show ?case using paging_inv_map_range by (fastforce simp: system_inv_def)
next
  case (handover base s s' G)
  then show ?case using handover_keeps by blast
next
  case (config_read a offset s v s' G)
  from only_emitsD [OF only_emits_pci(1) this(1)] obtain u where "s' = emits u s" ..
  then show ?case using system_inv_emits [OF config_read(2)] by simp
next
  case (config_write a offset v s s' G)
  from only_emitsD [OF only_emits_pci(2) this(1)] obtain u where "s' = emits u s" ..
  then show ?case using system_inv_emits [OF config_write(2)] by simp
next
  case (wait n s s' G)
  then show ?case using sleep_run [of n s] system_inv_emits by auto
next
  case (stats f s n s' G)
  then show ?case by (auto simp: heap_stats_def with_lock_def system_inv_def) blast
qed

lemma system_inv_reached:
  assumes "(system_step V)\<^sup>*\<^sup>* x y" and "system_inv V tr backing x"
    and "interrupts_off (without_interrupts (env_console V))" and "uart_ok (env_console V) sent"
  shows "system_inv V tr backing y"
  using assms(1,2) by (induction rule: rtranclp_induct) (auto intro: system_inv_step [OF _ _ assms(3,4)])

lemma booted_inv:
  assumes "boot_ok P tr bi"
    and "set_logger (plat_log P) lg = Inr (Inr (), lg1)" and "set_max_level (plat_log P) lg1 = Inr ((), lg2)"
    and "PICS s0 = controller_new PIC_1_OFFSET PIC_2_OFFSET" and "held s0 = {}" and "paging_ctx s0 = None"
    and "shows_text upper old (WRITER s0) t"
    and "env_crates V = plat_crates P" and "env_mapper V = plat_mapper P"
    and "kernel_init P bi (lg, s0) = Inr ((), lg3, s)"
  shows "\<exists>backing. system_inv V tr backing (s, {})"
proof -
  obtain t' ctx backing tables where
    "kernel_init P bi (lg, s0) = Inr ((), lg2, (emits t' s0)\<lparr>interrupt_flag := True, paging_ctx := Some ctx,
       heap := \<lparr>heap_region = Some (HEAP_START, HEAP_SIZE), INITIALIZED = True\<rparr>, cpu := init_idt tables\<rparr>)"
    and "\<forall>v. interrupt_stack (init_idt tables) v = (if v = 8 then Some (plat_stack P + 20480) else None)"
    and "\<exists>v1 v2. t' = pic_init_events v1 v2 32 40 @ pit_init_events"
    and "paging_inv (plat_crates P) (plat_mapper P) tr backing {} (Some ctx)"
    by (rule kernel_init_run [OF assms(1-6)])
  moreover have "controller_ok (PICS s0)" using assms(4)
    by (simp add: controller_new_def controller_ok_def PIC_1_OFFSET_def PIC_2_OFFSET_def)
  ultimately show ?thesis using assms(5,7-10) by (auto simp: system_inv_def emits_def)
qed

lemma system_inv_heap:
  assumes "system_inv V tr backing (s, G)" and "system_inv V tr backing (s', G')"
    and "paging_ctx s = Some ctx" and "paging_ctx s' = Some ctx'"
    and "HEAP_START \<le> a" and "a < HEAP_START + HEAP_SIZE"
  shows "\<exists>f. tr (mapper ctx) (frame_addr (frame_no a)) = Some (f, {PRESENT, WRITABLE}) \<and>
     tr (mapper ctx') (frame_addr (frame_no a)) = Some (f, {PRESENT, WRITABLE}) \<and>
     f \<notin> frame_bytes ` free_frames (allocator ctx')"
proof -
  obtain n where n: "n < 125" "frame_addr (frame_no a) = heap_page n" using heap_byte_page [OF assms(5,6)] .
  have inv: "paging_inv (env_crates V) (env_mapper V) tr backing G (Some ctx)"
    "paging_inv (env_crates V) (env_mapper V) tr backing G' (Some ctx')" using assms(1-4) by (simp_all add: system_inv_def)
  with n show ?thesis using heap_frame_not_free [OF inv(2) n(1)]
    by (intro exI [of _ "backing n"]) (simp add: paging_inv_def heap_backed_def)
qed

section \<open>The kernel after its initialisation\<close>

text \<open>
  C4. The running kernel stays sound. Take a kernel that has booted and any sequence of steps: timer and
  keyboard interrupts wherever interrupts are enabled, breakpoints, printing, logging, mapping devices and
  giving them back, mapping ranges, the hand-over to the local APIC, accesses to the configuration space,
  waiting. In the state that is reached interrupts are enabled and no lock is held; every byte of the heap
  is backed by the frame, and writable, as it was after boot, and the frame allocator does not hand that
  frame out again; every device that is still mapped can be given back; and neither an interrupt nor
  any output panics or deadlocks.
\<close>

theorem running_kernel_sound:
  assumes "boot_ok P tr bi"
    and "set_logger (plat_log P) lg = Inr (Inr (), lg1)" and "set_max_level (plat_log P) lg1 = Inr ((), lg2)"
    and "PICS s0 = controller_new PIC_1_OFFSET PIC_2_OFFSET" and "held s0 = {}" and "paging_ctx s0 = None"
    and "shows_text upper old (WRITER s0) t"
    and "env_crates V = plat_crates P" and "env_mapper V = plat_mapper P"
    and "interrupts_off (without_interrupts (env_console V))" and "uart_ok (env_console V) sent"
    and "kernel_init P bi (lg, s0) = Inr ((), lg2, s1)" and "(system_step V)\<^sup>*\<^sup>* (s1, {}) (s, G)"
  shows "interrupt_flag s \<and> held s = {} \<and>
     (\<exists>ctx1 ctx. paging_ctx s1 = Some ctx1 \<and> paging_ctx s = Some ctx \<and> allocator_inv (allocator ctx) \<and>
        (\<forall>a. HEAP_START \<le> a \<and> a < HEAP_START + HEAP_SIZE \<longrightarrow>
           (\<exists>f. tr (mapper ctx1) (frame_addr (frame_no a)) = Some (f, {PRESENT, WRITABLE}) \<and>
              tr (mapper ctx) (frame_addr (frame_no a)) = Some (f, {PRESENT, WRITABLE}) \<and>
              f \<notin> frame_bytes ` free_frames (allocator ctx)))) \<and>
     (\<forall>g \<in> G. \<exists>s'. locked_unmap (env_mapper V) g s = Inr (Inr (), s')) \<and>
     (\<exists>s'. deliver timer_interrupt_handler s = Inr ((), s')) \<and>
     (\<exists>s'. deliver (keyboard_interrupt_handler (env_devices V) (env_console V) (env_keyboard V)) s = Inr ((), s')) \<and>
     (\<forall>frame. \<exists>s'. deliver (breakpoint_handler (env_console V) (env_fault V) frame) s = Inr ((), s')) \<and>
     (\<forall>args. \<exists>s'. vga_print (env_console V) args s = Inr ((), s')) \<and>
     (\<forall>rec. \<exists>s'. logger_log (env_console V) rec s = Inr ((), s'))"
proof -
  obtain backing where inv1: "system_inv V tr backing (s1, {})" using booted_inv [OF assms(1-9,12)] ..
  have inv: "system_inv V tr backing (s, G)" by (rule system_inv_reached [OF assms(13) inv1 assms(10,11)])
  obtain ctx1 ctx where ctx: "paging_ctx s1 = Some ctx1" "paging_ctx s = Some ctx" "allocator_inv (allocator ctx)"
    using inv1 inv by (auto simp: system_inv_def paging_inv_def paging_good_def)
  note heap = system_inv_heap [OF inv1 inv ctx(1,2)]
  have "\<exists>s'. locked_unmap (env_mapper V) g s = Inr (Inr (), s')" if "g \<in> G" for g using unmap_returns [OF inv that] by blast
  moreover have "\<exists>s'. deliver timer_interrupt_handler s = Inr ((), s')" using timer_returns [OF inv] by blast
  moreover have "\<exists>s'. deliver (keyboard_interrupt_handler (env_devices V) (env_console V) (env_keyboard V)) s = Inr ((), s')"
    using keyboard_returns [OF inv assms(10)] by blast
  moreover have "\<exists>s'. deliver (breakpoint_handler (env_console V) (env_fault V) frame) s = Inr ((), s')" for frame
    using deliver_print [OF inv assms(10), of "env_fault V" frame] by blast
  moreover have "\<exists>s'. vga_print (env_console V) args s = Inr ((), s')" for args
    using print_returns [OF inv assms(10), of args] by blast
  moreover have "\<exists>s'. logger_log (env_console V) rec s = Inr ((), s')" for rec
    using log_returns [OF inv assms(10,11), of rec] by blast
  moreover have "interrupt_flag s" "held s = {}" using inv by (simp_all add: system_inv_def)
  ultimately show ?thesis using ctx heap by auto
qed

definition example_environment ::
    "(translation, unit, unit, u8, u16 \<times> u8 \<times> u8 \<times> u8, u16 \<times> u8 \<times> u8 \<times> u8) environment" where
  "example_environment =
     \<lparr>env_crates = std_crates, env_mapper = flat_mapper, env_devices = pic_devices, env_console = example_console,
      env_keyboard = example_keyboard, env_fault = example_fault, env_pci = std_pci_types\<rparr>"

text \<open>The kernel boots, maps a device in the hole of the memory map, and a key is pressed.\<close>

theorem running_kernel_sound_witness:
  "\<exists>s1 s g s'. kernel_init (example_platform pic_devices) example_boot_info ((), example_kernel) = Inr ((), (), s1) \<and>
     (system_step example_environment)\<^sup>*\<^sup>* (s1, {}) (s, {g}) \<and> interrupt_flag s \<and>
     locked_unmap flat_mapper g s = Inr (Inr (), s')"
proof -
  let ?V = "example_environment"
  have V: "env_crates ?V = plat_crates (example_platform pic_devices)" "env_mapper ?V = plat_mapper (example_platform pic_devices)"
    "interrupts_off (without_interrupts (env_console ?V))" "uart_ok (env_console ?V) line_bytes"
    using example_console_ok by (simp_all add: example_environment_def example_platform_def)
  have k: "PICS example_kernel = controller_new PIC_1_OFFSET PIC_2_OFFSET" "held example_kernel = {}" "paging_ctx example_kernel = None"
    by (simp_all add: example_kernel_def controller_new_def PIC_1_OFFSET_def PIC_2_OFFSET_def)
  obtain t ctx tables backing where
    run: "kernel_init (example_platform pic_devices) example_boot_info ((), example_kernel) = Inr ((), (), (emits t example_kernel)
       \<lparr>interrupt_flag := True, paging_ctx := Some ctx,
        heap := \<lparr>heap_region = Some (HEAP_START, HEAP_SIZE), INITIALIZED = True\<rparr>, cpu := init_idt tables\<rparr>)" (is "_ = Inr ((), (), ?s1)")
    and inv: "paging_inv std_crates flat_mapper (\<lambda>m. m) backing {} (Some ctx)" and free: "494 \<le> card (free_frames (allocator ctx))"
    and mm: "memory_map (allocator ctx) = boot_memory_map example_boot_info" and len: "length (bitmap (allocator ctx)) = 2002"
    and hole: "\<forall>p. unat p < 0x444444440000 \<longrightarrow> mapper ctx p = None"
    by (rule example_boot_run [OF k])
  have ty: "get_frame_ty std_crates (allocator ctx) 0x5DC000 = Some MemoryRegionType.Reserved"
    by (simp add: get_frame_ty_def mm example_boot_info_def std_crates_def)
  have "allocator_inv (allocator ctx)" "free_frames (allocator ctx) \<noteq> {}" "in_bitmap (allocator ctx) (0x5DC000 div 0x1000)"
    "device_frame 0x5DC000"
    using inv free len by (auto simp: paging_inv_def paging_good_def in_bitmap_def device_frame_def aligned_def)
  from flat_mmap_succeeds [OF std_crates_ok this(1) ty hole [rule_format] this(2,3,4), of False] obtain g ctx' where
    g: "mmap_dev std_crates flat_mapper 0x5DC000 False (Some ctx) = Inr (Inr g, Some ctx')" by auto
  let ?s2 = "?s1\<lparr>paging_ctx := Some ctx'\<rparr>"
  have "locked_mmap_dev (env_crates ?V) (env_mapper ?V) 0x5DC000 False ?s1 = Inr (Inr g, ?s2)"
    unfolding locked_defs by (rule with_lock_paging_run) (use g in \<open>simp_all add: example_environment_def k(2) emits_def\<close>)
  then have step: "system_step ?V (?s1, {}) (?s2, {g})"
    by (rule system_step.map [rotated]) (simp add: device_frame_def aligned_def)
  obtain bk where "system_inv ?V (\<lambda>m. m) bk (?s1, {})"
    using booted_inv [OF example_boot_ok _ _ k example_kernel_shows V(1,2) run] by (auto simp: example_platform_def)
  from system_inv_step [OF step this V(3,4)] have inv2: "system_inv ?V (\<lambda>m. m) bk (?s2, {g})" .
  from keyboard_returns [OF this V(3)] obtain s3 where
    "deliver (keyboard_interrupt_handler (env_devices ?V) (env_console ?V) (env_keyboard ?V)) ?s2 = Inr ((), s3)" by blast
  then have "system_step ?V (?s2, {g}) (s3, {g})" by (intro system_step.keyboard) simp_all
  with step have steps: "(system_step ?V)\<^sup>*\<^sup>* (?s1, {}) (s3, {g})" by (meson rtranclp.rtrancl_into_rtrancl rtranclp.rtrancl_refl)
  have "interrupt_flag s3 \<and> (\<exists>s'. locked_unmap flat_mapper g s3 = Inr (Inr (), s'))"
    using running_kernel_sound [OF example_boot_ok _ _ k example_kernel_shows V run steps]
    by (auto simp: example_platform_def example_environment_def)
  with run steps show ?thesis by blast
qed

end
