(* ===== verification/Aml_Handler.thy ===== *)
theory Aml_Handler
  imports Acpi_Handler Pci
begin

text \<open>
  The \<^verbatim>\<open>AmlHandler\<close> implementation of \<^verbatim>\<open>src/acpi/handlers.rs\<close>: memory, port and PCI configuration
  accesses of AML code. The memory accessors are \<open>locked_read\<close> and \<open>locked_write\<close> at their width,
  the PCI accessors go through the aligned 32-bit accesses of \<^verbatim>\<open>src/pci.rs\<close>.
\<close>

section \<open>Memory and ports\<close>

definition read_u8 :: "crates \<Rightarrow> devices \<Rightarrow> (u64 \<Rightarrow> ('z hw_scheme, MapToError + 'g) eff) \<Rightarrow> usize \<Rightarrow>
    ('g mapping_refs \<times> 'z hw_scheme, u8) eff" where
  "read_u8 = locked_read"

definition read_u16 :: "crates \<Rightarrow> devices \<Rightarrow> (u64 \<Rightarrow> ('z hw_scheme, MapToError + 'g) eff) \<Rightarrow> usize \<Rightarrow>
    ('g mapping_refs \<times> 'z hw_scheme, u16) eff" where
  "read_u16 = locked_read"

definition read_u32 :: "crates \<Rightarrow> devices \<Rightarrow> (u64 \<Rightarrow> ('z hw_scheme, MapToError + 'g) eff) \<Rightarrow> usize \<Rightarrow>
    ('g mapping_refs \<times> 'z hw_scheme, u32) eff" where
  "read_u32 = locked_read"

definition read_u64 :: "crates \<Rightarrow> devices \<Rightarrow> (u64 \<Rightarrow> ('z hw_scheme, MapToError + 'g) eff) \<Rightarrow> usize \<Rightarrow>
    ('g mapping_refs \<times> 'z hw_scheme, u64) eff" where
  "read_u64 = locked_read"

definition write_u8 :: "crates \<Rightarrow> (u64 \<Rightarrow> ('z hw_scheme, MapToError + 'g) eff) \<Rightarrow> usize \<Rightarrow> u8 \<Rightarrow>
    ('g mapping_refs \<times> 'z hw_scheme, unit) eff" where
  "write_u8 = locked_write"

definition write_u16 :: "crates \<Rightarrow> (u64 \<Rightarrow> ('z hw_scheme, MapToError + 'g) eff) \<Rightarrow> usize \<Rightarrow> u16 \<Rightarrow>
    ('g mapping_refs \<times> 'z hw_scheme, unit) eff" where
  "write_u16 = locked_write"

definition write_u32 :: "crates \<Rightarrow> (u64 \<Rightarrow> ('z hw_scheme, MapToError + 'g) eff) \<Rightarrow> usize \<Rightarrow> u32 \<Rightarrow>
    ('g mapping_refs \<times> 'z hw_scheme, unit) eff" where
  "write_u32 = locked_write"

definition write_u64 :: "crates \<Rightarrow> (u64 \<Rightarrow> ('z hw_scheme, MapToError + 'g) eff) \<Rightarrow> usize \<Rightarrow> u64 \<Rightarrow>
    ('g mapping_refs \<times> 'z hw_scheme, unit) eff" where
  "write_u64 = locked_write"

definition read_io_u8 :: "devices \<Rightarrow> u16 \<Rightarrow> ('z hw_scheme, u8) eff" where
  "read_io_u8 = read_from_port"

definition read_io_u16 :: "devices \<Rightarrow> u16 \<Rightarrow> ('z hw_scheme, u16) eff" where
  "read_io_u16 = read_from_port"

definition read_io_u32 :: "devices \<Rightarrow> u16 \<Rightarrow> ('z hw_scheme, u32) eff" where
  "read_io_u32 = read_from_port"

definition write_io_u8 :: "u16 \<Rightarrow> u8 \<Rightarrow> ('z hw_scheme, unit) eff" where
  "write_io_u8 = write_to_port"

definition write_io_u16 :: "u16 \<Rightarrow> u16 \<Rightarrow> ('z hw_scheme, unit) eff" where
  "write_io_u16 = write_to_port"

definition write_io_u32 :: "u16 \<Rightarrow> u32 \<Rightarrow> ('z hw_scheme, unit) eff" where
  "write_io_u32 = write_to_port"

section \<open>PCI configuration space\<close>

definition read_pci_u8 ::
    "devices \<Rightarrow> ('a, 'h) pci_types \<Rightarrow> u16 \<Rightarrow> u8 \<Rightarrow> u8 \<Rightarrow> u8 \<Rightarrow> u16 \<Rightarrow> ('z hw_scheme, u8) eff" where
  "read_pci_u8 D P segment bus dev fn offset =
     bnd (lift_res (PciAddress_new P segment bus dev fn)) (\<lambda>address.
     bnd (pci_read D P address (offset AND 0xFFFC)) (\<lambda>v.
     ret (ucast (drop_bit (unat (offset mod 4 * 8)) v))))"

definition read_pci_u16 ::
    "devices \<Rightarrow> ('a, 'h) pci_types \<Rightarrow> u16 \<Rightarrow> u8 \<Rightarrow> u8 \<Rightarrow> u8 \<Rightarrow> u16 \<Rightarrow> ('z hw_scheme, u16) eff" where
  "read_pci_u16 D P segment bus dev fn offset =
     bnd (lift_res (PciAddress_new P segment bus dev fn)) (\<lambda>address.
     bnd (pci_read D P address (offset AND 0xFFFC)) (\<lambda>v.
     ret (ucast (drop_bit (unat (offset mod 2 * 16)) v))))"

definition read_pci_u32 ::
    "devices \<Rightarrow> ('a, 'h) pci_types \<Rightarrow> u16 \<Rightarrow> u8 \<Rightarrow> u8 \<Rightarrow> u8 \<Rightarrow> u16 \<Rightarrow> ('z hw_scheme, u32) eff" where
  "read_pci_u32 D P segment bus dev fn offset =
     bnd (lift_res (PciAddress_new P segment bus dev fn)) (\<lambda>address. pci_read D P address offset)"

definition write_pci_u8 ::
    "('a, 'h) pci_types \<Rightarrow> u16 \<Rightarrow> u8 \<Rightarrow> u8 \<Rightarrow> u8 \<Rightarrow> u16 \<Rightarrow> u8 \<Rightarrow> ('z hw_scheme, unit) eff" where
  "write_pci_u8 P segment bus dev fn offset value =
     bnd (lift_res (PciAddress_new P segment bus dev fn)) (\<lambda>address.
     pci_write P address (offset AND 0xFFFC) (push_bit (unat (offset mod 4 * 8)) (ucast value)))"

definition write_pci_u16 ::
    "('a, 'h) pci_types \<Rightarrow> u16 \<Rightarrow> u8 \<Rightarrow> u8 \<Rightarrow> u8 \<Rightarrow> u16 \<Rightarrow> u16 \<Rightarrow> ('z hw_scheme, unit) eff" where
  "write_pci_u16 P segment bus dev fn offset value =
     bnd (lift_res (PciAddress_new P segment bus dev fn)) (\<lambda>address.
     pci_write P address (offset AND 0xFFFC) (push_bit (unat (offset mod 2 * 16)) (ucast value)))"

definition write_pci_u32 ::
    "('a, 'h) pci_types \<Rightarrow> u16 \<Rightarrow> u8 \<Rightarrow> u8 \<Rightarrow> u8 \<Rightarrow> u16 \<Rightarrow> u32 \<Rightarrow> ('z hw_scheme, unit) eff" where
  "write_pci_u32 P segment bus dev fn offset value =
     bnd (lift_res (PciAddress_new P segment bus dev fn)) (\<lambda>address. pci_write P address offset value)"

section \<open>Behaviour\<close>

lemma dword_offset [simp]: "(offset AND 0xFFFC) AND 3 = (0 :: u16)"
  by (simp add: and.assoc)

lemma byte_shift: "unat (offset mod 4 * 8 :: u16) = 8 * (unat offset mod 4)"
proof -
  have "unat offset mod 4 < 4" by simp
  then show ?thesis by (simp add: unat_word_ariths unat_mod_distrib)
qed

lemma half_shift: "unat (offset mod 2 * 16 :: u16) = 16 * (unat offset mod 2)"
proof -
  have "unat offset mod 2 < 2" by simp
  then show ?thesis by (simp add: unat_word_ariths unat_mod_distrib)
qed

lemma pci_address_parts:
  assumes "pci_types_ok P" and "dev < 32" and "fn < 8"
  obtains a where "PciAddress_new P segment bus dev fn = Inr a" and "address_bus P a = bus"
    and "address_device P a = dev" and "address_function P a = fn"
  using assms unfolding pci_types_ok_def by blast

text \<open>The access to the double word of a register, for the accessors above.\<close>

lemma dword_access:
  assumes "pci_types_ok P" and "has_pci D upd b" and "dev < 32" and "fn < 8" and "offset AND 3 = 0"
    and r: "r = config_reg bus dev fn offset"
  obtains a s' s'' where "PciAddress_new P segment bus dev fn = Inr a"
    and "pci_read D P a offset s = Inr (pci_regs upd b s r, s')" and "pci_regs upd b s' = pci_regs upd b s"
    and "pci_write P a offset v s = Inr ((), s'')"
    and "pci_regs upd b s'' = (pci_regs upd b s)(r := upd r (pci_regs upd b s r) v)"
proof -
  obtain a where a: "PciAddress_new P segment bus dev fn = Inr a" "address_bus P a = bus"
    "address_device P a = dev" "address_function P a = fn" using assms(1,3,4) by (rule pci_address_parts)
  obtain s' where "config_read D r s = Inr (pci_regs upd b s r, s')" "pci_regs upd b s' = pci_regs upd b s"
    by (rule pci.read_cases [OF assms(2) TrueI])
  moreover obtain s'' where "config_write r v s = Inr ((), s'')"
    "pci_regs upd b s'' = (pci_regs upd b s)(r := upd r (pci_regs upd b s r) v)"
    by (rule pci.write_cases [OF assms(2) TrueI])
  ultimately show thesis
    using a assms(5) by (intro that [of a s' s'']) (simp_all add: pci_read_eq pci_write_eq r)
qed

section \<open>Properties\<close>

text \<open>
  \<^verbatim>\<open>read_pci_u8\<close> returns the byte of configuration space at the offset, for every offset, and
  changes no register.
\<close>

theorem read_pci_u8_byte:
  assumes "pci_types_ok P" and "has_pci D upd b" and "dev < 32" and "fn < 8"
  shows "\<exists>s'. read_pci_u8 D P segment bus dev fn offset s =
      Inr (ucast (drop_bit (8 * (unat offset mod 4)) (pci_regs upd b s (config_reg bus dev fn (offset AND 0xFFFC)))), s') \<and>
    pci_regs upd b s' = pci_regs upd b s"
  by (rule dword_access [OF assms dword_offset [of offset] refl,
        where segment = segment and bus = bus and s = s and v = 0])
     (simp add: read_pci_u8_def res_simps byte_shift)

theorem read_pci_u8_byte_witness:
  "\<exists>s'. read_pci_u8 pci_devices std_pci_types 0 0 31 2 1 \<lparr>trace = [], interrupt_flag = False\<rparr> = Inr (0x80, s')"
proof -
  have "pci_regs (\<lambda>i old v. v) example_bank \<lparr>trace = [], interrupt_flag = False\<rparr> (config_reg 0 31 2 0) = 0x29228086"
    by (simp add: pci_regs_def pci_after_def example_bank_def)
  then show ?thesis
    using read_pci_u8_byte [OF std_pci_types_ok pci_devices_ok, of 31 2 0 0 1 "\<lparr>trace = [], interrupt_flag = False\<rparr>"]
    by (auto simp: drop_bit_eq_div)
qed

text \<open>
  \<^verbatim>\<open>read_pci_u16\<close> is right for offsets that are a multiple of four; for every even offset it
  returns the low half of the double word, so at offset 2 modulo 4 it returns the 16 bits two bytes
  before the ones it was asked for.
\<close>

theorem read_pci_u16_low_half:
  assumes "pci_types_ok P" and "has_pci D upd b" and "dev < 32" and "fn < 8" and "even (unat offset)"
  shows "\<exists>s'. read_pci_u16 D P segment bus dev fn offset s =
      Inr (ucast (pci_regs upd b s (config_reg bus dev fn (offset AND 0xFFFC))), s') \<and>
    pci_regs upd b s' = pci_regs upd b s"
proof -
  have even: "unat offset mod 2 = 0" using assms(5) by presburger
  show ?thesis
    by (rule dword_access [OF assms(1-4) dword_offset [of offset] refl,
          where segment = segment and bus = bus and s = s and v = 0])
       (simp add: read_pci_u16_def res_simps half_shift even)
qed

theorem read_pci_u16_low_half_witness:
  "\<exists>s'. read_pci_u16 pci_devices std_pci_types 0 0 31 2 2 \<lparr>trace = [], interrupt_flag = False\<rparr> = Inr (0x8086, s')"
proof -
  have "pci_regs (\<lambda>i old v. v) example_bank \<lparr>trace = [], interrupt_flag = False\<rparr> (config_reg 0 31 2 0) = 0x29228086"
    by (simp add: pci_regs_def pci_after_def example_bank_def)
  then show ?thesis
    using read_pci_u16_low_half [OF std_pci_types_ok pci_devices_ok, of 31 2 2 0 0 "\<lparr>trace = [], interrupt_flag = False\<rparr>"]
    by auto
qed

text \<open>
  \<^verbatim>\<open>write_pci_u8\<close> puts the value at its byte of the double word but writes the whole double word,
  with zero in the other three bytes; no other register changes.
\<close>

theorem write_pci_u8_clears_neighbours:
  assumes "pci_types_ok P" and "has_pci D upd b" and "dev < 32" and "fn < 8"
    and "r = config_reg bus dev fn (offset AND 0xFFFC)"
    and "\<forall>old v. upd r old v = v"
  shows "\<exists>s'. write_pci_u8 P segment bus dev fn offset value s = Inr ((), s') \<and>
    (\<forall>i < 4. ucast (drop_bit (8 * i) (pci_regs upd b s' r)) =
       (if i = unat offset mod 4 then value else 0 :: u8)) \<and>
    (\<forall>r'. r' \<noteq> r \<longrightarrow> pci_regs upd b s' r' = pci_regs upd b s r')"
proof -
  have "ucast (drop_bit (8 * i) (push_bit (8 * k) (ucast value :: u32))) = (if i = k then value else 0 :: u8)"
    if "i < 4" "k < 4" for i k
  proof (rule bit_word_eqI)
    fix n assume "n < LENGTH(8)"
    with that show "bit (ucast (drop_bit (8 * i) (push_bit (8 * k) (ucast value :: u32))) :: u8) n \<longleftrightarrow>
        bit (if i = k then value else 0) n"
      by (auto simp: bit_simps dest: bit_imp_le_length)
  qed
  then have bytes: "\<forall>i < 4. ucast (drop_bit (8 * i) (push_bit (8 * (unat offset mod 4)) (ucast value :: u32))) =
      (if i = unat offset mod 4 then value else 0 :: u8)" by simp
  show ?thesis
  proof (rule dword_access [OF assms(1-4) dword_offset [of offset] assms(5),
        where segment = segment and s = s and v = "push_bit (unat (offset mod 4 * 8)) (ucast value)"], goal_cases)
    case (1 a s' s'')
    with bytes assms(6) show ?case
      by (simp add: write_pci_u8_def res_simps byte_shift)
  qed
qed

theorem write_pci_u8_clears_neighbours_witness:
  "\<exists>s'. write_pci_u8 std_pci_types 0 0 31 2 1 0x11 \<lparr>trace = [], interrupt_flag = False\<rparr> = Inr ((), s') \<and>
     ucast (drop_bit (8 * 1) (pci_regs (\<lambda>i old v. v) example_bank s' (config_reg 0 31 2 0))) = (0x11 :: u8) \<and>
     ucast (drop_bit (8 * 0) (pci_regs (\<lambda>i old v. v) example_bank s' (config_reg 0 31 2 0))) = (0 :: u8)"
proof -
  obtain s' where s': "write_pci_u8 std_pci_types 0 0 31 2 1 0x11 \<lparr>trace = [], interrupt_flag = False\<rparr> = Inr ((), s')"
    and "\<forall>i < 4. ucast (drop_bit (8 * i) (pci_regs (\<lambda>i old v. v) example_bank s' (config_reg 0 31 2 0))) =
      (if i = unat (1 :: u16) mod 4 then 0x11 else 0 :: u8)"
    using write_pci_u8_clears_neighbours [OF std_pci_types_ok pci_devices_ok, of 31 2 "config_reg 0 31 2 0" 0 1 0 "0x11"
        "\<lparr>trace = [], interrupt_flag = False\<rparr>"] by auto
  from s' this(2) [rule_format, of 1] this(2) [rule_format, of 0] show ?thesis by simp
qed

end
