(* ===== verification/Acpi_Safety.thy ===== *)
theory Acpi_Safety
  imports Running_Kernel Aml_Handler
begin

text \<open>
  What the crates \<^verbatim>\<open>acpi\<close> and \<^verbatim>\<open>aml\<close> can do to the kernel. They are given the handler of
  \<^verbatim>\<open>src/acpi/handlers.rs\<close> and act on the machine through its methods alone: \<open>handler_step\<close> is one call, and
  an operation of a crate is a sequence of calls. No such sequence touches the heap, the devices that the
  kernel has mapped for itself, the locks or the interrupt controller.
\<close>

section \<open>Calls of the handler\<close>

inductive handler_step ::
    "crates \<Rightarrow> 'm mapper_ops \<Rightarrow> devices \<Rightarrow> ('a, 'h) pci_types \<Rightarrow> UnmapGuard mapping_refs \<times> ('m, 'z) machine_scheme \<Rightarrow>
     UnmapGuard mapping_refs \<times> ('m, 'z) machine_scheme \<Rightarrow> bool" for E M D Y where
  map_region: "unat a + unat n < 2 ^ 47 \<Longrightarrow> map_physical_region E (machine_mmap E M True) a n h = Inr (r, h') \<Longrightarrow>
    handler_step E M D Y h h'"
| unmap_region: "unmap_physical_region E (machine_unmap M) r h = Inr ((), h') \<Longrightarrow> handler_step E M D Y h h'"
| read8: "unat a < 2 ^ 47 \<Longrightarrow> read_u8 E D (machine_mmap E M True) a h = Inr (v, h') \<Longrightarrow> handler_step E M D Y h h'"
| read16: "unat a < 2 ^ 47 \<Longrightarrow> read_u16 E D (machine_mmap E M True) a h = Inr (w, h') \<Longrightarrow> handler_step E M D Y h h'"
| read32: "unat a < 2 ^ 47 \<Longrightarrow> read_u32 E D (machine_mmap E M True) a h = Inr (d, h') \<Longrightarrow> handler_step E M D Y h h'"
| read64: "unat a < 2 ^ 47 \<Longrightarrow> read_u64 E D (machine_mmap E M True) a h = Inr (q, h') \<Longrightarrow> handler_step E M D Y h h'"
| write8: "unat a < 2 ^ 47 \<Longrightarrow> write_u8 E (machine_mmap E M True) a v h = Inr ((), h') \<Longrightarrow> handler_step E M D Y h h'"
| write16: "unat a < 2 ^ 47 \<Longrightarrow> write_u16 E (machine_mmap E M True) a w h = Inr ((), h') \<Longrightarrow> handler_step E M D Y h h'"
| write32: "unat a < 2 ^ 47 \<Longrightarrow> write_u32 E (machine_mmap E M True) a d h = Inr ((), h') \<Longrightarrow> handler_step E M D Y h h'"
| write64: "unat a < 2 ^ 47 \<Longrightarrow> write_u64 E (machine_mmap E M True) a q h = Inr ((), h') \<Longrightarrow> handler_step E M D Y h h'"
| in8: "on_machine (read_io_u8 D port) h = Inr (v, h') \<Longrightarrow> handler_step E M D Y h h'"
| in16: "on_machine (read_io_u16 D port) h = Inr (w, h') \<Longrightarrow> handler_step E M D Y h h'"
| in32: "on_machine (read_io_u32 D port) h = Inr (d, h') \<Longrightarrow> handler_step E M D Y h h'"
| out8: "on_machine (write_io_u8 port v) h = Inr ((), h') \<Longrightarrow> handler_step E M D Y h h'"
| out16: "on_machine (write_io_u16 port w) h = Inr ((), h') \<Longrightarrow> handler_step E M D Y h h'"
| out32: "on_machine (write_io_u32 port d) h = Inr ((), h') \<Longrightarrow> handler_step E M D Y h h'"
| read_pci8: "on_machine (read_pci_u8 D Y seg bus dev fn offset) h = Inr (v, h') \<Longrightarrow> handler_step E M D Y h h'"
| read_pci16: "on_machine (read_pci_u16 D Y seg bus dev fn offset) h = Inr (w, h') \<Longrightarrow> handler_step E M D Y h h'"
| read_pci32: "on_machine (read_pci_u32 D Y seg bus dev fn offset) h = Inr (d, h') \<Longrightarrow> handler_step E M D Y h h'"
| write_pci8: "on_machine (write_pci_u8 Y seg bus dev fn offset v) h = Inr ((), h') \<Longrightarrow> handler_step E M D Y h h'"
| write_pci16: "on_machine (write_pci_u16 Y seg bus dev fn offset w) h = Inr ((), h') \<Longrightarrow> handler_step E M D Y h h'"
| write_pci32: "on_machine (write_pci_u32 Y seg bus dev fn offset d) h = Inr ((), h') \<Longrightarrow> handler_step E M D Y h h'"

text \<open>An operation that works through the handler, on its state and, for AML code, beside the AML context.\<close>

definition through_handler where
  "through_handler E M D Y f \<longleftrightarrow> (\<forall>h r h'. f h = Inr (r, h') \<longrightarrow> (handler_step E M D Y)\<^sup>*\<^sup>* h h')"

definition aml_through_handler where
  "aml_through_handler E M D Y f \<longleftrightarrow> (\<forall>c h r c' h'. f (c, h) = Inr (r, c', h') \<longrightarrow> (handler_step E M D Y)\<^sup>*\<^sup>* h h')"

section \<open>The invariant of kernel and handler\<close>

text \<open>
  \<open>K\<close> are the pages that the kernel has mapped for itself, whose guards it dropped; \<open>b\<close> is the interrupt flag and \<open>ic\<close> the interrupt controller.
\<close>

definition guards :: "UnmapGuard mapping_refs \<Rightarrow> UnmapGuard set" where
  "guards refs = {g. \<exists>k rc. refs k = Some (rc, g)}"

definition refs_ok :: "UnmapGuard mapping_refs \<Rightarrow> bool" where
  "refs_ok refs \<longleftrightarrow> (\<forall>k rc g. refs k = Some (rc, g) \<longrightarrow> rc \<noteq> 0 \<and> guard_page g = k)"

definition kernel_inv ::
    "crates \<Rightarrow> 'm mapper_ops \<Rightarrow> ('m \<Rightarrow> translation) \<Rightarrow> (nat \<Rightarrow> u64) \<Rightarrow> u64 set \<Rightarrow> bool \<Rightarrow> InterruptController \<Rightarrow>
     UnmapGuard mapping_refs \<times> ('m, 'sp, 'kb) kernel \<Rightarrow> bool" where
  "kernel_inv E M tr backing K b ic h \<longleftrightarrow>
     (case h of (refs, s) \<Rightarrow>
        paging_inv E M tr backing (guards refs) (paging_ctx s) \<and> refs_ok refs \<and>
        K \<subseteq> machine_mapped tr s \<and> K \<inter> dom refs = {} \<and> held s = {} \<and> interrupt_flag s = b \<and>
        PICS s = ic \<and> controller_ok ic \<and> (\<exists>upper old t. shows_text upper old (WRITER s) t))"

lemma guards_new [simp]: "guards handler_new = {}"
  by (simp add: guards_def handler_new_def)

lemma guards_insert: "refs_ok refs \<Longrightarrow> refs k = None \<Longrightarrow> guards (refs(k \<mapsto> (rc, g))) = insert g (guards refs)"
  by (auto simp: guards_def) (metis option.distinct(1))

lemma guards_count: "refs k = Some (rc, g) \<Longrightarrow> guards (refs(k \<mapsto> (rc', g))) = guards refs"
  by (auto simp: guards_def) (metis option.inject prod.inject)

lemma guards_remove:
  assumes "refs_ok refs" and "refs k = Some (rc, g)"
  shows "guards (refs(k := None)) = guards refs - {g}"
proof (rule set_eqI)
  fix x show "x \<in> guards (refs(k := None)) \<longleftrightarrow> x \<in> guards refs - {g}"
    using assms unfolding guards_def refs_ok_def by (cases "x = g") (auto, metis, metis option.inject prod.inject)
qed

lemma kernel_inv_good:
  assumes "kernel_inv E M tr backing K b ic (refs, s)"
  shows "machine_good E M tr s" "crates_ok E"
  using assms by (auto simp: kernel_inv_def paging_inv_def paging_good_def machine_good_def)

lemma kernel_inv_emits: "kernel_inv E M tr backing K b ic (refs, s) \<Longrightarrow> kernel_inv E M tr backing K b ic (refs, emits u s)"
  by (simp add: kernel_inv_def machine_mapped_def emits_def)

lemma kernel_inv_serial:
  "kernel_inv E M tr backing K b ic (refs, s) \<Longrightarrow> kernel_inv E M tr backing K b ic (refs, (emits u s)\<lparr>SERIAL1 := sp\<rparr>)"
  by (simp add: kernel_inv_def machine_mapped_def emits_def)

lemma keeps_emits:
  assumes "only_emits f" shows "keeps (kernel_inv E M tr backing K b ic) (on_machine f)"
  unfolding keeps_def
proof (intro allI impI)
  fix h r h' assume inv: "kernel_inv E M tr backing K b ic h" and run: "on_machine f h = Inr (r, h')"
  obtain refs s where h: "h = (refs, s)" by (cases h)
  from run h obtain s' where s': "f s = Inr (r, s')" "h' = (refs, s')" by (auto simp: on_machine_def res_iffs)
  with only_emitsD [OF assms s'(1)] inv h show "kernel_inv E M tr backing K b ic h'" using kernel_inv_emits by auto
qed

section \<open>Every call keeps it\<close>

lemma handler_map_keeps:
  assumes "device_frame f"
  shows "keeps (kernel_inv E M tr backing K b ic) (handler_map (machine_mmap E M True) f)"
  unfolding keeps_def
proof (intro allI impI)
  fix h r h' assume inv: "kernel_inv E M tr backing K b ic h" and run: "handler_map (machine_mmap E M True) f h = Inr (r, h')"
  obtain refs s where h: "h = (refs, s)" by (cases h)
  note inv = inv [unfolded h]
  have refs: "refs_ok refs" using inv by (simp add: kernel_inv_def)
  show "kernel_inv E M tr backing K b ic h'"
  proof (cases "refs f")
    case None
    with run h obtain g s' where g: "machine_mmap E M True f s = Inr (Inr g, s')" and h': "h' = (refs(f \<mapsto> (1, g)), s')"
      by (auto simp: handler_map_def res_iffs)
    then obtain c where c: "mmap_dev E M f True (paging_ctx s) = Inr (Inr g, c)" "s' = s\<lparr>paging_ctx := c\<rparr>"
      by (auto simp: machine_mmap_def on_paging_eq_Inr_iff)
    note law = dev.map_law [OF kernel_inv_good(1) [OF inv] assms g]
    have "paging_inv E M tr backing (insert g (guards refs)) c"
      by (rule paging_inv_mmap [OF _ assms c(1)]) (use inv in \<open>simp add: kernel_inv_def\<close>)
    then show ?thesis using inv law c(2) None unfolding h'
      by (auto simp: kernel_inv_def guards_insert [OF refs None] refs_ok_def)
  next
    case (Some e)
    then obtain rc g rc' where e: "refs f = Some (rc, g)" "checked_add rc 1 = Inr rc'" "h' = (refs(f \<mapsto> (rc', g)), s)"
      using run h by (cases e) (auto simp: handler_map_def res_iffs)
    have "rc' \<noteq> 0" using checked_add_unat [OF e(2)] by auto
    then show ?thesis using inv e(1) unfolding e(3)
      by (auto simp: kernel_inv_def guards_count [where refs = refs and k = f, OF e(1)] refs_ok_def)
  qed
qed

lemma handler_unmap_keeps: "keeps (kernel_inv E M tr backing K b ic) (handler_unmap (machine_unmap M) f)"
  unfolding keeps_def
proof (intro allI impI)
  fix h r h' assume inv: "kernel_inv E M tr backing K b ic h" and run: "handler_unmap (machine_unmap M) f h = Inr (r, h')"
  obtain refs s where h: "h = (refs, s)" by (cases h)
  note inv = inv [unfolded h]
  have refs: "refs_ok refs" using inv by (simp add: kernel_inv_def)
  from run h obtain rc g where e: "refs f = Some (rc, g)" by (auto simp: handler_unmap_def res_iffs)
  have g: "g \<in> guards refs" "guard_page g = f" using e refs by (auto simp: guards_def refs_ok_def)
  have pinv: "paging_inv E M tr backing (guards refs) (paging_ctx s)" using inv by (simp add: kernel_inv_def)
  show "kernel_inv E M tr backing K b ic h'"
  proof (cases "rc = 1")
    case True
    then obtain s' where s': "machine_unmap M g s = Inr (Inr (), s')" "h' = (refs(f := None), s')"
      using run h e by (auto simp: handler_unmap_def checked_sub_def res_iffs)
    from paging_inv_unmap [OF pinv g(1)] s'(1) obtain c where c: "s' = s\<lparr>paging_ctx := c\<rparr>"
      "paging_inv E M tr backing (guards refs - {g}) c" by (auto simp: machine_unmap_def on_paging_eq_Inr_iff)
    have "machine_guard_ok s g" "guard_page g \<in> machine_mapped tr s"
      using pinv g(1) by (auto simp: paging_inv_def guards_ok_def machine_guard_ok_def machine_mapped_def)
    from dev.unmap_law [OF kernel_inv_good(1) [OF inv] this] s'(1) have "machine_mapped tr s' = machine_mapped tr s - {f}"
      by (auto simp: g(2))
    then show ?thesis using inv c e unfolding s'(2)
      by (auto simp: kernel_inv_def guards_remove [OF refs e] refs_ok_def)
  next
    case False
    have rc: "rc \<noteq> 0" using refs e by (auto simp: refs_ok_def)
    from False have "rc - 1 \<noteq> 0" by simp
    then have "h' = (refs(f \<mapsto> (rc - 1, g)), s)" using run h e rc
      by (auto simp: handler_unmap_def checked_sub_def res_iffs split: if_splits)
    then show ?thesis using inv e \<open>rc - 1 \<noteq> 0\<close> by (auto simp: kernel_inv_def guards_count [where refs = refs and k = f, OF e] refs_ok_def)
  qed
qed

lemma keeps_lift_res: "keeps P (lift_res m)"
  by (auto simp: keeps_def lift_res_eq_Inr_iff)

lemma map_region_keeps:
  assumes "unat a + unat n < 2 ^ 47"
  shows "keeps (kernel_inv E M tr backing K b ic) (map_physical_region E (machine_mmap E M True) a n)"
  unfolding keeps_def
proof (intro allI impI)
  fix h r h' assume inv: "kernel_inv E M tr backing K b ic h" and run: "map_physical_region E (machine_mmap E M True) a n h = Inr (r, h')"
  obtain refs s where h: "h = (refs, s)" by (cases h)
  have loop: "for_eff (handler_map (machine_mmap E M True)) (region_frames a n) h = Inr ((), h')"
    by (rule dev.map_physical_region_run(1) [OF kernel_inv_good(2) [OF inv [unfolded h]] assms run])
  have "keeps (kernel_inv E M tr backing K b ic) (for_eff (handler_map (machine_mmap E M True)) (region_frames a n))"
    by (intro keeps_for_eff handler_map_keeps) (use region_frames_device [OF assms] in blast)
  then show "kernel_inv E M tr backing K b ic h'" using inv loop by (rule keepsD)
qed

lemma unmap_region_keeps: "keeps (kernel_inv E M tr backing K b ic) (unmap_physical_region E (machine_unmap M) r)"
  unfolding unmap_physical_region_def by (intro keeps_bnd keeps_lift_res keeps_for_eff handler_unmap_keeps)

lemma access_keeps:
  assumes "unat a < 2 ^ 47" and "only_emits f"
  shows "keeps (kernel_inv E M tr backing K b ic)
    (bnd (lift_res (PhysAddr_new E a)) (\<lambda>a. bnd (handler_map (machine_mmap E M True) (containing_address E a)) (\<lambda>_. on_machine f)))"
  unfolding keeps_def
proof (intro allI impI)
  fix h r h' assume inv: "kernel_inv E M tr backing K b ic h"
    and run: "bnd (lift_res (PhysAddr_new E a)) (\<lambda>a. bnd (handler_map (machine_mmap E M True) (containing_address E a)) (\<lambda>_. on_machine f)) h = Inr (r, h')"
  obtain refs s where h: "h = (refs, s)" by (cases h)
  note E = kernel_inv_good(2) [OF inv [unfolded h]]
  have "unat a < 2 ^ 52" using assms(1) by simp
  then obtain h1 where 1: "handler_map (machine_mmap E M True) (frame_addr (frame_no a)) h = Inr ((), h1)" "on_machine f h1 = Inr (r, h')"
    using run by (auto simp: bnd_eq_Inr_iff lift_res_eq_Inr_iff crates_PhysAddr_new [OF E] crates_containing [OF E])
  have "device_frame (frame_addr (frame_no a))"
    using assms(1) by (auto simp: device_frame_def frame_no_def unat_frame_start [unfolded frame_no_def])
  from keepsD [OF handler_map_keeps [OF this] inv 1(1)] show "kernel_inv E M tr backing K b ic h'"
    using keepsD [OF keeps_emits [OF assms(2)] _ 1(2)] by blast
qed

lemma locked_access_keeps:
  assumes "unat a < 2 ^ 47"
  shows "keeps (kernel_inv E M tr backing K b ic) (locked_read E D (machine_mmap E M True) a)"
    and "keeps (kernel_inv E M tr backing K b ic) (locked_write E (machine_mmap E M True) a v)"
  unfolding locked_read_def locked_write_def by (intro access_keeps assms emits_intros)+

lemmas aml_access_defs = read_u8_def read_u16_def read_u32_def read_u64_def write_u8_def write_u16_def write_u32_def write_u64_def
lemmas aml_port_defs = read_io_u8_def read_io_u16_def read_io_u32_def write_io_u8_def write_io_u16_def write_io_u32_def
lemmas aml_pci_defs = read_pci_u8_def read_pci_u16_def read_pci_u32_def write_pci_u8_def write_pci_u16_def write_pci_u32_def

lemma only_emits_ports:
  "only_emits (read_io_u8 D port)" "only_emits (read_io_u16 D port)" "only_emits (read_io_u32 D port)"
  "only_emits (write_io_u8 port v)" "only_emits (write_io_u16 port w)" "only_emits (write_io_u32 port d)"
  unfolding aml_port_defs by (intro emits_intros)+

lemma only_emits_aml_pci:
  "only_emits (read_pci_u8 D Y seg bus dev fn offset)" "only_emits (read_pci_u16 D Y seg bus dev fn offset)"
  "only_emits (read_pci_u32 D Y seg bus dev fn offset)" "only_emits (write_pci_u8 Y seg bus dev fn offset v)"
  "only_emits (write_pci_u16 Y seg bus dev fn offset w)" "only_emits (write_pci_u32 Y seg bus dev fn offset d)"
  unfolding aml_pci_defs by (intro emits_intros only_emits_pci)+

lemma handler_step_keeps:
  assumes "handler_step E M D Y h h'" and "kernel_inv E M tr backing K b ic h"
  shows "kernel_inv E M tr backing K b ic h'"
proof -
  note region = keepsD [OF map_region_keeps assms(2)] keepsD [OF unmap_region_keeps assms(2)]
  note access = keepsD [OF locked_access_keeps(1) assms(2)] keepsD [OF locked_access_keeps(2) assms(2)]
  note port = only_emits_ports [THEN keeps_emits, THEN keepsD, OF assms(2)]
  note config = only_emits_aml_pci [THEN keeps_emits, THEN keepsD, OF assms(2)]
  show ?thesis using assms(1)
    by (cases rule: handler_step.cases) (unfold aml_access_defs, (erule (1) region(1) access | erule region(2) port config)+)
qed

lemma through_handler_keeps:
  assumes "through_handler E M D Y f" shows "keeps (kernel_inv E M tr backing K b ic) f"
  unfolding keeps_def
proof (intro allI impI)
  fix h r h' assume inv: "kernel_inv E M tr backing K b ic h" and "f h = Inr (r, h')"
  with assms have "(handler_step E M D Y)\<^sup>*\<^sup>* h h'" unfolding through_handler_def by blast
  then show "kernel_inv E M tr backing K b ic h'"
    using inv by (induction rule: rtranclp_induct) (auto intro: handler_step_keeps)
qed

lemma aml_through_handler_keeps:
  assumes "aml_through_handler E M D Y f" shows "keeps (\<lambda>(c, h). kernel_inv E M tr backing K b ic h) f"
  unfolding keeps_def
proof (intro allI impI)
  fix x r x' assume inv: "case x of (c, h) \<Rightarrow> kernel_inv E M tr backing K b ic h" and run: "f x = Inr (r, x')"
  obtain c h c' h' where x: "x = (c, h)" "x' = (c', h')" by (metis prod.exhaust)
  with assms run have "(handler_step E M D Y)\<^sup>*\<^sup>* h h'" unfolding aml_through_handler_def by blast
  moreover have "kernel_inv E M tr backing K b ic h" using inv x by simp
  ultimately have "kernel_inv E M tr backing K b ic h'" by (induction rule: rtranclp_induct) (auto intro: handler_step_keeps)
  then show "case x' of (c, h) \<Rightarrow> kernel_inv E M tr backing K b ic h" using x by simp
qed

end
