(* ===== verification/Ahci.thy ===== *)
theory Ahci
  imports Rust_Prelude
begin

text \<open>
  The register map of the SATA controller, \<^verbatim>\<open>src/ahci.rs\<close>: the bit flags, the decoding of the
  capability and status registers, the registers of a port with their split 64-bit addresses, and the
  access to the ports of the controller.
\<close>

section \<open>Signatures and flags\<close>

definition ATA_SIGNATURE :: u32 where "ATA_SIGNATURE = 0x00000101"
definition ATAPI_SIGNATURE :: u32 where "ATAPI_SIGNATURE = 0xEB140101"
definition SEMB_SIGNATURE :: u32 where "SEMB_SIGNATURE = 0xC33C0101"
definition PM_SIGNATURE :: u32 where "PM_SIGNATURE = 0x96690101"

text \<open>The types made by \<^verbatim>\<open>bitflags!\<close> are words; the constants of each are listed with their names.\<close>

type_synonym HBACapabilities = u32
type_synonym GlobalHBAControl = u32
type_synonym PortInterrupt = u32

definition HBACapabilities_flags :: "(string \<times> HBACapabilities) list" where
  "HBACapabilities_flags =
     [(''SXS_SUPPORT'', push_bit 5 1), (''EMS_SUPPORT'', push_bit 6 1), (''CCC_SUPPORT'', push_bit 7 1),
      (''PS_CAPABLE'', push_bit 13 1), (''SS_CAPABLE'', push_bit 14 1),
      (''PIO_MULTI_DRQ_SUPPORT'', push_bit 15 1), (''FBSS_SUPPORT'', push_bit 16 1),
      (''PM_SUPPORT'', push_bit 17 1), (''AHCI_ONLY'', push_bit 18 1), (''CLO_SUPPORT'', push_bit 24 1),
      (''AL_SUPPORT'', push_bit 25 1), (''ALP_SUPPORT'', push_bit 26 1), (''SS_SUPPORT'', push_bit 27 1),
      (''MPS_SUPPORT'', push_bit 28 1), (''SNTF_SUPPORT'', push_bit 29 1), (''NCQ_SUPPORT'', push_bit 30 1),
      (''SUPPORTS_64_ADDRESSES'', push_bit 31 1)]"

definition GlobalHBAControl_flags :: "(string \<times> GlobalHBAControl) list" where
  "GlobalHBAControl_flags =
     [(''HBA_RESET'', 1), (''INT_ENABLE'', push_bit 1 1), (''MRSM'', push_bit 2 1),
      (''AHCI_ENABLE'', push_bit 31 1)]"

definition PortInterrupt_flags :: "(string \<times> PortInterrupt) list" where
  "PortInterrupt_flags =
     [(''D2H_REG_FIS_INT'', 1), (''PIO_SETUP_FIS_INT'', push_bit 1 1), (''DMA_SETUP_FIS_INT'', push_bit 2 1),
      (''SET_DEV_BITS_FIS_INT'', push_bit 3 1), (''UNKNOWN_FIS_INT'', push_bit 4 1),
      (''PRD_PROCESSED_INT'', push_bit 5 1), (''PORT_CONNECT_CHANGE'', push_bit 6 1),
      (''MECHANICAL_PRESENCE'', push_bit 7 1), (''PHY_READY_CHANGE'', push_bit 22 1),
      (''BAD_PORT_MUL_STATUS'', push_bit 23 1), (''OVERFLOW'', push_bit 24 1),
      (''IF_NON_FATAL_ERROR'', push_bit 26 1), (''IF_FATAL_ERROR'', push_bit 27 1),
      (''HOST_DATA_ERROR'', push_bit 28 1), (''HOST_FATAL_ERROR'', push_bit 29 1),
      (''TASK_FILE_ERROR'', push_bit 30 1), (''COLD_PORT_DETECT'', push_bit 31 1)]"

section \<open>Decoding\<close>

datatype InterfaceSpeed = Gen1 | Gen2 | Gen3 | SpeedReserved

definition InterfaceSpeed_from :: "u32 \<Rightarrow> InterfaceSpeed" where
  "InterfaceSpeed_from bits =
     (if bits = 0 then SpeedReserved else if bits = 1 then Gen1 else if bits = 2 then Gen2
      else if bits = 3 then Gen3 else SpeedReserved)"

datatype InterfacePowerManagement = PowerNoDevice | Active | Partial | Slumber | DevSleep | PowerReserved

definition InterfacePowerManagement_from :: "u32 \<Rightarrow> InterfacePowerManagement" where
  "InterfacePowerManagement_from bits =
     (if bits = 0 then PowerNoDevice else if bits = 1 then Active else if bits = 2 then Partial
      else if bits = 6 then Slumber else if bits = 8 then DevSleep else PowerReserved)"

datatype DeviceDetection = NoDevice | DeviceNoPhy | Device | InterfaceDisabled | DetectionReserved

definition has_device :: "DeviceDetection \<Rightarrow> bool" where
  "has_device self = (case self of Device \<Rightarrow> True | DeviceNoPhy \<Rightarrow> True | _ \<Rightarrow> False)"

definition DeviceDetection_from :: "u32 \<Rightarrow> DeviceDetection" where
  "DeviceDetection_from bits =
     (if bits = 0 then NoDevice else if bits = 1 then DeviceNoPhy else if bits = 3 then Device
      else if bits = 4 then InterfaceDisabled else DetectionReserved)"

definition number_of_ports :: "HBACapabilities \<Rightarrow> u8" where
  "number_of_ports self = ucast (self AND 0x1F)"

definition number_of_cmd_slots :: "HBACapabilities \<Rightarrow> u8" where
  "number_of_cmd_slots self = ucast (drop_bit 8 self AND 0x1F)"

definition cap_if_speed :: "HBACapabilities \<Rightarrow> InterfaceSpeed" where
  "cap_if_speed self = InterfaceSpeed_from (drop_bit 20 self AND 0xF)"

type_synonym StatusPort = u32

definition if_speed :: "StatusPort \<Rightarrow> InterfaceSpeed" where
  "if_speed self = InterfaceSpeed_from (drop_bit 4 self AND 0xF)"

definition if_power_management :: "StatusPort \<Rightarrow> InterfacePowerManagement" where
  "if_power_management self = InterfacePowerManagement_from (drop_bit 8 self AND 0xF)"

definition detection :: "StatusPort \<Rightarrow> DeviceDetection" where
  "detection self = DeviceDetection_from (self AND 0xF)"

text \<open>The derived \<^verbatim>\<open>Debug\<close> of the enumerations prints the name of the variant.\<close>

definition InterfaceSpeed_debug :: "InterfaceSpeed \<Rightarrow> string" where
  "InterfaceSpeed_debug x =
     (case x of Gen1 \<Rightarrow> ''Gen1'' | Gen2 \<Rightarrow> ''Gen2'' | Gen3 \<Rightarrow> ''Gen3'' | SpeedReserved \<Rightarrow> ''Reserved'')"

definition InterfacePowerManagement_debug :: "InterfacePowerManagement \<Rightarrow> string" where
  "InterfacePowerManagement_debug x =
     (case x of PowerNoDevice \<Rightarrow> ''NoDevice'' | Active \<Rightarrow> ''Active'' | Partial \<Rightarrow> ''Partial''
      | Slumber \<Rightarrow> ''Slumber'' | DevSleep \<Rightarrow> ''DevSleep'' | PowerReserved \<Rightarrow> ''Reserved'')"

definition DeviceDetection_debug :: "DeviceDetection \<Rightarrow> string" where
  "DeviceDetection_debug x =
     (case x of NoDevice \<Rightarrow> ''NoDevice'' | DeviceNoPhy \<Rightarrow> ''DeviceNoPhy'' | Device \<Rightarrow> ''Device''
      | InterfaceDisabled \<Rightarrow> ''InterfaceDisabled'' | DetectionReserved \<Rightarrow> ''Reserved'')"

definition StatusPort_debug :: "StatusPort \<Rightarrow> string" where
  "StatusPort_debug self =
     DeviceDetection_debug (detection self) @ '' | '' @
     InterfacePowerManagement_debug (if_power_management self) @ '' | '' @
     InterfaceSpeed_debug (if_speed self)"

section \<open>The registers\<close>

record HBAPortRegisters =
  clb :: u32
  clbu :: u32
  fb :: u32
  fbu :: u32
  port_int_status :: PortInterrupt
  port_int_enable :: PortInterrupt
  cmd :: u32
  port_reserved_0 :: u32
  tfd :: u32
  sig :: u32
  ssts :: StatusPort
  sctl :: u32
  serr :: u32
  sact :: u32
  cmd_issue :: u32
  sntf :: u32
  fbs :: u32
  port_reserved_1 :: "u32 list"
  port_vendor :: "u32 list"

record HBAMemoryRegisters =
  cap :: HBACapabilities
  ghc :: GlobalHBAControl
  int_status :: u32
  port_implemented :: u32
  hba_version :: u32
  ccc_ctl :: u32
  ccc_ports :: u32
  em_loc :: u32
  em_ctl :: u32
  cap_ext :: u32
  bohc :: u32
  reserved_0 :: "u8 list"
  vendor :: "u8 list"
  ports :: "HBAPortRegisters list"

definition cmd_list_addr :: "HBAPortRegisters \<Rightarrow> u64" where
  "cmd_list_addr self = push_bit 32 (ucast (clbu self)) OR ucast (clb self)"

definition set_cmd_list_addr :: "u64 \<Rightarrow> HBAPortRegisters \<Rightarrow> HBAPortRegisters res" where
  "set_cmd_list_addr addr self =
     (if addr AND 0x3FF = 0 then Inr (self\<lparr>clb := ucast addr, clbu := ucast (drop_bit 32 addr)\<rparr>)
      else Inl (AssertFailed ''Address must be 1K aligned''))"

definition fis_addr :: "HBAPortRegisters \<Rightarrow> u64" where
  "fis_addr self = push_bit 32 (ucast (fbu self)) OR ucast (fb self)"

definition set_fb_list_addr :: "u64 \<Rightarrow> HBAPortRegisters \<Rightarrow> HBAPortRegisters res" where
  "set_fb_list_addr addr self =
     (if addr AND 0x3FF = 0 then Inr (self\<lparr>fb := ucast addr, fbu := ucast (drop_bit 32 addr)\<rparr>)
      else Inl (AssertFailed ''Address must be 1K aligned''))"

text \<open>
  \<^verbatim>\<open>get_port\<close> returns a reference into the array. The mutable reference of \<^verbatim>\<open>get_port_mut\<close> is the value
  it points to together with the write through it.
\<close>

definition get_port :: "HBAMemoryRegisters \<Rightarrow> u32 \<Rightarrow> HBAPortRegisters option res" where
  "get_port self idx =
     (if idx < 32 then
        (let bt = drop_bit (unat idx) (port_implemented self)
         in if bt AND 1 = 1 then rmap Some (index (ports self) (ucast idx)) else Inr None)
      else Inl (AssertFailed ''There are only 32 ports''))"

definition get_port_mut ::
    "HBAMemoryRegisters \<Rightarrow> u32 \<Rightarrow>
     (HBAPortRegisters \<times> (HBAPortRegisters \<Rightarrow> HBAMemoryRegisters)) option res" where
  "get_port_mut self idx =
     (if idx < 32 then
        (let bt = drop_bit (unat idx) (port_implemented self)
         in if bt AND 1 = 1 then
              rmap (\<lambda>p. Some (p, \<lambda>p'. self\<lparr>ports := (ports self)[unat idx := p']\<rparr>))
                (index (ports self) (ucast idx))
            else Inr None)
      else Inl (AssertFailed ''There are only 32 ports''))"

definition count_ones :: "u32 \<Rightarrow> u32" where
  "count_ones x = word_of_nat (length (filter (bit x) [0 ..< 32]))"

definition port_count :: "HBAMemoryRegisters \<Rightarrow> u32" where
  "port_count self = count_ones (port_implemented self)"

definition port_slice :: "HBAMemoryRegisters \<Rightarrow> HBAPortRegisters list res" where
  "port_slice self = slice_to (ports self) (ucast (port_count self))"

definition port_slice_mut ::
    "HBAMemoryRegisters \<Rightarrow>
     (HBAPortRegisters list \<times> (HBAPortRegisters list \<Rightarrow> HBAMemoryRegisters)) res" where
  "port_slice_mut self =
     (let count = ucast (port_count self) :: usize
      in rmap (\<lambda>xs. (xs, \<lambda>ys. self\<lparr>ports := ys @ drop (unat count) (ports self)\<rparr>))
           (slice_to (ports self) count))"

text \<open>The array has 32 elements.\<close>

definition hba_wf :: "HBAMemoryRegisters \<Rightarrow> bool" where
  "hba_wf self \<longleftrightarrow> length (ports self) = 32"

section \<open>Layout\<close>

text \<open>
  Both structures are \<^verbatim>\<open>repr(C, packed)\<close>: the fields follow each other without padding. The sizes of
  the fields, in bytes, in the order of declaration.
\<close>

definition HBAPortRegisters_layout :: "(string \<times> nat) list" where
  "HBAPortRegisters_layout =
     [(''clb'', 4), (''clbu'', 4), (''fb'', 4), (''fbu'', 4), (''int_status'', 4), (''int_enable'', 4),
      (''cmd'', 4), (''reserved_0'', 4), (''tfd'', 4), (''sig'', 4), (''ssts'', 4), (''sctl'', 4),
      (''serr'', 4), (''sact'', 4), (''cmd_issue'', 4), (''sntf'', 4), (''fbs'', 4),
      (''reserved_1'', 11 * 4), (''vendor'', 4 * 4)]"

definition size_of :: "(string \<times> nat) list \<Rightarrow> nat" where
  "size_of layout = sum_list (map snd layout)"

definition HBAMemoryRegisters_layout :: "(string \<times> nat) list" where
  "HBAMemoryRegisters_layout =
     [(''cap'', 4), (''ghc'', 4), (''int_status'', 4), (''port_implemented'', 4), (''version'', 4),
      (''ccc_ctl'', 4), (''ccc_ports'', 4), (''em_loc'', 4), (''em_ctl'', 4), (''cap_ext'', 4), (''bohc'', 4),
      (''reserved_0'', 116), (''vendor'', 96), (''ports'', 32 * size_of HBAPortRegisters_layout)]"

definition offset_of :: "(string \<times> nat) list \<Rightarrow> string \<Rightarrow> nat" where
  "offset_of layout field = size_of (takeWhile (\<lambda>(n, _). n \<noteq> field) layout)"

definition port_offset :: "nat \<Rightarrow> nat" where
  "port_offset i = offset_of HBAMemoryRegisters_layout ''ports'' + i * size_of HBAPortRegisters_layout"

section \<open>Split addresses\<close>

text \<open>A 64-bit address kept in two 32-bit registers of a bank.\<close>

locale split_address =
  fixes low high :: "'r \<Rightarrow> u32"
    and store :: "u32 \<Rightarrow> u32 \<Rightarrow> 'r \<Rightarrow> 'r"
  assumes low_store: "low (store a b r) = a"
    and high_store: "high (store a b r) = b"
    and store_same: "store (low r) (high r) r = r"
    and store_store: "store a b (store c d r) = store a b r"
begin

lemma read_back:
  "push_bit 32 (ucast (high (store (ucast a) (ucast (drop_bit 32 a)) r))) OR
     ucast (low (store (ucast a) (ucast (drop_bit 32 a)) r)) = (a :: u64)"
  by (simp add: low_store high_store halves_join)

lemma write_back:
  assumes "a = (push_bit 32 (ucast (high r)) OR ucast (low r) :: u64)"
  shows "store (ucast a) (ucast (drop_bit 32 a)) r = r"
  unfolding assms join_halves by (rule store_same)

end

interpretation cmd_list: split_address clb clbu "\<lambda>a b r. r\<lparr>clb := a, clbu := b\<rparr>"
  by unfold_locales simp_all

interpretation fis: split_address fb fbu "\<lambda>a b r. r\<lparr>fb := a, fbu := b\<rparr>"
  by unfold_locales simp_all

lemma set_same_address:
  "cmd_list_addr p AND 0x3FF = 0 \<Longrightarrow> set_cmd_list_addr (cmd_list_addr p) p = Inr p"
  "fis_addr p AND 0x3FF = 0 \<Longrightarrow> set_fb_list_addr (fis_addr p) p = Inr p"
  by (simp_all only: set_cmd_list_addr_def set_fb_list_addr_def if_True simp_thms
      cmd_list.write_back [OF cmd_list_addr_def] fis.write_back [OF fis_addr_def])

lemma set_new_address:
  assumes "a AND 0x3FF = 0"
  shows "\<exists>p'. set_cmd_list_addr a p = Inr p' \<and> cmd_list_addr p' = a \<and> fis_addr p' = fis_addr p"
    and "\<exists>p'. set_fb_list_addr a p = Inr p' \<and> fis_addr p' = a \<and> cmd_list_addr p' = cmd_list_addr p"
  using assms cmd_list.read_back [of a p] fis.read_back [of a p]
  by (simp_all add: set_cmd_list_addr_def set_fb_list_addr_def cmd_list_addr_def fis_addr_def)

text \<open>
  The command list and FIS addresses of a port are memory: a 1K-aligned address reads back as
  written, each setter leaves the other address alone, writing the address that is there changes
  nothing, and an address that is not 1K aligned is refused.
\<close>

theorem port_addresses_roundtrip:
  "(if a AND 0x3FF = 0
    then (\<exists>p'. set_cmd_list_addr a p = Inr p' \<and> cmd_list_addr p' = a \<and> fis_addr p' = fis_addr p \<and>
                (if a = cmd_list_addr p then p' = p else True)) \<and>
         (\<exists>p'. set_fb_list_addr a p = Inr p' \<and> fis_addr p' = a \<and> cmd_list_addr p' = cmd_list_addr p \<and>
                (if a = fis_addr p then p' = p else True))
    else set_cmd_list_addr a p = Inl (AssertFailed ''Address must be 1K aligned'') \<and>
         set_fb_list_addr a p = Inl (AssertFailed ''Address must be 1K aligned''))"
proof (cases "a AND 0x3FF = 0")
  case True
  obtain p1 p2 where p: "set_cmd_list_addr a p = Inr p1" "cmd_list_addr p1 = a" "fis_addr p1 = fis_addr p"
    "set_fb_list_addr a p = Inr p2" "fis_addr p2 = a" "cmd_list_addr p2 = cmd_list_addr p"
    using set_new_address [OF True] by metis
  have "p1 = p" if "a = cmd_list_addr p"
    using set_same_address(1) [of p] p(1) True unfolding that by simp
  moreover have "p2 = p" if "a = fis_addr p"
    using set_same_address(2) [of p] p(4) True unfolding that by simp
  ultimately show ?thesis using True p by simp
qed (simp add: set_cmd_list_addr_def set_fb_list_addr_def)

section \<open>Ports\<close>

lemma and_one_bit: "drop_bit n x AND 1 = 1 \<longleftrightarrow> bit x n" for x :: "'a::len word"
  by (simp add: and_one_eq mod_2_eq_odd bit_iff_odd_drop_bit)

lemma get_port_run:
  "hba_wf self \<Longrightarrow> i < 32 \<Longrightarrow>
     get_port self i = Inr (if bit (port_implemented self) (unat i) then Some (ports self ! unat i) else None)"
  by (simp add: get_port_def and_one_bit Let_def index_def hba_wf_def word_less_nat_alt)

text \<open>
  The port access is exact: an index of 32 or more panics, an implemented port gives the element of
  the array, any other gives nothing. Writing through the mutable reference changes what \<^verbatim>\<open>get_port\<close>
  returns for that port and for no other.
\<close>

theorem get_port_mut_lens:
  assumes "hba_wf self"
  shows "if i < 32 then
           if bit (port_implemented self) (unat i) then
             \<exists>p write. get_port_mut self i = Inr (Some (p, write)) \<and> get_port self i = Inr (Some p) \<and>
               p = ports self ! unat i \<and>
               (\<forall>p'. hba_wf (write p') \<and> get_port (write p') i = Inr (Some p') \<and>
                  (\<forall>j. j \<noteq> i \<longrightarrow> get_port (write p') j = get_port self j))
           else get_port self i = Inr None \<and> get_port_mut self i = Inr None
         else get_port self i = Inl (AssertFailed ''There are only 32 ports'') \<and>
              get_port_mut self i = Inl (AssertFailed ''There are only 32 ports'')"
proof (cases "i < 32 \<and> bit (port_implemented self) (unat i)")
  case True
  let ?put = "\<lambda>p'. self\<lparr>ports := (ports self)[unat i := p']\<rparr>"
  have wf: "hba_wf (?put p')" for p' using assms by (simp add: hba_wf_def)
  have "get_port (?put p') j = get_port self j" if "j \<noteq> i" for p' j
  proof (cases "j < 32")
    case True
    then show ?thesis using that get_port_run [OF wf True] get_port_run [OF assms True]
      by (simp add: word_unat_eq_iff)
  qed (simp add: get_port_def)
  moreover have "get_port (?put p') i = Inr (Some p')" for p'
    using True assms get_port_run [OF wf] by (simp add: hba_wf_def word_less_nat_alt)
  moreover have "get_port_mut self i = Inr (Some (ports self ! unat i, ?put))"
    using True assms by (simp add: get_port_mut_def and_one_bit Let_def index_def hba_wf_def word_less_nat_alt)
  ultimately show ?thesis using True get_port_run [OF assms] wf by simp
next
  case False
  then show ?thesis using assms by (auto simp: get_port_mut_def get_port_def and_one_bit)
qed

definition example_port :: HBAPortRegisters where
  "example_port = \<lparr>clb = 0, clbu = 0, fb = 0, fbu = 0, port_int_status = 0, port_int_enable = 0, cmd = 0,
     port_reserved_0 = 0, tfd = 0, sig = ATA_SIGNATURE, ssts = 0x133, sctl = 0, serr = 0, sact = 0, cmd_issue = 0,
     sntf = 0, fbs = 0, port_reserved_1 = replicate 11 0, port_vendor = replicate 4 0\<rparr>"

text \<open>A controller that implements the ports 0 and 2.\<close>

definition example_hba :: HBAMemoryRegisters where
  "example_hba = \<lparr>cap = 0x40141F05, ghc = 0x80000000, int_status = 0, port_implemented = 5, hba_version = 0x10000,
     ccc_ctl = 0, ccc_ports = 0, em_loc = 0, em_ctl = 0, cap_ext = 0, bohc = 0, reserved_0 = replicate 116 0,
     vendor = replicate 96 0, ports = replicate 32 example_port\<rparr>"

lemma example_hba_wf: "hba_wf example_hba"
  by (simp add: hba_wf_def example_hba_def)

theorem get_port_mut_lens_witness:
  "hba_wf example_hba \<and>
   (\<exists>p write. get_port_mut example_hba 2 = Inr (Some (p, write)) \<and> p = example_port \<and>
      get_port (write (p\<lparr>cmd := 1\<rparr>)) 2 = Inr (Some (p\<lparr>cmd := 1\<rparr>)) \<and>
      get_port (write (p\<lparr>cmd := 1\<rparr>)) 0 = get_port example_hba 0)"
proof -
  have "bit (port_implemented example_hba) (unat (2 :: u32))" "ports example_hba ! unat (2 :: u32) = example_port"
    by (simp_all add: example_hba_def bit_numeral_rec)
  then show ?thesis using get_port_mut_lens [OF example_hba_wf, of 2] example_hba_wf by auto
qed

lemma unat_count_ones: "unat (count_ones x) = card {i. bit x i}"
proof -
  have set: "{i. bit x i} = set (filter (bit x) [0 ..< 32])" by (auto dest: bit_imp_le_length)
  then have "card {i. bit x i} = length (filter (bit x) [0 ..< 32])"
    by (metis set distinct_card distinct_filter distinct_upt)
  moreover have "length (filter (bit x) [0 ..< 32]) \<le> 32" using length_filter_le [of "bit x" "[0 ..< 32]"] by simp
  ultimately show ?thesis
    by (simp add: count_ones_def unsigned_of_nat take_bit_nat_eq_self)
qed

lemma card_bits_le: "card {i. bit x i} \<le> 32" for x :: u32
proof -
  have "{i. bit x i} \<subseteq> {..<32}" by (auto dest: bit_imp_le_length)
  then show ?thesis using card_mono [of "{..<32 :: nat}"] by fastforce
qed

lemma eq_mask_iff: "n \<le> 32 \<Longrightarrow> x = mask n \<longleftrightarrow> (\<forall>i < 32. i < n \<longleftrightarrow> bit x i)" for x :: u32
  by (auto simp: bit_eq_iff bit_simps dest: bit_imp_le_length)

text \<open>
  C40. The slice of ports is the first \<^verbatim>\<open>port_count\<close> elements of the array, and writing it back unchanged
  changes nothing. It lists exactly the implemented ports when those are the lowest ones; when the
  implemented ports have a gap it leaves an implemented port out and lists one that is not implemented.
\<close>

theorem port_slice_first_ports:
  assumes "hba_wf self"
  shows "\<exists>xs write. port_slice self = Inr xs \<and> port_slice_mut self = Inr (xs, write) \<and> write xs = self \<and>
     length xs = card {i. bit (port_implemented self) i} \<and> xs = take (length xs) (ports self) \<and>
     (if port_implemented self = mask (length xs)
      then \<forall>i < 32. i < length xs \<longleftrightarrow> bit (port_implemented self) i
      else \<exists>i j. bit (port_implemented self) i \<and> \<not> i < length xs \<and> j < length xs \<and>
             \<not> bit (port_implemented self) j)"
proof -
  let ?x = "port_implemented self" let ?n = "card {i. bit ?x i}"
  have n: "unat (ucast (port_count self) :: usize) = ?n" "?n \<le> 32"
    by (simp_all add: port_count_def unat_count_ones card_bits_le)
  have gap: "\<exists>i j. bit ?x i \<and> \<not> i < ?n \<and> j < ?n \<and> \<not> bit ?x j" if "?x \<noteq> mask ?n"
  proof -
    have fin: "finite {i. bit ?x i}" by (rule finite_subset [of _ "{..<32}"]) (auto dest: bit_imp_le_length)
    have ne: "{i. bit ?x i} \<noteq> {..<?n}" using that n(2) by (auto simp: eq_mask_iff set_eq_iff)
    have "\<not> {i. bit ?x i} \<subseteq> {..<?n}" "\<not> {..<?n} \<subseteq> {i. bit ?x i}"
      using ne card_subset_eq [of "{..<?n}" "{i. bit ?x i}"] card_subset_eq [OF fin, of "{..<?n}"] by auto
    then show ?thesis by auto
  qed
  show ?thesis
    using assms n gap by (simp add: port_slice_def port_slice_mut_def slice_to_def Let_def hba_wf_def eq_mask_iff)
qed

theorem port_slice_first_ports_witness:
  "hba_wf example_hba \<and>
   (\<exists>xs. port_slice example_hba = Inr xs \<and> length xs = 2 \<and> bit (port_implemented example_hba) 2 \<and>
      \<not> bit (port_implemented example_hba) 1)"
proof -
  have "count_ones 5 = 2" by code_simp
  then have "card {i. bit (port_implemented example_hba) i} = 2"
    using unat_count_ones [of 5] by (simp add: example_hba_def)
  then show ?thesis
    using port_slice_first_ports [OF example_hba_wf] example_hba_wf by (auto simp: example_hba_def bit_numeral_rec)
qed

section \<open>Layout and fields\<close>

text \<open>
  The structures lie over the registers as the AHCI specification places them: the generic host
  control registers from 0x00, the ports from 0x100, 0x80 bytes each, in 0x1100 bytes altogether, and
  within a port the addresses at 0x00 and 0x08, the command register at 0x18, signature and status at
  0x24 and 0x28 and the command issue register at 0x38.
\<close>

theorem ahci_layout:
  "port_offset i = 0x100 + i * 0x80 \<and> size_of HBAMemoryRegisters_layout = 0x1100 \<and>
   map (offset_of HBAMemoryRegisters_layout)
     [''cap'', ''ghc'', ''int_status'', ''port_implemented'', ''version'', ''bohc'', ''vendor''] =
     [0x00, 0x04, 0x08, 0x0C, 0x10, 0x28, 0xA0] \<and>
   map (offset_of HBAPortRegisters_layout)
     [''clb'', ''clbu'', ''fb'', ''fbu'', ''int_status'', ''int_enable'', ''cmd'', ''tfd'', ''sig'', ''ssts'',
      ''sctl'', ''serr'', ''sact'', ''cmd_issue'', ''sntf'', ''fbs'', ''vendor''] =
     [0x00, 0x04, 0x08, 0x0C, 0x10, 0x14, 0x18, 0x20, 0x24, 0x28, 0x2C, 0x30, 0x34, 0x38, 0x3C, 0x40, 0x70]"
  by (simp add: port_offset_def offset_of_def size_of_def HBAMemoryRegisters_layout_def HBAPortRegisters_layout_def)

lemma flags_disjoint:
  "foldr (OR) (map snd HBACapabilities_flags) 0 = 0xFF07E0E0 \<and>
   0xFF07E0E0 AND (0x1F OR push_bit 8 0x1F OR push_bit 20 0xF) = (0 :: u32) \<and>
   distinct (map snd HBACapabilities_flags) \<and> distinct (map snd GlobalHBAControl_flags) \<and>
   distinct (map snd PortInterrupt_flags)"
  by (simp add: HBACapabilities_flags_def GlobalHBAControl_flags_def PortInterrupt_flags_def)

lemma capability_bounds:
  "number_of_ports c < 32 \<and> number_of_cmd_slots c < 32"
proof -
  have "unat (x AND 0x1F) < 32" for x :: u32 using word_and_le1 [of x 31] by (simp add: word_le_nat_alt)
  moreover have "unat (ucast x :: u8) = unat x" if "unat x < 32" for x :: u32
    using that by (simp add: unsigned_ucast_eq take_bit_nat_eq_self)
  ultimately show ?thesis by (simp add: number_of_ports_def number_of_cmd_slots_def word_less_nat_alt)
qed

lemma has_device_iff: "has_device (detection s) \<longleftrightarrow> s AND 0xF = 1 \<or> s AND 0xF = 3"
  by (auto simp: detection_def DeviceDetection_from_def has_device_def)

end
