(* ===== verification/Kernel_Main.thy ===== *)
theory Kernel_Main
  imports Kernel Io_Apic Pci Ahci
begin

text \<open>
  The entry point of the kernel, \<^verbatim>\<open>kernel_main\<close> of \<^verbatim>\<open>src/main.rs\<close>: it initialises the kernel, enables ACPI,
  hands the interrupts over to the APIC, looks for the SATA controller on the PCI bus, maps its
  registers, reports its ports and turns the machine off.

  The header types of the crate \<^verbatim>\<open>pci_types\<close> read the configuration space through the access they are
  given; they are the record \<open>pci_headers\<close>. The registers of the controller are memory: \<open>registers\<close> gives
  the structure that the memory at an address holds.
\<close>

section \<open>Parameters\<close>

datatype Bar = Memory32 u32 u32 | Memory64 u64 u64 | Io

record ('a, 'h, 'ep, 's) pci_headers =
  revision_and_class :: "'h \<Rightarrow> ('s, u8 \<times> u8 \<times> u8 \<times> u8) eff"
  header_type :: "'h \<Rightarrow> ('s, u8) eff"
  EndpointHeader_from_header :: "'h \<Rightarrow> ('s, 'ep option) eff"
  endpoint_bar :: "'ep \<Rightarrow> u8 \<Rightarrow> ('s, Bar option) eff"
  device_text :: "'a \<Rightarrow> u8 \<Rightarrow> u8 \<Rightarrow> u8 \<Rightarrow> u8 \<Rightarrow> u8 list list"
  bar_text :: "Bar \<Rightarrow> u8 list list"

record flag_texts =
  HBACapabilities_debug :: "HBACapabilities \<Rightarrow> u8 list"
  GlobalHBAControl_debug :: "GlobalHBAControl \<Rightarrow> u8 list"
  PortInterrupt_debug :: "PortInterrupt \<Rightarrow> u8 list"

datatype InterruptModel = UnknownModel | ApicModel ApicInfo | OtherModel

section \<open>The parts\<close>

text \<open>The macros of the crate \<^verbatim>\<open>log\<close> hand a record with the place of the call to the logger.\<close>

definition log_main ::
    "('m, 'sp, 'kb) console_crates \<Rightarrow> string \<Rightarrow> u32 \<Rightarrow> u8 list list \<Rightarrow> (('m, 'sp, 'kb) kernel, unit) eff" where
  "log_main C lvl line message =
     logger_log C \<lparr>log_level = bytes lvl, log_target = bytes ''capucho_os'', log_file = Some (bytes ''src/main.rs''),
       log_line = Some line, log_args = message\<rparr>"

definition log_acpi ::
    "('m, 'sp, 'kb) console_crates \<Rightarrow> u32 \<Rightarrow> string \<Rightarrow> (('m, 'sp, 'kb) kernel, unit) eff" where
  "log_acpi C line message =
     logger_log C \<lparr>log_level = bytes ''DEBUG'', log_target = bytes ''capucho_os::acpi'',
       log_file = Some (bytes ''src/acpi.rs''), log_line = Some line, log_args = [bytes message]\<rparr>"

definition scan_device ::
    "('m, 'sp, 'kb) console_crates \<Rightarrow> ('a, 'h, 'ep, ('m, 'sp, 'kb) kernel) pci_headers \<Rightarrow> 'a \<times> 'h \<Rightarrow>
     'ep option \<times> ('m, 'sp, 'kb) kernel \<Rightarrow> ('ep option \<times> ('m, 'sp, 'kb) kernel) res" where
  "scan_device C H = (\<lambda>(address, header) (sata_controller, s).
     rbind (revision_and_class H header s) (\<lambda>((_, class_code, subclass, interface), s).
     rbind (header_type H header s) (\<lambda>(ty, s).
     rbind (log_main C ''INFO'' 49 (device_text H address class_code subclass interface ty) s) (\<lambda>(_, s).
     if class_code = 0x01 \<and> subclass = 0x06 \<and> interface = 0x01 then
       rbind (EndpointHeader_from_header H header s) (\<lambda>(r, s).
       rbind (unwrap r) (\<lambda>endpoint.
       Inr (Some endpoint, s)))
     else Inr (sata_controller, s)))))"

definition abar_region ::
    "('m, 'sp, 'kb) console_crates \<Rightarrow> ('a, 'h, 'ep, ('m, 'sp, 'kb) kernel) pci_headers \<Rightarrow> 'ep \<Rightarrow>
     (('m, 'sp, 'kb) kernel, u64 \<times> u64) eff" where
  "abar_region C H sata_controller =
     bnd (endpoint_bar H sata_controller 5) (\<lambda>r.
     bnd (lift_res (expect ''There's no ABAR -_-'' r)) (\<lambda>bar.
     bnd (log_main C ''INFO'' 70 (bar_text H bar)) (\<lambda>_.
     lift_res (case bar of
         Memory32 address size' \<Rightarrow> Inr (ucast address, ucast size')
       | Memory64 address size' \<Rightarrow> Inr (address, size')
       | Io \<Rightarrow> Inl (ExplicitPanic ''ABAR is in port space o_O'')))))"

definition map_abar_frame :: "crates \<Rightarrow> 'm mapper_ops \<Rightarrow> u64 \<Rightarrow> (('m, 'z) machine_scheme, unit) eff" where
  "map_abar_frame E M frame =
     bnd (machine_mmap E M False frame) (\<lambda>r.
     bnd (lift_res (expect_ok ''Failed to mmap the sata device'' r)) (\<lambda>_. ret ()))"

definition map_abar ::
    "crates \<Rightarrow> 'm mapper_ops \<Rightarrow> u64 \<Rightarrow> u64 \<Rightarrow> (('m, 'z) machine_scheme, unit) eff" where
  "map_abar E M abar_address abar_size =
     bnd (lift_res (PhysAddr_new E abar_address)) (\<lambda>a.
     bnd (lift_res (checked_add abar_address abar_size)) (\<lambda>x.
     bnd (lift_res (checked_sub x 1)) (\<lambda>y.
     bnd (lift_res (PhysAddr_new E y)) (\<lambda>b.
     for_eff (map_abar_frame E M)
       (range_inclusive E (containing_address E a) (containing_address E b))))))"

definition report_port ::
    "('m, 'sp, 'kb) console_crates \<Rightarrow> flag_texts \<Rightarrow> HBAPortRegisters \<Rightarrow> (('m, 'sp, 'kb) kernel, unit) eff" where
  "report_port C F port =
     seq [log_main C ''INFO'' 102 [upper_hex (unat (sig port))],
          log_main C ''INFO'' 103 [bytes (StatusPort_debug (ssts port))],
          log_main C ''INFO'' 104 [PortInterrupt_debug F (port_int_status port)],
          log_main C ''INFO'' 105 [PortInterrupt_debug F (port_int_enable port), [10]]]"

definition report_controller ::
    "('m, 'sp, 'kb) console_crates \<Rightarrow> flag_texts \<Rightarrow> HBAMemoryRegisters \<Rightarrow> (('m, 'sp, 'kb) kernel, unit) eff" where
  "report_controller C F hba =
     bnd (log_main C ''INFO'' 89
       [HBACapabilities_debug F (cap hba), bytes '' '', decimal (unat (number_of_ports (cap hba))), bytes '' '',
        decimal (unat (number_of_cmd_slots (cap hba))), bytes '' '', bytes (InterfaceSpeed_debug (cap_if_speed (cap hba)))])
       (\<lambda>_.
     bnd (log_main C ''INFO'' 97 [GlobalHBAControl_debug F (ghc hba)]) (\<lambda>_.
     bnd (lift_res (port_slice_mut hba)) (\<lambda>(ports, _).
     for_eff (report_port C F) ports)))"

section \<open>The entry point\<close>

text \<open>
  The type of \<^verbatim>\<open>kernel_main\<close> is \<^verbatim>\<open>!\<close>: \<open>kernel_main_run\<close> is the function up to and including the call that turns
  the machine off, after which only \<^verbatim>\<open>unreachable!\<close> follows.
  \<open>WI\<close> is \<^verbatim>\<open>without_interrupts\<close> at the type that \<^verbatim>\<open>apic_init\<close> uses it at.
\<close>

definition kernel_main_run where
  "kernel_main_run P T A WI Y H F registers boot_info = (\<lambda>(lg, s).
     let E = plat_crates P; M = plat_mapper P; D = plat_devices P; C = plat_console P
     in rbind (println C [bytes ''Hello World!''] s) (\<lambda>(_, s).
        rbind (kernel_init P boot_info (lg, s)) (\<lambda>(_, lg, s).
        rbind (bios_get_acpi E T A (log_acpi C) (machine_mmap E M True) s) (\<lambda>(acpi, h).
        rbind (platform_info T acpi h) (\<lambda>(interrupt_model, refs, s).
        rbind (enable D acpi s) (\<lambda>(enabled, s).
        if \<not> enabled then Inl (ExplicitPanic ''Failed to init the acpi'')
        else
          rbind (log_main C ''DEBUG'' 30 [bytes ''Apic handover start''] s) (\<lambda>(_, s).
          rbind (case interrupt_model of
                   UnknownModel \<Rightarrow> Inl (ExplicitPanic ''We need apic'')
                 | ApicModel apic \<Rightarrow> apic_init E M D A WI apic (acpi, refs, s)
                 | OtherModel \<Rightarrow> Inl UnreachableCode) (\<lambda>(apic, acpi, refs, s).
          rbind (log_main C ''DEBUG'' 38 [bytes ''Apic handover end''] s) (\<lambda>(_, s).
          rbind (brute_force_find Y (function_exists D Y) s) (\<lambda>(devices, s).
          rbind (for_each (scan_device C H) devices (None, s)) (\<lambda>(sata_controller, s).
          rbind (expect ''There's no sata controller :('' sata_controller) (\<lambda>sata_controller.
          rbind (abar_region C H sata_controller s) (\<lambda>((abar_address, abar_size), s).
          rbind (map_abar E M abar_address abar_size s) (\<lambda>(_, s).
          rbind (report_controller C F (registers abar_address) s) (\<lambda>(_, s).
          rbind (log_main C ''INFO'' 112 [bytes ''Now perish''] s) (\<lambda>(_, s).
          set_sleep_state A S5 (acpi, refs, s)))))))))))))))))"

definition kernel_main where
  "kernel_main P T A WI Y H F registers boot_info ls =
     rbind (kernel_main_run P T A WI Y H F registers boot_info ls) (\<lambda>(off, _).
     if \<not> off then (Inl (ExplicitPanic ''Failed to shutdown'') :: unit res) else Inl UnreachableCode)"

text \<open>The panic handler prints the panic on both consoles and halts for good; \<open>None\<close> is not returning.\<close>

definition main_panic_report ::
    "('m, 'sp, 'kb) console_crates \<Rightarrow> u8 list list \<Rightarrow> (('m, 'sp, 'kb) kernel, unit) eff" where
  "main_panic_report C info = bnd (println C info) (\<lambda>_. log_main C ''ERROR'' 126 info)"

definition main_panic ::
    "('m, 'sp, 'kb) console_crates \<Rightarrow> u8 list list \<Rightarrow> ('m, 'sp, 'kb) kernel \<Rightarrow> unit res option" where
  "main_panic C info s =
     (case main_panic_report C info s of
        Inl p \<Rightarrow> Some (Inl p)
      | Inr (_, s') \<Rightarrow> map_option Inr (hlt_loop s'))"

text \<open>The test build hands a panic to the handler of the library.\<close>

definition main_test_panic ::
    "('m, 'sp, 'kb) console_crates \<Rightarrow> u8 list list \<Rightarrow> ('m, 'sp, 'kb) kernel \<Rightarrow> unit res option" where
  "main_test_panic C info = test_panic_handler C info"

section \<open>Mapping the registers\<close>

lemma map_abar_frame_run: "map_abar_frame E M f s = Inr (u, s') \<Longrightarrow> \<exists>g. machine_mmap E M False f s = Inr (Inr g, s')"
  by (auto simp: map_abar_frame_def bnd_eq_Inr_iff lift_res_eq_Inr_iff res_iffs)

lemma map_frames_run:
  assumes "machine_good E M tr s" and "\<forall>f \<in> set frames. device_frame f"
    and "for_eff (map_abar_frame E M) frames s = Inr (u, s')"
  shows "machine_good E M tr s' \<and> machine_mapped tr s' = machine_mapped tr s \<union> set frames \<and>
    set frames \<inter> machine_mapped tr s = {} \<and> (\<exists>c. s' = s\<lparr>paging_ctx := c\<rparr>)"
  using assms
proof (induction frames arbitrary: s)
  case Nil
  then show ?case by (auto intro: exI [of _ "paging_ctx s"])
next
  case (Cons f fs)
  from Cons.prems(3) obtain s1 where 1: "map_abar_frame E M f s = Inr ((), s1)"
    and rest: "for_eff (map_abar_frame E M) fs s1 = Inr (u, s')" by (auto simp: bnd_eq_Inr_iff)
  obtain g where g: "machine_mmap E M False f s = Inr (Inr g, s1)" using map_abar_frame_run [OF 1] by blast
  have f: "device_frame f" using Cons.prems(2) by simp
  note st = dev.map_law [OF Cons.prems(1) f g]
  obtain c where "s1 = s\<lparr>paging_ctx := c\<rparr>" using g by (auto simp: machine_mmap_def on_paging_eq_Inr_iff)
  moreover have "machine_good E M tr s' \<and> machine_mapped tr s' = machine_mapped tr s1 \<union> set fs \<and>
      set fs \<inter> machine_mapped tr s1 = {} \<and> (\<exists>c. s' = s1\<lparr>paging_ctx := c\<rparr>)"
    using Cons.IH [OF _ _ rest] st Cons.prems(2) by simp
  ultimately show ?case using st by auto
qed

lemma map_abar_run:
  assumes E: "crates_ok E" and "unat abar + unat size' < 2 ^ 47" and "0 < size'"
    and "map_abar E M abar size' s = Inr (u, s')"
  shows "for_eff (map_abar_frame E M) (region_frames abar (size' - 1)) s = Inr (u, s')"
    and "unat (abar + size' - 1) = unat abar + unat size' - 1" and "unat abar + unat (size' - 1) < 2 ^ 47"
proof -
  have sz: "1 \<le> unat size'" using assms(3) by (simp add: word_less_nat_alt Suc_le_eq)
  have n: "unat (size' - 1) = unat size' - 1" using sz by (subst unat_sub) (simp_all add: word_le_nat_alt)
  then show "unat abar + unat (size' - 1) < 2 ^ 47" using assms(2) by simp
  have last: "abar + size' - 1 = abar + (size' - 1)" by simp
  show ul: "unat (abar + size' - 1) = unat abar + unat size' - 1"
    unfolding last unat_word_ariths using assms(2) n sz by simp
  show "for_eff (map_abar_frame E M) (region_frames abar (size' - 1)) s = Inr (u, s')"
    using assms(4) ul assms(2)
    by (auto simp: map_abar_def bnd_eq_Inr_iff lift_res_eq_Inr_iff crates_PhysAddr_new [OF E] checked_add_eq_Inr_iff
        checked_sub_def crates_containing [OF E] crates_range_inclusive [OF E] region_frames_def last
        simp del: upt_Suc split: if_splits)
qed

lemma abar_byte:
  assumes "unat abar + unat size' < 2 ^ 47" and "unat (abar + size' - 1) = unat abar + unat size' - 1"
    and "unat abar + unat (size' - 1) < 2 ^ 47" and "abar \<le> x" and "x < abar + size'"
  shows "frame_addr (frame_no x) \<in> set (region_frames abar (size' - 1))"
proof -
  have last: "abar + size' - 1 = abar + (size' - 1)" by simp
  have "unat (abar + size') = unat abar + unat size'" using assms(1) by (simp add: unat_word_ariths)
  then have "x \<le> abar + (size' - 1)" using assms(2,5) by (simp add: word_less_nat_alt word_le_nat_alt flip: last)
  from region_frames_byte [OF assms(3,4) this] show ?thesis .
qed

text \<open>
  C32. The registers of the SATA controller are accessible: when mapping the region of the ABAR succeeds,
  every byte of it lies in a mapped page, exactly the pages of the region were added, none of which was
  mapped before, and nothing else of the machine changed. If the region has the 0x1100 bytes of the
  register structure, every register of all 32 ports is in a mapped page.
\<close>

theorem map_abar_covers:
  assumes "machine_good E M tr s" and "unat abar + unat size' < 2 ^ 47" and "0 < size'"
    and "map_abar E M abar size' s = Inr (u, s')"
  shows "machine_good E M tr s' \<and>
    (\<forall>x. abar \<le> x \<and> x < abar + size' \<longrightarrow> frame_addr (frame_no x) \<in> machine_mapped tr s') \<and>
    machine_mapped tr s' - machine_mapped tr s = {frame_addr k | k. frame_no abar \<le> k \<and> k \<le> frame_no (abar + size' - 1)} \<and>
    (\<exists>c. s' = s\<lparr>paging_ctx := c\<rparr>) \<and>
    (\<forall>i k. 0x1100 \<le> unat size' \<and> i < 32 \<and> k < 0x80 \<longrightarrow>
       frame_addr (frame_no (abar + word_of_nat (port_offset i + k))) \<in> machine_mapped tr s')"
proof -
  have E: "crates_ok E" using assms(1) by (simp add: machine_good_def paging_good_def)
  note run = map_abar_run [OF E assms(2-4)]
  have last: "abar + size' - 1 = abar + (size' - 1)" by simp
  from map_frames_run [OF assms(1) region_frames_device [OF run(3)] run(1)]
  have st: "machine_good E M tr s'" "machine_mapped tr s' = machine_mapped tr s \<union> set (region_frames abar (size' - 1))"
    "set (region_frames abar (size' - 1)) \<inter> machine_mapped tr s = {}" "\<exists>c. s' = s\<lparr>paging_ctx := c\<rparr>" by auto
  have byte: "frame_addr (frame_no x) \<in> machine_mapped tr s'" if "abar \<le> x" "x < abar + size'" for x
    using abar_byte [OF assms(2) run(2,3) that] st(2) by blast
  moreover have "set (region_frames abar (size' - 1)) = {frame_addr k | k. frame_no abar \<le> k \<and> k \<le> frame_no (abar + size' - 1)}"
    by (auto simp: region_frames_def last less_Suc_eq_le simp del: upt_Suc)
  moreover have "frame_addr (frame_no (abar + word_of_nat (port_offset i + k))) \<in> machine_mapped tr s'"
    if "0x1100 \<le> unat size'" "i < 32" "k < 0x80" for i k
  proof -
    have off: "port_offset i + k < 0x1100" using that(2,3)
      by (simp add: port_offset_def offset_of_def size_of_def HBAMemoryRegisters_layout_def HBAPortRegisters_layout_def)
    then have "unat (word_of_nat (port_offset i + k) :: u64) = port_offset i + k" by (intro unat_of_nat_usize) simp
    then have "unat (abar + word_of_nat (port_offset i + k)) = unat abar + (port_offset i + k)"
      "unat (abar + size') = unat abar + unat size'"
      using off that(1) assms(2) by (simp_all add: unat_word_ariths del: of_nat_add)
    then show ?thesis using off that(1) by (intro byte) (simp_all add: word_le_nat_alt word_less_nat_alt)
  qed
  ultimately show ?thesis using st by auto
qed

text \<open>A controller whose registers take two pages, of reserved memory.\<close>

definition abar_machine :: "translation machine" where
  "abar_machine = \<lparr>trace = [], interrupt_flag = True, paging_ctx = Some apic_ctx,
     heap = \<lparr>heap_region = None, INITIALIZED = False\<rparr>, PICS = Pics 32 40\<rparr>"

theorem map_abar_covers_witness:
  "\<exists>s'. map_abar std_crates flat_mapper 0x9000 0x1100 abar_machine = Inr ((), s') \<and>
     frame_addr (frame_no (0x9000 + word_of_nat (port_offset 31 + 0x28))) \<in> machine_mapped (\<lambda>m. m) s'"
proof -
  obtain g1 c1 g2 c2 where m: "mmap_dev std_crates flat_mapper 0x9000 False (Some apic_ctx) = Inr (Inr g1, Some c1)"
    "mmap_dev std_crates flat_mapper 0xA000 False (Some c1) = Inr (Inr g2, Some c2)" using apic_maps by blast
  have "range_inclusive std_crates (containing_address std_crates 0x9000) (containing_address std_crates 0xA0FF) = [0x9000, 0xA000]"
    by (simp add: std_crates_def frame_no_def frame_addr_def)
  then obtain s' where run: "map_abar std_crates flat_mapper 0x9000 0x1100 abar_machine = Inr ((), s')"
    using m by (auto simp: map_abar_def bnd_run crates_PhysAddr_new [OF std_crates_ok] checked_add_def checked_sub_def
        map_abar_frame_def machine_mmap_def on_paging_def abar_machine_def)
  have good: "machine_good std_crates flat_mapper (\<lambda>m. m) abar_machine"
    by (simp add: machine_good_def paging_good_def abar_machine_def std_crates_ok flat_mapper_ok apic_ctx_ok)
  from map_abar_covers [OF good _ _ run]
  have "\<forall>i k. 0x1100 \<le> unat (0x1100 :: u64) \<and> i < 32 \<and> k < 0x80 \<longrightarrow>
      frame_addr (frame_no (0x9000 + word_of_nat (port_offset i + k))) \<in> machine_mapped (\<lambda>m. m) s'" by simp
  from this [rule_format, of 31 "0x28"] run show ?thesis by simp
qed

section \<open>Finding the controller\<close>

text \<open>
  What the header types do: they read the class code, the header type and the endpoint of a header from
  the configuration space and change nothing but what the accesses change.
\<close>

definition pci_headers_ok ::
    "('a, 'h, 'ep, ('m, 'sp, 'kb) kernel) pci_headers \<Rightarrow> ('h \<Rightarrow> u8 \<times> u8 \<times> u8 \<times> u8) \<Rightarrow> ('h \<Rightarrow> 'ep option) \<Rightarrow> bool" where
  "pci_headers_ok H cls ep \<longleftrightarrow>
     (\<forall>h s. (\<exists>u. revision_and_class H h s = Inr (cls h, emits u s)) \<and>
        (\<exists>ty u. header_type H h s = Inr (ty, emits u s)) \<and>
        (\<exists>u. EndpointHeader_from_header H h s = Inr (ep h, emits u s)))"

definition is_sata :: "u8 \<times> u8 \<times> u8 \<times> u8 \<Rightarrow> bool" where
  "is_sata cls = (case cls of (_, c, sub, interface) \<Rightarrow> c = 1 \<and> sub = 6 \<and> interface = 1)"

lemma log_main_run:
  assumes "interrupts_off (without_interrupts C)" and "uart_ok C sent" and "SERIAL1_lock \<notin> held s"
  shows "\<exists>sp u. log_main C lvl n message s = Inr ((), (emits u s)\<lparr>SERIAL1 := sp\<rparr>)"
  using sends_log [OF assms(1,2)] assms(3) unfolding log_main_def sends_def by blast

lemma scan_device_run:
  assumes "interrupts_off (without_interrupts C)" and "uart_ok C sent" and "pci_headers_ok H cls ep"
    and "SERIAL1_lock \<notin> held s" and "is_sata (cls h) \<longrightarrow> ep h \<noteq> None"
  shows "\<exists>sp u. scan_device C H (a, h) (acc, s) =
     Inr (if is_sata (cls h) then ep h else acc, (emits u s)\<lparr>SERIAL1 := sp\<rparr>)"
proof -
  obtain u1 where 1: "revision_and_class H h s = Inr (cls h, emits u1 s)" using assms(3) unfolding pci_headers_ok_def by blast
  obtain ty u2 where 2: "header_type H h (emits u1 s) = Inr (ty, emits u2 (emits u1 s))"
    using assms(3) unfolding pci_headers_ok_def by blast
  obtain r c sub i where c: "cls h = (r, c, sub, i)" by (cases "cls h")
  have "SERIAL1_lock \<notin> held (emits u2 (emits u1 s))" using assms(4) by (simp add: emits_def)
  from log_main_run [OF assms(1,2) this] obtain sp u3 where
    3: "log_main C ''INFO'' 49 (device_text H a c sub i ty) (emits u2 (emits u1 s)) =
      Inr ((), (emits u3 (emits u2 (emits u1 s)))\<lparr>SERIAL1 := sp\<rparr>)" by blast
  obtain u4 where 4: "EndpointHeader_from_header H h ((emits u3 (emits u2 (emits u1 s)))\<lparr>SERIAL1 := sp\<rparr>) =
      Inr (ep h, emits u4 ((emits u3 (emits u2 (emits u1 s)))\<lparr>SERIAL1 := sp\<rparr>))"
    using assms(3) unfolding pci_headers_ok_def by blast
  show ?thesis
  proof (cases "is_sata (cls h)")
    case True
    then obtain e where "ep h = Some e" using assms(5) by auto
    then show ?thesis using True 1 2 3 4 c
      by (intro exI [of _ sp] exI [of _ "u1 @ u2 @ u3 @ u4"]) (simp add: scan_device_def is_sata_def emits_def)
  next
    case False
    then show ?thesis using 1 2 3 c
      by (intro exI [of _ sp] exI [of _ "u1 @ u2 @ u3"]) (auto simp: scan_device_def is_sata_def emits_def)
  qed
qed

lemma scan_devices_run:
  assumes "interrupts_off (without_interrupts C)" and "uart_ok C sent" and "pci_headers_ok H cls ep"
    and "SERIAL1_lock \<notin> held s" and "\<forall>(a, h) \<in> set devs. is_sata (cls h) \<longrightarrow> ep h \<noteq> None"
  shows "\<exists>sp u. for_each (scan_device C H) devs (acc, s) =
     Inr (case rev (filter (\<lambda>(a, h). is_sata (cls h)) devs) of [] \<Rightarrow> acc | d # _ \<Rightarrow> ep (snd d), (emits u s)\<lparr>SERIAL1 := sp\<rparr>)"
  using assms(4,5)
proof (induction devs arbitrary: acc s)
  case Nil
  then show ?case by (auto intro!: exI [of _ "SERIAL1 s"] exI [of _ "[]"])
next
  case (Cons d devs)
  obtain a h where d: "d = (a, h)" by (cases d)
  obtain sp u where 1: "scan_device C H d (acc, s) = Inr (if is_sata (cls h) then ep h else acc, (emits u s)\<lparr>SERIAL1 := sp\<rparr>)"
    using scan_device_run [OF assms(1-3) Cons.prems(1)] Cons.prems(2) d by force
  have "SERIAL1_lock \<notin> held ((emits u s)\<lparr>SERIAL1 := sp\<rparr>)" using Cons.prems(1) by (simp add: emits_def)
  from Cons.IH [OF this, of "if is_sata (cls h) then ep h else acc"] Cons.prems(2) obtain sp' u' where
    "for_each (scan_device C H) devs (if is_sata (cls h) then ep h else acc, (emits u s)\<lparr>SERIAL1 := sp\<rparr>) =
      Inr (case rev (filter (\<lambda>(a, h). is_sata (cls h)) devs) of [] \<Rightarrow> if is_sata (cls h) then ep h else acc | d # _ \<Rightarrow> ep (snd d),
        (emits u' ((emits u s)\<lparr>SERIAL1 := sp\<rparr>))\<lparr>SERIAL1 := sp'\<rparr>)" by auto
  with 1 d show ?case
    by (intro exI [of _ sp'] exI [of _ "u @ u'"])
       (cases "rev (filter (\<lambda>(a, h). is_sata (cls h)) devs)"; simp add: emits_def)
qed


definition example_headers :: "(nat, u8, u8, (translation, unit, unit) kernel) pci_headers" where
  "example_headers =
     \<lparr>revision_and_class = (\<lambda>h s. Inr ((0, 1, 6, h), emits [PortIn 32 0xCFC 0] s)),
      header_type = (\<lambda>h s. Inr (0, emits [PortIn 32 0xCFC 0] s)),
      EndpointHeader_from_header = (\<lambda>h s. Inr (Some h, emits [PortIn 32 0xCFC 0] s)),
      endpoint_bar = (\<lambda>_ _ s. Inr (Some (Memory32 0x9000 0x1100), s)), device_text = (\<lambda>_ _ _ _ _. []), bar_text = (\<lambda>_. [])\<rparr>"


section \<open>Panics\<close>

lemma serial_print_locked:
  assumes "interrupts_off (without_interrupts C)" and "uart_ok C sent" and "SERIAL1_lock \<in> held s"
  shows "serial_print C strings s = Inl SpinsForever"
proof -
  let ?s = "s\<lparr>interrupt_flag := False\<rparr>"
  have "\<exists>sp u. force_serial C ?s = Inr ((), (emits u ?s)\<lparr>SERIAL1 := sp\<rparr>)"
  proof (cases "SERIAL1 s")
    case None
    obtain port u where "SerialPort_init C (SerialPort_new C 0x3F8, hw_of ?s) = Inr ((), port, emits u (hw_of ?s))"
      using assms(2) unfolding uart_ok_def by blast
    with None show ?thesis
      by (intro exI [of _ "Some port"] exI [of _ u]) (simp add: force_serial_def with_hw_def hw_of_def emits_def)
  next
    case (Some p)
    then show ?thesis by (intro exI [of _ "Some p"] exI [of _ "[]"]) (simp add: force_serial_def)
  qed
  then obtain sp u where "force_serial C ?s = Inr ((), (emits u ?s)\<lparr>SERIAL1 := sp\<rparr>)" by blast
  then show ?thesis
    using assms(1,3) by (simp add: serial_print_def interrupts_off_def bnd_run with_lock_def emits_def)
qed

lemma log_main_locked:
  assumes "interrupts_off (without_interrupts C)" and "uart_ok C sent" and "SERIAL1_lock \<in> held s"
  shows "log_main C lvl line message s = Inl SpinsForever"
  using serial_print_locked [OF assms] by (simp add: log_main_def logger_log_def logger_enabled_def bnd_run)

lemma sends_log_error:
  assumes "interrupts_off (without_interrupts C)" and "uart_ok C sent"
  shows "sends sent (bytes ''[ERROR][capucho_os][src/main.rs:126]'' @ concat info @ [10]) (log_main C ''ERROR'' 126 info)"
  using sends_log [OF assms, of "\<lparr>log_level = bytes ''ERROR'', log_target = bytes ''capucho_os'',
    log_file = Some (bytes ''src/main.rs''), log_line = Some 126, log_args = info\<rparr>"]
  by (simp add: log_text_def log_main_def bytes_def decimal_def digits.simps)

text \<open>
  C24. A panic is reported on both consoles and stops the kernel: when neither console is in use, the message is
  shown on the screen, sent over the serial port as one log line with the level and the place of
  the handler, and the handler never returns. A panic while a console is locked, which is the case when the
  console driver itself panics, waits for the lock forever.
\<close>

theorem main_panic_reported:
  assumes "interrupts_off (without_interrupts C)" and "uart_ok C sent" and "shows_text upper old (WRITER s) t"
  shows "if WRITER_lock \<in> held s \<or> SERIAL1_lock \<in> held s
    then main_panic C info s = Some (Inl SpinsForever)
    else main_panic C info s = None \<and>
      (\<exists>w' sp u. main_panic_report C info s = Inr ((), (emits u s)\<lparr>WRITER := w', SERIAL1 := sp\<rparr>) \<and>
         shows_text upper old w' (t @ map printable (concat info @ [10])) \<and>
         sent (trace s @ u) = sent (trace s) @ serial_bytes
           (bytes ''[ERROR][capucho_os][src/main.rs:126]'' @ concat info @ [10]))"
proof (cases "WRITER_lock \<in> held s")
  case True
  then show ?thesis using assms(1)
    by (simp add: main_panic_def main_panic_report_def bnd_run println_def vga_print_def interrupts_off_def with_lock_def)
next
  case False
  obtain w' where w: "println C info s = Inr ((), s\<lparr>WRITER := w'\<rparr>)"
    "shows_text upper old w' (t @ map printable (concat info @ [10]))"
    using vga_print_run [OF assms(1) False assms(3), of "info @ [bytes [CHR 10]]"] by (auto simp: println_def bytes_def)
  show ?thesis
  proof (cases "SERIAL1_lock \<in> held s")
    case True
    then show ?thesis
      using w(1) log_main_locked [OF assms(1,2), of "s\<lparr>WRITER := w'\<rparr>"]
      by (simp add: main_panic_def main_panic_report_def bnd_run)
  next
    case free: False
    have "SERIAL1_lock \<notin> held (s\<lparr>WRITER := w'\<rparr>)" using free by simp
    then obtain sp u where l: "log_main C ''ERROR'' 126 info (s\<lparr>WRITER := w'\<rparr>) = Inr ((), (emits u (s\<lparr>WRITER := w'\<rparr>))\<lparr>SERIAL1 := sp\<rparr>)"
      and sent: "sent (trace s @ u) = sent (trace s) @ serial_bytes
         (bytes ''[ERROR][capucho_os][src/main.rs:126]'' @ concat info @ [10])"
      using sends_log_error [OF assms(1,2)] unfolding sends_def by fastforce
    have "main_panic_report C info s = Inr ((), (emits u s)\<lparr>WRITER := w', SERIAL1 := sp\<rparr>)"
      using w(1) l by (simp add: main_panic_report_def bnd_run emits_def)
    then show ?thesis
      using w(2) sent False free by (auto simp: main_panic_def hlt_loop_never_returns)
  qed
qed

theorem main_panic_reported_witness:
  "main_panic example_console [bytes ''halt''] example_kernel = None"
proof -
  have "\<not> (WRITER_lock \<in> held example_kernel \<or> SERIAL1_lock \<in> held example_kernel)" by (simp add: example_kernel_def)
  from main_panic_reported [OF example_console_ok example_kernel_shows, of "[bytes ''halt'']", unfolded if_not_P [OF this]]
  show ?thesis by blast
qed

end
