(* ===== verification/Kernel_Main_Safety.thy ===== *)
theory Kernel_Main_Safety
  imports Acpi_Safety Kernel_Main
begin

text \<open>
  The whole of \<^verbatim>\<open>kernel_main\<close>: from the first line to the call that turns the machine off, over every
  component. The crates are only assumed to work through the interfaces they are given, and to report
  addresses that physical memory can have.
\<close>

section \<open>What the crates may do\<close>

definition acpi_crates_ok where
  "acpi_crates_ok E M D Y T A \<longleftrightarrow>
     through_handler E M D Y (search_for_rsdp_bios T) \<and> (\<forall>tb. through_handler E M D Y (get_sdt_FADT T tb)) \<and>
     (\<forall>tb. through_handler E M D Y (tables_platform_info T tb)) \<and>
     (\<forall>a n. aml_through_handler E M D Y (parse_table A a n)) \<and> aml_through_handler E M D Y (initialize_objects A) \<and>
     (\<forall>name arg. aml_through_handler E M D Y (invoke_method A name arg)) \<and>
     (\<forall>tb. \<forall>t \<in> set_option (dsdt T tb) \<union> set (ssdts T tb). table_bounded t) \<and>
     (\<forall>tb h info h'. tables_platform_info T tb h = Inr (Some (ApicModel info), h') \<longrightarrow> unat (local_apic_address info) < 2 ^ 47)"

fun bar_region :: "Bar \<Rightarrow> (u64 \<times> u64) option" where
  "bar_region (Memory32 address size') = Some (ucast address, ucast size')"
| "bar_region (Memory64 address size') = Some (address, size')"
| "bar_region Io = None"

definition headers_ok where
  "headers_ok H \<longleftrightarrow>
     (\<forall>h. only_emits (revision_and_class H h) \<and> only_emits (header_type H h) \<and> only_emits (EndpointHeader_from_header H h)) \<and>
     (\<forall>ep n. only_emits (endpoint_bar H ep n)) \<and>
     (\<forall>ep s bar s' a n. endpoint_bar H ep 5 s = Inr (Some bar, s') \<and> bar_region bar = Some (a, n) \<longrightarrow>
        0 < n \<and> unat a + unat n < 2 ^ 47)"

section \<open>Operations beside the handler\<close>

lemma keeps_kernel_emits: "only_emits f \<Longrightarrow> keeps (\<lambda>s. kernel_inv E M tr backing K b ic (refs, s)) f"
  by (auto simp: keeps_def dest!: only_emitsD intro: kernel_inv_emits)

lemma keeps_logger:
  assumes "interrupts_off (without_interrupts C)" and "uart_ok C sent"
  shows "keeps (\<lambda>s. kernel_inv E M tr backing K b ic (refs, s)) (logger_log C rec)"
  unfolding keeps_def
proof (intro allI impI)
  fix s r s' assume inv: "kernel_inv E M tr backing K b ic (refs, s)" and run: "logger_log C rec s = Inr (r, s')"
  have "SERIAL1_lock \<notin> held s" using inv by (simp add: kernel_inv_def)
  with sends_log [OF assms] obtain sp u where "logger_log C rec s = Inr ((), (emits u s)\<lparr>SERIAL1 := sp\<rparr>)"
    unfolding sends_def by blast
  with run have "s' = (emits u s)\<lparr>SERIAL1 := sp\<rparr>" by simp
  then show "kernel_inv E M tr backing K b ic (refs, s')" using kernel_inv_serial [OF inv] by simp
qed

lemma keeps_log:
  assumes "interrupts_off (without_interrupts C)" and "uart_ok C sent"
  shows "keeps (\<lambda>s. kernel_inv E M tr backing K b ic (refs, s)) (log_main C lvl line msg)"
    and "keeps (kernel_inv E M tr backing K b ic) (on_second (log_acpi C line' msg'))"
proof -
  show "keeps (\<lambda>s. kernel_inv E M tr backing K b ic (refs, s)) (log_main C lvl line msg)"
    unfolding log_main_def by (rule keeps_logger [OF assms])
  show "keeps (kernel_inv E M tr backing K b ic) (on_second (log_acpi C line' msg'))"
    unfolding log_acpi_def keeps_def on_second_def using keepsD [OF keeps_logger [OF assms]] by (auto simp: res_iffs)
qed

lemma keeps_case_prod: "(\<And>a b. keeps P (f a b)) \<Longrightarrow> keeps P (case x of (a, b) \<Rightarrow> f a b)"
  by (cases x) simp

lemma keeps_ret: "keeps P (ret x)"
  by (simp add: keeps_def)

lemma keeps_seq: "(\<And>m. m \<in> set ms \<Longrightarrow> keeps P m) \<Longrightarrow> keeps P (seq ms)"
  by (induction ms) (auto intro: keeps_bnd keeps_ret)

lemma report_controller_keeps:
  assumes "interrupts_off (without_interrupts C)" and "uart_ok C sent"
  shows "keeps (\<lambda>s. kernel_inv E M tr backing K b ic (refs, s)) (report_controller C F hba)"
  unfolding report_controller_def report_port_def
  by (intro keeps_bnd keeps_log(1) [OF assms] keeps_lift_res keeps_case_prod keeps_for_eff keeps_seq)
     (auto intro: keeps_log(1) [OF assms])

text \<open>The same for the loops over a result and the state.\<close>

definition preserves :: "('s \<Rightarrow> bool) \<Rightarrow> ('s \<Rightarrow> 's res) \<Rightarrow> bool" where
  "preserves P f \<longleftrightarrow> (\<forall>s s'. P s \<longrightarrow> f s = Inr s' \<longrightarrow> P s')"

lemma preservesD: "preserves P f \<Longrightarrow> P s \<Longrightarrow> f s = Inr s' \<Longrightarrow> P s'"
  by (simp add: preserves_def)

lemma preserves_for_each:
  assumes "\<And>x. preserves P (f x)" shows "preserves P (for_each f xs)"
proof (induction xs)
  case (Cons x xs)
  show ?case unfolding preserves_def
  proof (intro allI impI)
    fix s s' assume P: "P s" and "for_each f (x # xs) s = Inr s'"
    then obtain s1 where 1: "f x s = Inr s1" "for_each f xs s1 = Inr s'" by (auto simp: rbind_eq_Inr_iff)
    from preservesD [OF Cons preservesD [OF assms P 1(1)] 1(2)] show "P s'" .
  qed
qed (simp add: preserves_def)

lemma only_emits_function_exists: "only_emits (function_exists D Y a)"
  unfolding function_exists_def by (intro emits_intros only_emits_pci)

lemma brute_force_find_keeps:
  assumes P: "\<And>s u. P s \<Longrightarrow> P (emits u s)" shows "keeps P (brute_force_find Y (function_exists D Y))"
proof -
  let ?P = "\<lambda>(acc, s). P s"
  have "preserves ?P (probe_function Y (function_exists D Y) bus dev fn)" for bus dev fn
    unfolding preserves_def
  proof (intro allI impI)
    fix x y assume x: "?P x" and run: "probe_function Y (function_exists D Y) bus dev fn x = Inr y"
    obtain acc s a r acc' s' where y: "x = (acc, s)" "function_exists D Y a s = Inr (r, s')" "y = (acc', s')"
      using run by (cases x) (auto simp: probe_function_def res_iffs)
    with x show "?P y" using only_emitsD [OF only_emits_function_exists y(2)] P by auto
  qed
  then have all: "preserves ?P (for_each (\<lambda>bus. for_each (\<lambda>dev. for_each (\<lambda>fn. probe_function Y (function_exists D Y) bus dev fn)
      (urange 0 8)) (urange 0 32)) (urange_incl 0 255))" by (intro preserves_for_each)
  show ?thesis unfolding keeps_def brute_force_find_def
  proof (intro allI impI)
    fix s r s' assume inv: "P s"
      and run: "for_each (\<lambda>bus. for_each (\<lambda>dev. for_each (\<lambda>fn. probe_function Y (function_exists D Y) bus dev fn)
        (urange 0 8)) (urange 0 32)) (urange_incl 0 255) ([], s) = Inr (r, s')"
    from inv have "?P ([], s)" by simp
    from preservesD [OF all this run] show "P s'" by simp
  qed
qed

lemma scan_keeps:
  assumes "interrupts_off (without_interrupts C)" and "uart_ok C sent" and "headers_ok H"
    and "kernel_inv E M tr backing K b ic (refs, s)" and "for_each (scan_device C H) devs (acc, s) = Inr (res, s')"
  shows "kernel_inv E M tr backing K b ic (refs, s')"
proof -
  let ?P = "\<lambda>s. kernel_inv E M tr backing K b ic (refs, s)"
  have step: "?P s'" if inv: "?P s" and run: "scan_device C H (a, h) (acc, s) = Inr (acc', s')" for a h acc s acc' s'
  proof -
    have H: "only_emits (revision_and_class H h)" "only_emits (header_type H h)" "only_emits (EndpointHeader_from_header H h)"
      using assms(3) by (simp_all add: headers_ok_def)
    from run obtain r c sub i s1 ty s2 s3 where
      1: "revision_and_class H h s = Inr ((r, c, sub, i), s1)" and 2: "header_type H h s1 = Inr (ty, s2)"
      and 3: "log_main C ''INFO'' 49 (device_text H a c sub i ty) s2 = Inr ((), s3)"
      and 4: "s' = s3 \<or> (\<exists>e. EndpointHeader_from_header H h s3 = Inr (e, s'))"
      by (auto simp: scan_device_def res_iffs split: if_splits)
    have "?P s3"
      using keepsD [OF keeps_log(1) [OF assms(1,2)] _ 3] keepsD [OF keeps_kernel_emits [OF H(2)] _ 2]
        keepsD [OF keeps_kernel_emits [OF H(1)] inv 1] by blast
    with 4 show "?P s'" using keepsD [OF keeps_kernel_emits [OF H(3)]] by blast
  qed
  then have all: "preserves (\<lambda>(acc, s). ?P s) (scan_device C H d)" for d
    unfolding preserves_def by (cases d) auto
  have "case (acc, s) of (acc, s) \<Rightarrow> ?P s" using assms(4) by simp
  from preservesD [OF preserves_for_each [OF all] this assms(5)] show ?thesis by simp
qed

lemma abar_region_run:
  assumes "interrupts_off (without_interrupts C)" and "uart_ok C sent" and "headers_ok H"
    and "kernel_inv E M tr backing K b ic (refs, s)" and "abar_region C H ep s = Inr ((a, n), s')"
  obtains "kernel_inv E M tr backing K b ic (refs, s')"
    and "\<exists>bar t. endpoint_bar H ep 5 s = Inr (Some bar, t) \<and> bar_region bar = Some (a, n)" and "0 < n" and "unat a + unat n < 2 ^ 47"
proof -
  from assms(5) obtain bar s1 s2 where 1: "endpoint_bar H ep 5 s = Inr (Some bar, s1)"
    and 2: "log_main C ''INFO'' 70 (bar_text H bar) s1 = Inr ((), s2)"
    and cs: "(case bar of Memory32 address size' \<Rightarrow> Inr (ucast address, ucast size')
         | Memory64 address size' \<Rightarrow> Inr (address, size') | Io \<Rightarrow> Inl (ExplicitPanic ''ABAR is in port space o_O'')) = Inr (a, n)"
    and s': "s' = s2"
    unfolding abar_region_def bnd_eq_Inr_iff lift_res_eq_Inr_iff by (auto simp: res_iffs)
  have bar: "bar_region bar = Some (a, n)" using cs by (cases bar) simp_all
  have "only_emits (endpoint_bar H ep 5)" using assms(3) by (simp add: headers_ok_def)
  from keepsD [OF keeps_kernel_emits [OF this] assms(4) 1] have "kernel_inv E M tr backing K b ic (refs, s')"
    using keepsD [OF keeps_log(1) [OF assms(1,2)] _ 2] s' by blast
  moreover have "0 < n \<and> unat a + unat n < 2 ^ 47" using assms(3) 1 bar unfolding headers_ok_def by blast
  ultimately show thesis using 1 bar by (intro that) auto
qed

section \<open>Devices of the kernel\<close>

lemma mmap_keeps:
  assumes inv: "kernel_inv E M tr backing K b ic (refs, s)" and f: "device_frame f"
    and run: "machine_mmap E M acpi f s = Inr (Inr g, s')"
  shows "kernel_inv E M tr backing (insert f K) b ic (refs, s')"
proof -
  have pinv: "paging_inv E M tr backing (guards refs) (paging_ctx s)" and refs: "refs_ok refs"
    using inv by (simp_all add: kernel_inv_def)
  from run obtain c where c: "mmap_dev E M f acpi (paging_ctx s) = Inr (Inr g, c)" "s' = s\<lparr>paging_ctx := c\<rparr>"
    by (auto simp: machine_mmap_def on_paging_eq_Inr_iff)
  have "paging_inv E M tr backing (guards refs) c"
    by (rule paging_inv_subset [OF paging_inv_mmap [OF pinv f c(1)]]) auto
  moreover note law = dev.map_law [OF kernel_inv_good(1) [OF inv] f run]
  moreover have "f \<notin> dom refs"
  proof
    assume "f \<in> dom refs"
    then obtain rc g' where "refs f = Some (rc, g')" by auto
    then have "guard_page g' = f" "g' \<in> guards refs" using refs by (auto simp: refs_ok_def guards_def)
    then have "f \<in> machine_mapped tr s" using pinv by (auto simp: paging_inv_def guards_ok_def machine_mapped_def)
    then show False using law by blast
  qed
  ultimately show ?thesis using inv c(2) by (auto simp: kernel_inv_def)
qed

lemma map_device_frame_keeps:
  assumes inv: "kernel_inv E M tr backing K b ic (refs, s)" and base: "unat base < 2 ^ 47"
    and run: "map_device_frame E M base s = Inr (u, s')"
  shows "kernel_inv E M tr backing (insert base K) b ic (refs, s')"
proof -
  note E = kernel_inv_good(2) [OF inv]
  from run base obtain g where "aligned base" and g: "machine_mmap E M False base s = Inr (Inr g, s')"
    by (auto simp: map_device_frame_def bnd_eq_Inr_iff lift_res_eq_Inr_iff crates_PhysAddr_new [OF E]
        crates_from_start [OF E] res_iffs split: if_splits)
  then have "device_frame base" using base by (simp add: device_frame_def)
  from mmap_keeps [OF inv this g] show ?thesis .
qed

lemma lapic_handover_keeps:
  assumes inv: "kernel_inv E M tr backing K b ic (refs, s)" and base: "unat base < 2 ^ 47"
    and run: "lapic_handover E M D base s = Inr (u, s')"
  shows "kernel_inv E M tr backing (insert base K) b (InterruptController.Apic base) (refs, s')"
proof -
  from run obtain s1 c s2 where 1: "map_device_frame E M base s = Inr ((), s1)"
    and 2: "apic_handover D base (PICS s1) s1 = Inr (c, s2)" and s': "s' = s2\<lparr>PICS := c\<rparr>"
    by (auto simp: lapic_handover_def bnd_eq_Inr_iff res_iffs)
  from 2 have "c = InterruptController.Apic base" by (auto simp: apic_handover_def Let_def bnd_eq_Inr_iff)
  moreover have "kernel_inv E M tr backing (insert base K) b ic (refs, s2)"
    by (rule keepsD [OF keeps_kernel_emits [OF only_emits_controller(3)] map_device_frame_keeps [OF inv base 1] 2])
  ultimately show ?thesis using s' base by (simp add: kernel_inv_def controller_ok_def)
qed

lemma collect_io_apics_keeps:
  assumes "kernel_inv E M tr backing K b ic (refs, s)" and "collect_io_apics E M infos s = Inr (ios, s')"
  shows "kernel_inv E M tr backing (K \<union> (\<lambda>i. ucast (info_address i)) ` set infos) b ic (refs, s')"
proof -
  let ?step = "\<lambda>io_apic (acc, s). let base_address = ucast (info_address io_apic)
       in rbind (map_device_frame E M base_address s) (\<lambda>(_, s').
          Inr (acc @ [\<lparr>ioapic_address = base_address,
            ioapic_base_interrupt = ucast (global_system_interrupt_base io_apic)\<rparr>], s'))"
  have "kernel_inv E M tr backing (K \<union> (\<lambda>i. ucast (info_address i)) ` set xs) b ic (refs, s')"
    if "kernel_inv E M tr backing K b ic (refs, s)" "for_each ?step xs (acc, s) = Inr (ios, s')" for xs acc K s
    using that
  proof (induction xs arbitrary: acc s K)
    case (Cons x xs)
    from Cons.prems(2) obtain s1 acc1 where 1: "map_device_frame E M (ucast (info_address x)) s = Inr ((), s1)"
      "for_each ?step xs (acc1, s1) = Inr (ios, s')" by (auto simp: res_iffs Let_def)
    have "unat (ucast (info_address x) :: u64) < 2 ^ 47" using unat_u32_bound [of "info_address x"] by simp
    from Cons.IH [OF map_device_frame_keeps [OF Cons.prems(1) this 1(1)] 1(2)] show ?case by simp
  qed simp
  from this [OF assms(1), of infos "[]"] assms(2) show ?thesis by (simp add: collect_io_apics_def)
qed

lemma kernel_inv_flag:
  "kernel_inv E M tr backing K b ic (refs, s) \<Longrightarrow> kernel_inv E M tr backing K b' ic (refs, s\<lparr>interrupt_flag := b'\<rparr>)"
  by (simp add: kernel_inv_def machine_mapped_def)

definition apic_windows :: "ApicInfo \<Rightarrow> u64 set" where
  "apic_windows info = insert (local_apic_address info) ((\<lambda>i. ucast (info_address i)) ` set (info_io_apics info))"

lemma apic_init_keeps:
  assumes WI: "runs_without_interrupts WI" and A: "\<forall>name arg. aml_through_handler E M D Y (invoke_method A name arg)"
    and base: "unat (local_apic_address info) < 2 ^ 47" and inv: "kernel_inv E M tr backing K b ic (refs, s)"
    and run: "apic_init E M D A WI info (acpi, refs, s) = Inr (apic, acpi', refs', s')"
  obtains ctx where "kernel_inv E M tr backing (K \<union> apic_windows info) b (InterruptController.Apic (local_apic_address info)) (refs', s')"
    and "acpi' = acpi\<lparr>aml_context := ctx\<rparr>"
proof -
  let ?s0 = "s\<lparr>interrupt_flag := False\<rparr>" and ?la = "local_apic_address info"
  from WI run obtain t where body: "apic_init_body E M D A info (acpi, refs, ?s0) = Inr (apic, acpi', refs', t)"
    and s': "s' = t\<lparr>interrupt_flag := interrupt_flag s \<or> interrupt_flag t\<rparr>"
    by (auto simp: apic_init_def runs_without_interrupts_def res_iffs)
  from body obtain name v ctx s1 s2 ios s3 s4 where
    1: "invoke_method A name (Some (AmlValue_Integer A 1)) (aml_context acpi, refs, ?s0) = Inr (v, ctx, refs', s1)"
    and 2: "lapic_handover E M D ?la s1 = Inr ((), s2)" and 3: "collect_io_apics E M (info_io_apics info) s2 = Inr (ios, s3)"
    and 4: "route_interrupt D \<lparr>apic_info = info, io_apics = ios\<rparr> 0 32 s3 = Inr ((), s4)"
    and 5: "route_interrupt D \<lparr>apic_info = info, io_apics = ios\<rparr> 1 33 s4 = Inr ((), t)"
    and acpi': "acpi' = acpi\<lparr>aml_context := ctx\<rparr>"
    by (auto simp: apic_init_body_def res_iffs Let_def)
  have "kernel_inv E M tr backing K False ic (refs', s1)"
    using keepsD [OF aml_through_handler_keeps [OF A [rule_format]] _ 1] kernel_inv_flag [OF inv] by simp
  from collect_io_apics_keeps [OF lapic_handover_keeps [OF this base 2] 3]
  have "kernel_inv E M tr backing (K \<union> apic_windows info) False (InterruptController.Apic ?la) (refs', s3)"
    by (simp add: apic_windows_def)
  from keepsD [OF keeps_kernel_emits [OF only_emits_route] keepsD [OF keeps_kernel_emits [OF only_emits_route] this 4] 5]
  have t: "kernel_inv E M tr backing (K \<union> apic_windows info) False (InterruptController.Apic ?la) (refs', t)" .
  have "interrupt_flag s = b" "\<not> interrupt_flag t" using inv t by (simp_all add: kernel_inv_def)
  with kernel_inv_flag [OF t, of b] s' acpi' show thesis by (intro that) simp_all
qed

lemma map_abar_keeps:
  assumes inv: "kernel_inv E M tr backing K b ic (refs, s)" and bound: "unat a + unat n < 2 ^ 47" "0 < n"
    and run: "map_abar E M a n s = Inr (u, s')"
  shows "kernel_inv E M tr backing (K \<union> set (region_frames a (n - 1))) b ic (refs, s')"
    and "\<forall>x. a \<le> x \<and> x < a + n \<longrightarrow> frame_addr (frame_no x) \<in> set (region_frames a (n - 1))"
proof -
  note m = map_abar_run [OF kernel_inv_good(2) [OF inv] bound run]
  have "kernel_inv E M tr backing (K \<union> set fs) b ic (refs, s')"
    if "kernel_inv E M tr backing K b ic (refs, s)" "\<forall>f \<in> set fs. device_frame f" "for_eff (map_abar_frame E M) fs s = Inr (u, s')"
    for fs s K u using that
  proof (induction fs arbitrary: s K)
    case (Cons f fs)
    from Cons.prems(3) obtain s1 where 1: "map_abar_frame E M f s = Inr ((), s1)" "for_eff (map_abar_frame E M) fs s1 = Inr (u, s')"
      by (auto simp: bnd_eq_Inr_iff)
    obtain g where "machine_mmap E M False f s = Inr (Inr g, s1)" using map_abar_frame_run [OF 1(1)] by blast
    with Cons.prems have "kernel_inv E M tr backing (insert f K) b ic (refs, s1)" using mmap_keeps by auto
    from Cons.IH [OF this _ 1(2)] Cons.prems(2) show ?case by simp
  qed simp
  from this [OF inv region_frames_device [OF m(3)] m(1)]
  show "kernel_inv E M tr backing (K \<union> set (region_frames a (n - 1))) b ic (refs, s')" .
  show "\<forall>x. a \<le> x \<and> x < a + n \<longrightarrow> frame_addr (frame_no x) \<in> set (region_frames a (n - 1))"
    using abar_byte [OF bound(1) m(2,3)] by blast
qed

section \<open>Turning the machine off\<close>

definition power_off_events :: "('t, 'c) Acpi \<Rightarrow> u64 \<Rightarrow> io_event list" where
  "power_off_events acpi v =
     PortOut 16 (pm1a_cnt acpi) (2 ^ 13 + 2 ^ 10 * (unat v mod 8)) #
     (case pm1b_cnt acpi of
        None \<Rightarrow> []
      | Some cnt \<Rightarrow> [PortOut 16 cnt (2 ^ 13 + 2 ^ 10 * (unat v div 2 ^ 8 mod 8))])"

lemma set_sleep_state_keeps:
  assumes A: "\<forall>name arg. aml_through_handler E M D Y (invoke_method A name arg)"
    and inv: "kernel_inv E M tr backing K b ic (refs, s)"
    and run: "set_sleep_state A state (acpi, refs, s) = Inr (off, acpi', refs', s')"
  shows "kernel_inv E M tr backing K b ic (refs', s')"
    and "off \<longrightarrow> (\<exists>v t. trace s' = t @ power_off_events acpi' v)" and "\<exists>ctx. acpi' = acpi\<lparr>aml_context := ctx\<rparr>"
proof -
  from run obtain name r ctx refs1 s1 where name: "AmlName_from_str A (sleep_state_name state) = Some name"
    and m: "invoke_method A name None (aml_context acpi, refs, s) = Inr (r, ctx, refs1, s1)"
    by (auto simp: set_sleep_state_def bnd_eq_Inr_iff get_sleep_state_def as_aml_name_def res_iffs)
  have inv1: "kernel_inv E M tr backing K b ic (refs1, s1)"
    using keepsD [OF aml_through_handler_keeps [OF A [rule_format]] _ m] inv by simp
  have *: "(\<exists>ctx. acpi' = acpi\<lparr>aml_context := ctx\<rparr>) \<and> (\<not> off \<and> s' = s1 \<or> off \<and> (\<exists>v. s' = emits (power_off_events acpi' v) s1)) \<and> refs' = refs1"
    using run set_sleep_state_run [OF name m]
    by (auto simp: Let_def power_off_events_def split: option.splits list.splits)
  then show "\<exists>ctx. acpi' = acpi\<lparr>aml_context := ctx\<rparr>" by blast
  from * consider "\<not> off" "s' = s1" "refs' = refs1" | v where "off" "s' = emits (power_off_events acpi' v) s1" "refs' = refs1" by blast
  then have "kernel_inv E M tr backing K b ic (refs', s') \<and> (off \<longrightarrow> (\<exists>v t. trace s' = t @ power_off_events acpi' v))"
    by cases (use inv1 kernel_inv_emits [OF inv1] in auto)
  then show "kernel_inv E M tr backing K b ic (refs', s')" "off \<longrightarrow> (\<exists>v t. trace s' = t @ power_off_events acpi' v)" by simp_all
qed

lemma only_emits_sci_poll: "only_emits (sci_poll D self)"
  unfolding sci_poll_def by (cases "pm1b_cnt self") (auto intro!: emits_intros)

lemma only_emits_sleep: "only_emits (sleep n)"
  by (auto simp: only_emits_def sleep_run)

lemma only_emits_enable: "only_emits (enable D self)"
proof -
  have "only_emits (enable_poll D self n)" for n
    by (induction n) (simp_all only: enable_poll.simps, intro emits_intros, intro emits_intros only_emits_sci_poll only_emits_sleep)
  then show ?thesis unfolding enable_def by (intro emits_intros)
qed

section \<open>From the first line to the last\<close>

lemma booted_kernel:
  assumes "boot_ok P tr bi"
    and "set_logger (plat_log P) lg = Inr (Inr (), lg1)" and "set_max_level (plat_log P) lg1 = Inr ((), lg2)"
    and "PICS s = controller_new PIC_1_OFFSET PIC_2_OFFSET" and "held s = {}" and "paging_ctx s = None"
    and "shows_text upper old (WRITER s) t" and "kernel_init P bi (lg, s) = Inr (u, lg3, s1)"
  obtains backing where
    "kernel_inv (plat_crates P) (plat_mapper P) tr backing {} True (controller_new PIC_1_OFFSET PIC_2_OFFSET) (handler_new, s1)"
proof -
  let ?V = "\<lparr>env_crates = plat_crates P, env_mapper = plat_mapper P, env_devices = plat_devices P, env_console = plat_console P,
    env_keyboard = undefined, env_fault = undefined, env_pci = undefined\<rparr>"
  have run: "kernel_init P bi (lg, s) = Inr ((), lg3, s1)" using assms(8) by simp
  from booted_inv [OF assms(1-7) _ _ run, of ?V] obtain backing where inv: "system_inv ?V tr backing (s1, {})" by auto
  obtain t' ctx bk tables where "kernel_init P bi (lg, s) = Inr ((), lg2, (emits t' s)\<lparr>interrupt_flag := True, paging_ctx := Some ctx,
       heap := \<lparr>heap_region = Some (HEAP_START, HEAP_SIZE), INITIALIZED = True\<rparr>, cpu := init_idt tables\<rparr>)"
    by (rule kernel_init_run [OF assms(1-6)])
  then have "PICS s1 = PICS s" using run by (auto simp: emits_def)
  then show thesis using inv assms(4)
    by (intro that [of backing]) (auto simp: system_inv_def kernel_inv_def refs_ok_def handler_new_def guards_def)
qed

lemma map_table_keeps:
  assumes "table_bounded t"
  shows "keeps (kernel_inv E M tr backing K b ic) (map_table E (machine_mmap E M True) t)"
  unfolding keeps_def
proof (intro allI impI)
  let ?fs = "region_frames (table_address t) (ucast (table_length t))"
  fix h r h' assume inv: "kernel_inv E M tr backing K b ic h" and run: "map_table E (machine_mmap E M True) t h = Inr (r, h')"
  obtain refs s where h: "h = (refs, s)" by (cases h)
  have loop: "for_eff (handler_map (machine_mmap E M True)) ?fs h = Inr ((), h')"
    by (rule map_table_run [OF kernel_inv_good(2) [OF inv [unfolded h]] assms run])
  have "unat (table_address t) + unat (ucast (table_length t) :: usize) < 2 ^ 47" using assms by (simp add: table_bounded_def)
  from region_frames_device [OF this]
  have "keeps (kernel_inv E M tr backing K b ic) (for_eff (handler_map (machine_mmap E M True)) ?fs)"
    by (intro keeps_for_eff handler_map_keeps) blast
  then show "kernel_inv E M tr backing K b ic h'" using inv loop by (rule keepsD)
qed

lemma acpi_read:
  assumes "acpi_crates_ok E M D Y T A" and "interrupts_off (without_interrupts C)" and "uart_ok C sent"
    and inv: "kernel_inv E M tr backing K b ic (handler_new, s)"
    and run: "bios_get_acpi E T A (log_acpi C) (machine_mmap E M True) s = Inr (acpi, h)"
  shows "kernel_inv E M tr backing K b ic h \<and>
    (\<exists>fadt pm1a h1 h2. get_sdt_FADT T (tables acpi) h1 = Inr (Some (Some fadt), h2) \<and>
       pm1a_control_block fadt = Some pm1a \<and> pm1a_cnt acpi = ucast pm1a)"
proof -
  let ?P = "kernel_inv E M tr backing K b ic"
  have 1: "keeps ?P (search_for_rsdp_bios T)" "\<And>tb. keeps ?P (get_sdt_FADT T tb)"
    by (rule through_handler_keeps [of E M D Y], use assms(1) in \<open>simp add: acpi_crates_ok_def\<close>)+
  have 2: "\<And>a n. keeps (\<lambda>(c, h). ?P h) (parse_table A a n)" "keeps (\<lambda>(c, h). ?P h) (initialize_objects A)"
    by (rule aml_through_handler_keeps [of E M D Y], use assms(1) in \<open>simp add: acpi_crates_ok_def\<close>)+
  have tbl: "keeps ?P (map_table E (machine_mmap E M True) t)" if "t \<in> set_option (dsdt T tb) \<union> set (ssdts T tb)" for tb t
    using that assms(1) by (intro map_table_keeps) (auto simp: acpi_crates_ok_def)
  show ?thesis using bios_get_acpi_keeps [where P = ?P, OF 1(1) 2 1(2) _ keeps_log(2) [OF assms(2,3)] inv run] tbl by blast
qed

lemma kernel_inv_heap:
  assumes "kernel_inv E M tr backing K b ic (refs, s)" and "kernel_inv E M tr backing K' b' ic' (refs', s')"
  shows "\<exists>ctx ctx'. paging_ctx s = Some ctx \<and> paging_ctx s' = Some ctx' \<and> allocator_inv (allocator ctx') \<and>
    (\<forall>a. HEAP_START \<le> a \<and> a < HEAP_START + HEAP_SIZE \<longrightarrow>
       (\<exists>f. tr (mapper ctx) (frame_addr (frame_no a)) = Some (f, {PRESENT, WRITABLE}) \<and>
          tr (mapper ctx') (frame_addr (frame_no a)) = Some (f, {PRESENT, WRITABLE}) \<and>
          f \<notin> frame_bytes ` free_frames (allocator ctx')))"
proof -
  obtain ctx ctx' where ctx: "paging_ctx s = Some ctx" "paging_ctx s' = Some ctx'" "allocator_inv (allocator ctx')"
    and inv: "paging_inv E M tr backing (guards refs) (Some ctx)" "paging_inv E M tr backing (guards refs') (Some ctx')"
    using assms by (auto simp: kernel_inv_def paging_inv_def paging_good_def)
  have "\<exists>f. tr (mapper ctx) (frame_addr (frame_no a)) = Some (f, {PRESENT, WRITABLE}) \<and>
      tr (mapper ctx') (frame_addr (frame_no a)) = Some (f, {PRESENT, WRITABLE}) \<and> f \<notin> frame_bytes ` free_frames (allocator ctx')"
    if a: "HEAP_START \<le> a" "a < HEAP_START + HEAP_SIZE" for a
  proof -
    obtain n where n: "n < 125" "frame_addr (frame_no a) = heap_page n" using heap_byte_page [OF a] .
    show ?thesis using n inv heap_frame_not_free [OF inv(2) n(1)]
      by (intro exI [of _ "backing n"]) (simp add: paging_inv_def heap_backed_def)
  qed
  then show ?thesis using ctx by blast
qed

text \<open>The states between the parts of \<^verbatim>\<open>kernel_main\<close>.\<close>

lemma kernel_main_parts:
  assumes "kernel_main_run P T A WI Y H F registers bi (lg, s0) = Inr (off, acpi', refs', s)"
  obtains s1 lg' s2 acpi h info refs1 s3 s4 s5 apic acpi1 refs2 s6 s7 devs s8 ep s9 a n s10 s11 s12 s13 where
    "println (plat_console P) [bytes ''Hello World!''] s0 = Inr ((), s1)" and "kernel_init P bi (lg, s1) = Inr ((), lg', s2)"
    and "bios_get_acpi (plat_crates P) T A (log_acpi (plat_console P)) (machine_mmap (plat_crates P) (plat_mapper P) True) s2 = Inr (acpi, h)"
    and "tables_platform_info T (tables acpi) h = Inr (Some (ApicModel info), refs1, s3)"
    and "enable (plat_devices P) acpi s3 = Inr (True, s4)"
    and "log_main (plat_console P) ''DEBUG'' 30 [bytes ''Apic handover start''] s4 = Inr ((), s5)"
    and "apic_init (plat_crates P) (plat_mapper P) (plat_devices P) A WI info (acpi, refs1, s5) = Inr (apic, acpi1, refs2, s6)"
    and "log_main (plat_console P) ''DEBUG'' 38 [bytes ''Apic handover end''] s6 = Inr ((), s7)"
    and "brute_force_find Y (function_exists (plat_devices P) Y) s7 = Inr (devs, s8)"
    and "for_each (scan_device (plat_console P) H) devs (None, s8) = Inr (Some ep, s9)"
    and "abar_region (plat_console P) H ep s9 = Inr ((a, n), s10)"
    and "map_abar (plat_crates P) (plat_mapper P) a n s10 = Inr ((), s11)"
    and "report_controller (plat_console P) F (registers a) s11 = Inr ((), s12)"
    and "log_main (plat_console P) ''INFO'' 112 [bytes ''Now perish''] s12 = Inr ((), s13)"
    and "set_sleep_state A S5 (acpi1, refs2, s13) = Inr (off, acpi', refs', s)"
proof -
  from assms obtain s1 lg' s2 acpi h model refs1 s3 s4 s5 apic acpi1 refs2 s6 s7 devs s8 ep s9 a n s10 s11 s12 s13 where
    "println (plat_console P) [bytes ''Hello World!''] s0 = Inr ((), s1)" "kernel_init P bi (lg, s1) = Inr ((), lg', s2)"
    "bios_get_acpi (plat_crates P) T A (log_acpi (plat_console P)) (machine_mmap (plat_crates P) (plat_mapper P) True) s2 = Inr (acpi, h)"
    "tables_platform_info T (tables acpi) h = Inr (Some model, refs1, s3)" "enable (plat_devices P) acpi s3 = Inr (True, s4)"
    "log_main (plat_console P) ''DEBUG'' 30 [bytes ''Apic handover start''] s4 = Inr ((), s5)"
    and model: "(case model of UnknownModel \<Rightarrow> Inl (ExplicitPanic ''We need apic'')
       | ApicModel info \<Rightarrow> apic_init (plat_crates P) (plat_mapper P) (plat_devices P) A WI info (acpi, refs1, s5)
       | OtherModel \<Rightarrow> Inl UnreachableCode) = Inr (apic, acpi1, refs2, s6)"
    and "log_main (plat_console P) ''DEBUG'' 38 [bytes ''Apic handover end''] s6 = Inr ((), s7)"
    "brute_force_find Y (function_exists (plat_devices P) Y) s7 = Inr (devs, s8)"
    "for_each (scan_device (plat_console P) H) devs (None, s8) = Inr (Some ep, s9)"
    "abar_region (plat_console P) H ep s9 = Inr ((a, n), s10)" "map_abar (plat_crates P) (plat_mapper P) a n s10 = Inr ((), s11)"
    "report_controller (plat_console P) F (registers a) s11 = Inr ((), s12)"
    "log_main (plat_console P) ''INFO'' 112 [bytes ''Now perish''] s12 = Inr ((), s13)"
    "set_sleep_state A S5 (acpi1, refs2, s13) = Inr (off, acpi', refs', s)"
    unfolding kernel_main_run_def Let_def platform_info_def by (auto simp: res_iffs split: if_split_asm)
  moreover obtain info where "model = ApicModel info" using model by (cases model) simp_all
  ultimately show thesis using model by (intro that) simp_all
qed

lemma main_until_apic:
  assumes "boot_ok P tr bi"
    and "set_logger (plat_log P) lg = Inr (Inr (), lg1)" and "set_max_level (plat_log P) lg1 = Inr ((), lg2)"
    and "PICS s0 = controller_new PIC_1_OFFSET PIC_2_OFFSET" and "held s0 = {}" and "paging_ctx s0 = None"
    and "shows_text upper old (WRITER s0) t"
    and C: "interrupts_off (without_interrupts (plat_console P))" "uart_ok (plat_console P) sent"
    and crates: "acpi_crates_ok (plat_crates P) (plat_mapper P) (plat_devices P) Y T A" and WI: "runs_without_interrupts WI"
    and 1: "println (plat_console P) [bytes ''Hello World!''] s0 = Inr ((), s1)" and 2: "kernel_init P bi (lg, s1) = Inr ((), lg', s2)"
    and 3: "bios_get_acpi (plat_crates P) T A (log_acpi (plat_console P)) (machine_mmap (plat_crates P) (plat_mapper P) True) s2 = Inr (acpi0, h)"
    and 4: "tables_platform_info T (tables acpi0) h = Inr (Some (ApicModel info), refs1, s3)"
    and 5: "enable (plat_devices P) acpi0 s3 = Inr (True, s4)"
    and 6: "log_main (plat_console P) ''DEBUG'' 30 [bytes ''Apic handover start''] s4 = Inr ((), s5)"
    and 7: "apic_init (plat_crates P) (plat_mapper P) (plat_devices P) A WI info (acpi0, refs1, s5) = Inr (apic, acpi1, refs2, s6)"
  obtains w backing where "s1 = s0\<lparr>WRITER := w\<rparr>"
    and "kernel_inv (plat_crates P) (plat_mapper P) tr backing {} True (controller_new PIC_1_OFFSET PIC_2_OFFSET) (handler_new, s2)"
    and "kernel_inv (plat_crates P) (plat_mapper P) tr backing (apic_windows info) True
       (InterruptController.Apic (local_apic_address info)) (refs2, s6)"
    and "tables acpi1 = tables acpi0"
    and "\<exists>fadt pm1a h1 h2. get_sdt_FADT T (tables acpi1) h1 = Inr (Some (Some fadt), h2) \<and>
       pm1a_control_block fadt = Some pm1a \<and> pm1a_cnt acpi1 = ucast pm1a"
proof -
  let ?E = "plat_crates P" and ?M = "plat_mapper P" and ?D = "plat_devices P" and ?pics = "controller_new PIC_1_OFFSET PIC_2_OFFSET"
  have "WRITER_lock \<notin> held s0" using assms(5) by simp
  from vga_print_run [OF C(1) this assms(7), of "[bytes ''Hello World!''] @ [bytes [CHR 10]]"] 1
  obtain w t' where s1: "s1 = s0\<lparr>WRITER := w\<rparr>" and w: "shows_text upper old (WRITER s1) t'" unfolding println_def by auto
  have "PICS s1 = ?pics" "held s1 = {}" "paging_ctx s1 = None" using s1 assms(4-6) by simp_all
  from booted_kernel [OF assms(1-3) this w 2] obtain backing where i2: "kernel_inv ?E ?M tr backing {} True ?pics (handler_new, s2)" .
  let ?I = "kernel_inv ?E ?M tr backing"
  have T: "through_handler ?E ?M ?D Y (tables_platform_info T (tables acpi0))" "unat (local_apic_address info) < 2 ^ 47"
    and A: "\<forall>name arg. aml_through_handler ?E ?M ?D Y (invoke_method A name arg)"
    using crates 4 unfolding acpi_crates_ok_def by blast+
  note acpi = acpi_read [OF crates C i2 3]
  have i3: "?I {} True ?pics (refs1, s3)" by (rule keepsD [OF through_handler_keeps [OF T(1)] conjunct1 [OF acpi] 4])
  have i5: "?I {} True ?pics (refs1, s5)"
    by (rule keepsD [OF keeps_log(1) [OF C] keepsD [OF keeps_kernel_emits [OF only_emits_enable] i3 5] 6])
  obtain ctx1 where i6: "?I ({} \<union> apic_windows info) True (InterruptController.Apic (local_apic_address info)) (refs2, s6)"
    and acpi1: "acpi1 = acpi0\<lparr>aml_context := ctx1\<rparr>" by (rule apic_init_keeps [OF WI A T(2) i5 7])
  show thesis by (rule that [OF s1 i2]) (use i6 acpi1 acpi in simp_all)
qed

lemma main_after_apic:
  assumes C: "interrupts_off (without_interrupts C)" "uart_ok C sent" and H: "headers_ok H"
    and A: "\<forall>name arg. aml_through_handler E M D Y (invoke_method A name arg)"
    and i6: "kernel_inv E M tr backing K b ic (refs2, s6)"
    and 8: "log_main C ''DEBUG'' 38 [bytes ''Apic handover end''] s6 = Inr ((), s7)"
    and 9: "brute_force_find Y (function_exists D Y) s7 = Inr (devs, s8)"
    and 10: "for_each (scan_device C H) devs (None, s8) = Inr (Some ep, s9)" and 11: "abar_region C H ep s9 = Inr ((a, n), s10)"
    and 12: "map_abar E M a n s10 = Inr ((), s11)" and 13: "report_controller C F hba s11 = Inr ((), s12)"
    and 14: "log_main C ''INFO'' 112 [bytes ''Now perish''] s12 = Inr ((), s13)"
    and 15: "set_sleep_state A S5 (acpi1, refs2, s13) = Inr (off, acpi, refs, s)"
  shows "kernel_inv E M tr backing (K \<union> set (region_frames a (n - 1))) b ic (refs, s)"
    and "\<forall>x. a \<le> x \<and> x < a + n \<longrightarrow> frame_addr (frame_no x) \<in> set (region_frames a (n - 1))"
    and "\<exists>bar u. endpoint_bar H ep 5 s9 = Inr (Some bar, u) \<and> bar_region bar = Some (a, n)"
    and "off \<longrightarrow> (\<exists>v u. trace s = u @ power_off_events acpi v)" and "\<exists>ctx. acpi = acpi1\<lparr>aml_context := ctx\<rparr>"
proof -
  have i8: "kernel_inv E M tr backing K b ic (refs2, s8)"
    using keepsD [OF brute_force_find_keeps [of "\<lambda>s. kernel_inv E M tr backing K b ic (refs2, s)", OF kernel_inv_emits]
        keepsD [OF keeps_log(1) [OF C] i6 8] 9] .
  note i9 = scan_keeps [OF C H i8 10]
  obtain i10: "kernel_inv E M tr backing K b ic (refs2, s10)"
    and bar: "\<exists>bar u. endpoint_bar H ep 5 s9 = Inr (Some bar, u) \<and> bar_region bar = Some (a, n)" "0 < n" "unat a + unat n < 2 ^ 47"
    by (rule abar_region_run [OF C H i9 11])
  note i11 = map_abar_keeps [OF i10 bar(3,2) 12]
  note i13 = keepsD [OF keeps_log(1) [OF C] keepsD [OF report_controller_keeps [OF C] i11(1) 13] 14]
  from set_sleep_state_keeps [OF A i13 15] i11(2) bar(1)
  show "kernel_inv E M tr backing (K \<union> set (region_frames a (n - 1))) b ic (refs, s)"
    "\<forall>x. a \<le> x \<and> x < a + n \<longrightarrow> frame_addr (frame_no x) \<in> set (region_frames a (n - 1))"
    "\<exists>bar u. endpoint_bar H ep 5 s9 = Inr (Some bar, u) \<and> bar_region bar = Some (a, n)"
    "off \<longrightarrow> (\<exists>v u. trace s = u @ power_off_events acpi v)" "\<exists>ctx. acpi = acpi1\<lparr>aml_context := ctx\<rparr>" by blast+
qed

end
