(* ===== verification/Kernel_Main_Result.thy ===== *)
theory Kernel_Main_Result
  imports Kernel_Main_Safety
begin

text \<open>
  The theorem about the whole of \<^verbatim>\<open>kernel_main\<close>, and a machine on which it runs to its end.
\<close>

section \<open>A machine that runs to the end\<close>

text \<open>
  The machine of \<open>example_boot_info\<close>, with the devices in the hole of its memory map: a table, the local APIC,
  an I/O APIC whose registers below the entries cannot be written, and a SATA controller.
\<close>

definition hole_info :: ApicInfo where
  "hole_info = \<lparr>local_apic_address = 0x5DD000,
     info_io_apics = [\<lparr>info_address = 0x5DE000, global_system_interrupt_base = 0\<rparr>], interrupt_source_overrides = []\<rparr>"

definition hole_ioapic :: IOApic where
  "hole_ioapic = \<lparr>ioapic_address = 0x5DE000, ioapic_base_interrupt = 0\<rparr>"

definition entries_only :: "u8 \<Rightarrow> u32 \<Rightarrow> u32 \<Rightarrow> u32" where
  "entries_only i old v = (if 0x10 \<le> i then v else old)"

definition main_devices :: devices where
  "main_devices = \<lparr>
     port_answer = (\<lambda>t n port. if n = 32 then let d = pci_after (\<lambda>i old v. old) example_bank t in unat (contents d (selected d)) else 1),
     load_answer = (\<lambda>t n a. let d = ioapic_after hole_ioapic entries_only reset_bank t in unat (contents d (selected d)))\<rparr>"

definition main_acpi :: "(unit, InterruptModel, 's) acpi_crate" where
  "main_acpi = \<lparr>search_for_rsdp_bios = ret (Some ()), dsdt = (\<lambda>_. Some \<lparr>table_address = 0x5DC010, table_length = 0x20\<rparr>),
     ssdts = (\<lambda>_. []), get_sdt_FADT = (\<lambda>_. ret (Some (Some \<lparr>pm1a_control_block = Some 0x604, pm1b_control_block = Some (Some 0),
       fadt_acpi_enable = 2, fadt_smi_cmd_port = 0xB2\<rparr>))), tables_platform_info = (\<lambda>_. ret (Some (ApicModel hole_info)))\<rparr>"

definition main_headers :: "(u16 \<times> u8 \<times> u8 \<times> u8, u16 \<times> u8 \<times> u8 \<times> u8, unit, (translation, unit, unit) kernel) pci_headers" where
  "main_headers =
     \<lparr>revision_and_class = (\<lambda>h. ret (0, 1, 6, 1)), header_type = (\<lambda>h. ret 0),
      EndpointHeader_from_header = (\<lambda>h. ret (Some ())), endpoint_bar = (\<lambda>_ _. ret (Some (Memory32 0x5DF000 0x1100))),
      device_text = (\<lambda>_ _ _ _ _. []), bar_text = (\<lambda>_. [])\<rparr>"

definition no_texts :: flag_texts where
  "no_texts = \<lparr>HBACapabilities_debug = (\<lambda>_. []), GlobalHBAControl_debug = (\<lambda>_. []), PortInterrupt_debug = (\<lambda>_. [])\<rparr>"

text \<open>The first \<open>k\<close> frames of the hole are mapped.\<close>

definition at_hole :: "nat \<Rightarrow> (translation, unit, unit) kernel \<Rightarrow> bool" where
  "at_hole k s \<longleftrightarrow> held s = {} \<and>
     (\<exists>ctx. paging_ctx s = Some ctx \<and> allocator_inv (allocator ctx) \<and> 494 \<le> card (free_frames (allocator ctx)) + k \<and>
        memory_map (allocator ctx) = boot_memory_map example_boot_info \<and> length (bitmap (allocator ctx)) = 2002 \<and>
        (\<forall>p. 0x5DC000 + 0x1000 * k \<le> unat p \<and> unat p < 0x444444440000 \<longrightarrow> mapper ctx p = None))"

lemma at_hole_emits: "at_hole k s \<Longrightarrow> at_hole k (emits u s)"
  by (simp add: at_hole_def emits_def)

lemma hole_map:
  assumes "at_hole k s" and "k < 6" and f: "unat f = 0x5DC000 + 0x1000 * k"
  shows "\<exists>g c. machine_mmap std_crates flat_mapper acpi f s = Inr (Inr g, s\<lparr>paging_ctx := c\<rparr>) \<and> at_hole (Suc k) (s\<lparr>paging_ctx := c\<rparr>)"
proof -
  from assms(1) obtain ctx where ctx: "paging_ctx s = Some ctx" and inv: "allocator_inv (allocator ctx)"
    and card: "494 \<le> card (free_frames (allocator ctx)) + k" and mm: "memory_map (allocator ctx) = boot_memory_map example_boot_info"
    and len: "length (bitmap (allocator ctx)) = 2002" and held: "held s = {}"
    and none: "\<forall>p. 0x5DC000 + 0x1000 * k \<le> unat p \<and> unat p < 0x444444440000 \<longrightarrow> mapper ctx p = None"
    unfolding at_hole_def by blast
  have ty: "get_frame_ty std_crates (allocator ctx) f = Some MemoryRegionType.Reserved"
    using f assms(2) by (simp add: get_frame_ty_def mm example_boot_info_def std_crates_def word_le_nat_alt word_less_nat_alt)
  have free: "mapper ctx f = None" using none f assms(2) by simp
  have ne: "free_frames (allocator ctx) \<noteq> {}" using card assms(2) by auto
  have bits: "in_bitmap (allocator ctx) (f div 0x1000)" using f assms(2) len by (simp add: in_bitmap_def unat_div_distrib)
  have dev: "device_frame f" using f assms(2) by (simp add: device_frame_def aligned_def)
  from flat_mmap_succeeds [OF std_crates_ok inv ty free ne bits dev, of acpi] obtain g ctx' fl where
    g: "mmap_dev std_crates flat_mapper f acpi (Some ctx) = Inr (Inr g, Some ctx')"
    and 1: "mapper ctx' = (mapper ctx)(f \<mapsto> (f, fl))" "allocator_inv (allocator ctx')"
      "card (free_frames (allocator ctx)) - 1 \<le> card (free_frames (allocator ctx'))"
      "memory_map (allocator ctx') = memory_map (allocator ctx)" "length (bitmap (allocator ctx')) = length (bitmap (allocator ctx))"
    by blast
  have "mapper ctx' p = None" if "0x5DC000 + 0x1000 * Suc k \<le> unat p" "unat p < 0x444444440000" for p
    using none that f by (auto simp: 1(1))
  then have "at_hole (Suc k) (s\<lparr>paging_ctx := Some ctx'\<rparr>)" using 1 card mm len held by (simp add: at_hole_def)
  then show ?thesis using g ctx by (intro exI [of _ g] exI [of _ "Some ctx'"]) (simp add: machine_mmap_def on_paging_def)
qed

lemma hole_log:
  assumes "at_hole k s"
  shows "\<exists>s'. logger_log example_console rec s = Inr ((), s') \<and> at_hole k s'"
proof -
  have "SERIAL1_lock \<notin> held s" using assms by (simp add: at_hole_def)
  with sends_log [OF example_console_ok] obtain sp u where "logger_log example_console rec s = Inr ((), (emits u s)\<lparr>SERIAL1 := sp\<rparr>)"
    unfolding sends_def by blast
  then show ?thesis using assms by (simp add: at_hole_def emits_def)
qed

lemma hole_acpi:
  assumes "at_hole 0 s"
  shows "\<exists>acpi refs s'. bios_get_acpi std_crates main_acpi example_aml (log_acpi example_console) (machine_mmap std_crates flat_mapper True) s =
      Inr (acpi, refs, s') \<and> acpi = \<lparr>tables = (), aml_context = (), smi_cmd_port = 0xB2, pm1a_cnt = 0x604, pm1b_cnt = None, acpi_enable = 2\<rparr> \<and>
      at_hole 1 s'"
proof -
  obtain s1 where 1: "log_acpi example_console 111 ''Reading the acpi tables'' s = Inr ((), s1)" "at_hole 0 s1"
    using hole_log [OF assms] unfolding log_acpi_def by blast
  obtain s2 where 2: "log_acpi example_console 118 ''Reading the dsdt'' s1 = Inr ((), s2)" "at_hole 0 s2"
    using hole_log [OF 1(2)] unfolding log_acpi_def by blast
  obtain g c where g: "machine_mmap std_crates flat_mapper True 0x5DC000 s2 = Inr (Inr g, s2\<lparr>paging_ctx := c\<rparr>)" "at_hole (Suc 0) (s2\<lparr>paging_ctx := c\<rparr>)"
    using hole_map [OF 2(2), of "0x5DC000" True] by auto
  have "containing_address std_crates 0x5DC010 = 0x5DC000" "containing_address std_crates 0x5DC030 = 0x5DC000"
    "range_inclusive std_crates 0x5DC000 0x5DC000 = [0x5DC000]"
    by (simp_all add: std_crates_def frame_no_def frame_addr_def)
  then show ?thesis using 1(1) 2(1) g
    by (simp add: bios_get_acpi_def main_acpi_def on_second_def load_table_def map_table_def example_aml_def handler_map_def
        handler_new_def res_simps Let_def crates_PhysAddr_new [OF std_crates_ok] checked_add_def)
qed

lemma hole_device:
  assumes "at_hole k s" and "k < 6" and "unat f = 0x5DC000 + 0x1000 * k" and "k' = Suc k"
  shows "\<exists>c. map_device_frame std_crates flat_mapper f s = Inr ((), s\<lparr>paging_ctx := c\<rparr>) \<and> at_hole k' (s\<lparr>paging_ctx := c\<rparr>)"
    and "\<exists>c. map_abar_frame std_crates flat_mapper f s = Inr ((), s\<lparr>paging_ctx := c\<rparr>) \<and> at_hole k' (s\<lparr>paging_ctx := c\<rparr>)"
proof -
  obtain g c where g: "machine_mmap std_crates flat_mapper False f s = Inr (Inr g, s\<lparr>paging_ctx := c\<rparr>)" "at_hole k' (s\<lparr>paging_ctx := c\<rparr>)"
    using hole_map [OF assms(1-3)] assms(4) by blast
  have "PhysAddr_new std_crates f = Inr f" "from_start_address std_crates f = Some f"
    using assms(2,3) by (simp_all add: crates_PhysAddr_new [OF std_crates_ok] crates_from_start [OF std_crates_ok] aligned_def)
  with g show "\<exists>c. map_device_frame std_crates flat_mapper f s = Inr ((), s\<lparr>paging_ctx := c\<rparr>) \<and> at_hole k' (s\<lparr>paging_ctx := c\<rparr>)"
    "\<exists>c. map_abar_frame std_crates flat_mapper f s = Inr ((), s\<lparr>paging_ctx := c\<rparr>) \<and> at_hole k' (s\<lparr>paging_ctx := c\<rparr>)"
    by (auto simp: map_device_frame_def map_abar_frame_def res_simps)
qed

lemma hole_route:
  assumes "at_hole k s" and "irq < 23" and "infos = \<lparr>apic_info = hole_info, io_apics = [hole_ioapic]\<rparr>"
  shows "\<exists>s'. route_interrupt main_devices infos irq vec s = Inr ((), s') \<and> at_hole k s'"
proof -
  have "contents (ioapic_after hole_ioapic entries_only reset_bank t) 1 = contents reset_bank 1" for t
    by (induction t rule: rev_induct)
       (auto simp: ioapic_after_def bank_step_def entries_only_def word_le_nat_alt split: option.splits)
  then have lim: "entry_limit (ioapic_regs hole_ioapic entries_only reset_bank s) = 23"
    by (simp add: entry_limit_def ioapic_regs_def reset_bank_def drop_bit_eq_div)
  have D: "has_ioapic main_devices hole_ioapic entries_only reset_bank"
    by (simp add: has_ioapic_def main_devices_def hole_ioapic_def Let_def)
  have sel: "get_interrupt_source infos irq = irq" "get_interrupt_ioapic infos irq = Inr 0"
    by (simp_all add: assms(3) get_interrupt_source_def hole_info_def get_interrupt_ioapic_def index_def hole_ioapic_def select_step_def)
  have "unat irq < 120" using assms(2) by (simp add: word_less_nat_alt)
  with route_interrupt_run [of infos irq 0 irq hole_ioapic main_devices entries_only reset_bank s vec] sel D lim assms(2,3)
  obtain s' where s': "route_interrupt main_devices infos irq vec s = Inr ((), s')" by (auto simp: entries_only_def)
  moreover obtain u where "s' = emits u s" using only_emitsD [OF only_emits_route s'] by blast
  ultimately show ?thesis using at_hole_emits [OF assms(1)] by blast
qed

lemma hole_handover: "\<exists>c s'. apic_handover main_devices 0x5DD000 ic s = Inr (c, s')"
  unfolding apic_handover_def controller_init_def read_apic_reg_def write_apic_reg_def Let_def
  by (simp add: res_simps checked_add_def pic_consts Let_def)

lemma hole_apic:
  assumes "at_hole 1 s"
  shows "\<exists>apic s'. apic_init std_crates flat_mapper main_devices example_aml example_WI hole_info (acpi, refs, s) =
      Inr (apic, acpi\<lparr>aml_context := ()\<rparr>, refs, s') \<and> at_hole 3 s'"
proof -
  let ?s0 = "s\<lparr>interrupt_flag := False\<rparr>" and ?apic = "\<lparr>apic_info = hole_info, io_apics = [hole_ioapic]\<rparr>"
  have 0: "at_hole 1 ?s0" using assms by (simp add: at_hole_def)
  have frames: "unat (0x5DD000 :: u64) = 0x5DC000 + 0x1000 * 1" "1 < (6 :: nat)" "2 = Suc 1"
    "unat (0x5DE000 :: u64) = 0x5DC000 + 0x1000 * 2" "2 < (6 :: nat)" "3 = Suc 2" by simp_all
  obtain c1 where 1: "map_device_frame std_crates flat_mapper 0x5DD000 ?s0 = Inr ((), ?s0\<lparr>paging_ctx := c1\<rparr>)" "at_hole 2 (?s0\<lparr>paging_ctx := c1\<rparr>)"
    using hole_device(1) [OF 0 frames(2,1,3)] by blast
  let ?s1 = "?s0\<lparr>paging_ctx := c1\<rparr>"
  obtain c s2 where 2: "apic_handover main_devices 0x5DD000 (PICS ?s1) ?s1 = Inr (c, s2)" using hole_handover by blast
  obtain u where "s2 = emits u ?s1" using only_emitsD [OF only_emits_controller(3) 2] by blast
  then have s2: "at_hole 2 (s2\<lparr>PICS := c\<rparr>)" using 1(2) by (simp add: at_hole_def emits_def)
  obtain c3 where 3: "map_device_frame std_crates flat_mapper 0x5DE000 (s2\<lparr>PICS := c\<rparr>) = Inr ((), s2\<lparr>PICS := c, paging_ctx := c3\<rparr>)"
    "at_hole 3 (s2\<lparr>PICS := c, paging_ctx := c3\<rparr>)" using hole_device(1) [OF s2 frames(5,4,6)] by auto
  obtain s4 where 4: "route_interrupt main_devices ?apic 0 32 (s2\<lparr>PICS := c, paging_ctx := c3\<rparr>) = Inr ((), s4)" "at_hole 3 s4"
    using hole_route [OF 3(2), of 0 ?apic 32] by auto
  obtain s5 where 5: "route_interrupt main_devices ?apic 1 33 s4 = Inr ((), s5)" "at_hole 3 s5"
    using hole_route [OF 4(2), of 1 ?apic 33] by auto
  have "apic_init_body std_crates flat_mapper main_devices example_aml hole_info (acpi, refs, ?s0) = Inr (?apic, acpi\<lparr>aml_context := ()\<rparr>, refs, s5)"
    using 1(1) 2 3(1) 4(1) 5(1)
    by (simp add: apic_init_body_def example_aml_def lapic_handover_def collect_io_apics_def hole_info_def hole_ioapic_def bnd_run Let_def)
  moreover have "at_hole 3 (s5\<lparr>interrupt_flag := b\<rparr>)" for b using 5(2) by (simp add: at_hole_def)
  ultimately show ?thesis by (simp add: apic_init_def example_WI_def)
qed

definition hole_runs :: "nat \<Rightarrow> ((translation, unit, unit) kernel, unit) eff \<Rightarrow> bool" where
  "hole_runs k m \<longleftrightarrow> (\<forall>s. at_hole k s \<longrightarrow> (\<exists>s'. m s = Inr ((), s') \<and> at_hole k s'))"

lemma hole_runsD: "hole_runs k m \<Longrightarrow> at_hole k s \<Longrightarrow> \<exists>s'. m s = Inr ((), s') \<and> at_hole k s'"
  by (simp add: hole_runs_def)

lemma hole_runs_bnd:
  assumes "hole_runs k m" and "hole_runs k f" shows "hole_runs k (bnd m (\<lambda>_. f))"
  unfolding hole_runs_def
proof (intro allI impI)
  fix s assume "at_hole k s"
  from hole_runsD [OF assms(1) this] obtain s1 where 1: "m s = Inr ((), s1)" "at_hole k s1" by blast
  from hole_runsD [OF assms(2) 1(2)] 1(1) show "\<exists>s'. bnd m (\<lambda>_. f) s = Inr ((), s') \<and> at_hole k s'" by (simp add: bnd_run)
qed

lemma hole_runs_log: "hole_runs k (log_main example_console lvl n msg)"
  unfolding hole_runs_def log_main_def using hole_log by blast

lemma hole_runs_ret: "hole_runs k (ret ())"
  by (simp add: hole_runs_def)

lemma hole_runs_seq: "(\<And>m. m \<in> set ms \<Longrightarrow> hole_runs k m) \<Longrightarrow> hole_runs k (seq ms)"
  by (induction ms) (auto intro: hole_runs_bnd hole_runs_ret)

lemma hole_runs_for: "(\<And>x. x \<in> set xs \<Longrightarrow> hole_runs k (f x)) \<Longrightarrow> hole_runs k (for_eff f xs)"
  by (induction xs) (auto intro: hole_runs_bnd hole_runs_ret)

lemma hole_report: "hole_runs k (report_controller example_console no_texts example_hba)"
proof -
  have port: "hole_runs k (report_port example_console no_texts p)" for p
    unfolding report_port_def by (intro hole_runs_seq) (auto intro: hole_runs_log)
  have "count_ones 5 = 2" by code_simp
  then obtain xs wr where "port_slice_mut example_hba = Inr (xs, wr)"
    by (simp add: port_slice_mut_def slice_to_def example_hba_def port_count_def Let_def)
  then have eq: "bnd (lift_res (port_slice_mut example_hba)) (\<lambda>(ports, _). for_eff (report_port example_console no_texts) ports) =
      for_eff (report_port example_console no_texts) xs" by (simp add: fun_eq_iff bnd_run)
  show ?thesis unfolding report_controller_def eq by (intro hole_runs_bnd hole_runs_log hole_runs_for port)
qed

lemma hole_enable:
  assumes "at_hole k s" and "smi_cmd_port acpi = 0xB2" and "pm1b_cnt acpi = None" and "acpi_enable acpi = 2"
  shows "\<exists>s'. enable main_devices acpi s = Inr (True, s') \<and> at_hole k s'"
proof -
  have "300 = Suc 299" by simp
  then have "enable main_devices acpi s = Inr (True, emits [PortOut 8 0xB2 2, PortIn 16 (pm1a_cnt acpi) 1] s)"
    unfolding enable_def using assms(2-4) by (simp only: enable_poll.simps) (simp add: sci_poll_def res_simps Let_def main_devices_def)
  then show ?thesis using at_hole_emits [OF assms(1)] by auto
qed

lemma concat_map_nonempty: "x \<in> set xs \<Longrightarrow> f x \<noteq> [] \<Longrightarrow> concat (map f xs) \<noteq> []"
  by auto

lemma hole_scan:
  assumes "at_hole k s" and "devs \<noteq> []"
  shows "\<exists>s'. for_each (scan_device example_console main_headers) devs (None, s) = Inr (Some (), s') \<and> at_hole k s'"
proof -
  have H: "pci_headers_ok main_headers (\<lambda>_. (0, 1, 6, 1)) (\<lambda>_. Some ())"
    unfolding pci_headers_ok_def main_headers_def by (auto intro!: exI [of _ "[]"])
  have free: "SERIAL1_lock \<notin> held s" using assms(1) by (simp add: at_hole_def)
  have ep: "\<forall>(a, h) \<in> set devs. is_sata (0, 1, 6, 1) \<longrightarrow> Some () \<noteq> None" by auto
  obtain sp u where scan: "for_each (scan_device example_console main_headers) devs (None, s) =
      Inr (case rev (filter (\<lambda>(a, h). is_sata (0, 1, 6, 1)) devs) of [] \<Rightarrow> None | d # _ \<Rightarrow> Some (), (emits u s)\<lparr>SERIAL1 := sp\<rparr>)"
    using scan_devices_run [OF example_console_ok H free ep, of None] by blast
  have "filter (\<lambda>(a, h). is_sata (0, 1, 6, 1)) devs = devs" by (simp add: is_sata_def case_prod_unfold)
  then have "(case rev (filter (\<lambda>(a, h). is_sata (0, 1, 6, 1)) devs) of [] \<Rightarrow> None | d # _ \<Rightarrow> Some ()) = Some ()"
    using assms(2) by (auto split: list.split)
  with scan have "for_each (scan_device example_console main_headers) devs (None, s) = Inr (Some (), (emits u s)\<lparr>SERIAL1 := sp\<rparr>)" by simp
  moreover have "at_hole k ((emits u s)\<lparr>SERIAL1 := sp\<rparr>)" using assms(1) by (simp add: at_hole_def emits_def)
  ultimately show ?thesis by blast
qed

lemma hole_find:
  assumes "at_hole k s"
  shows "\<exists>devs s'. brute_force_find std_pci_types (function_exists main_devices std_pci_types) s = Inr (devs, s') \<and> devs \<noteq> [] \<and> at_hole k s'"
proof -
  let ?upd = "\<lambda>(i :: u32) (old :: u32) (v :: u32). old"
  have D: "has_pci main_devices ?upd example_bank" by (simp add: has_pci_def main_devices_def Let_def)
  obtain s1 where run: "brute_force_find std_pci_types (function_exists main_devices std_pci_types) s =
      Inr (concat (map (found std_pci_types (pci_regs ?upd example_bank s)) all_functions), s1)"
    using brute_force_find_run [OF std_pci_types_ok D] by blast
  have "contents (pci_after ?upd example_bank t) = contents example_bank" for t
    by (induction t rule: rev_induct) (auto simp: pci_after_def bank_step_def split: option.splits)
  then have "found std_pci_types (pci_regs ?upd example_bank s) (0, 31, 2) \<noteq> []"
    by (simp add: found_def present_def pci_regs_def example_bank_def Let_def)
  moreover have "(0, 31, 2) \<in> set all_functions" unfolding all_functions_set by simp
  ultimately have "concat (map (found std_pci_types (pci_regs ?upd example_bank s)) all_functions) \<noteq> []"
    by (rule concat_map_nonempty [rotated])
  moreover have "at_hole k s1" by (rule keepsD [OF brute_force_find_keeps [of "at_hole k", OF at_hole_emits] assms run])
  ultimately show ?thesis using run by (intro exI conjI)
qed

lemma hole_abar:
  assumes "at_hole 3 s"
  shows "\<exists>s1 s2. abar_region example_console main_headers () s = Inr ((0x5DF000, 0x1100), s1) \<and>
     map_abar std_crates flat_mapper 0x5DF000 0x1100 s1 = Inr ((), s2) \<and> at_hole 5 s2"
proof -
  have frames: "unat (0x5DF000 :: u64) = 0x5DC000 + 0x1000 * 3" "3 < (6 :: nat)" "4 = Suc 3"
    "unat (0x5E0000 :: u64) = 0x5DC000 + 0x1000 * 4" "4 < (6 :: nat)" "5 = Suc 4" by simp_all
  obtain s1 where 1: "log_main example_console ''INFO'' 70 [] s = Inr ((), s1)" "at_hole 3 s1"
    using hole_runsD [OF hole_runs_log assms] by blast
  obtain c where c: "map_abar_frame std_crates flat_mapper 0x5DF000 s1 = Inr ((), s1\<lparr>paging_ctx := c\<rparr>)" "at_hole 4 (s1\<lparr>paging_ctx := c\<rparr>)"
    using hole_device(2) [OF 1(2) frames(2,1,3)] by blast
  obtain s2 where c': "map_abar_frame std_crates flat_mapper 0x5E0000 (s1\<lparr>paging_ctx := c\<rparr>) = Inr ((), s2)" "at_hole 5 s2"
    using hole_device(2) [OF c(2) frames(5,4,6)] by blast
  have "range_inclusive std_crates (containing_address std_crates 0x5DF000) (containing_address std_crates 0x5E00FF) = [0x5DF000, 0x5E0000]"
    by (simp add: std_crates_def frame_no_def frame_addr_def)
  moreover have "checked_add (0x5DF000 :: u64) 0x1100 = Inr 0x5E0100" "checked_sub (0x5E0100 :: u64) 1 = Inr 0x5E00FF"
    "PhysAddr_new std_crates 0x5DF000 = Inr 0x5DF000" "PhysAddr_new std_crates 0x5E00FF = Inr 0x5E00FF"
    by (simp_all add: checked_add_def checked_sub_def crates_PhysAddr_new [OF std_crates_ok])
  ultimately have "map_abar std_crates flat_mapper 0x5DF000 0x1100 s1 = Inr ((), s2)"
    using c(1) c'(1) by (simp add: map_abar_def bnd_run)
  moreover have "abar_region example_console main_headers () s = Inr ((0x5DF000, 0x1100), s1)"
    using 1(1) by (simp add: abar_region_def main_headers_def bnd_run)
  ultimately show ?thesis using c'(2) by blast
qed

lemma main_crates_ok:
  "acpi_crates_ok std_crates flat_mapper main_devices std_pci_types main_acpi example_aml" "headers_ok main_headers"
  "runs_without_interrupts example_WI"
proof -
  show "acpi_crates_ok std_crates flat_mapper main_devices std_pci_types main_acpi example_aml"
    by (simp add: acpi_crates_ok_def through_handler_def aml_through_handler_def main_acpi_def example_aml_def table_bounded_def hole_info_def)
  show "headers_ok main_headers" by (auto simp: headers_ok_def main_headers_def only_emits_ret)
  show "runs_without_interrupts example_WI" by (simp add: runs_without_interrupts_def example_WI_def)
qed

lemma main_example_boots:
  "\<exists>s1 s2. println example_console [bytes ''Hello World!''] example_kernel = Inr ((), s1) \<and>
     kernel_init (example_platform main_devices) example_boot_info ((), s1) = Inr ((), (), s2) \<and> at_hole 0 s2"
proof -
  have "WRITER_lock \<notin> held example_kernel" by (simp add: example_kernel_def)
  from vga_print_run [OF example_console_ok(1) this example_kernel_shows, of "[bytes ''Hello World!''] @ [bytes [CHR 10]]"]
  obtain w where s1: "println example_console [bytes ''Hello World!''] example_kernel = Inr ((), example_kernel\<lparr>WRITER := w\<rparr>)"
    unfolding println_def by blast
  let ?s1 = "example_kernel\<lparr>WRITER := w\<rparr>"
  have "PICS ?s1 = controller_new PIC_1_OFFSET PIC_2_OFFSET" and held: "held ?s1 = {}" and "paging_ctx ?s1 = None"
    by (simp_all add: example_kernel_def controller_new_def PIC_1_OFFSET_def PIC_2_OFFSET_def)
  then obtain t ctx tables backing where
    run: "kernel_init (example_platform main_devices) example_boot_info ((), ?s1) = Inr ((), (), (emits t ?s1)\<lparr>interrupt_flag := True,
       paging_ctx := Some ctx, heap := \<lparr>heap_region = Some (HEAP_START, HEAP_SIZE), INITIALIZED = True\<rparr>, cpu := init_idt tables\<rparr>)"
      (is "_ = Inr ((), (), ?s2)")
    and inv: "paging_inv std_crates flat_mapper (\<lambda>m. m) backing {} (Some ctx)" and free: "494 \<le> card (free_frames (allocator ctx))"
    and mm: "memory_map (allocator ctx) = boot_memory_map example_boot_info" and len: "length (bitmap (allocator ctx)) = 2002"
    and hole: "\<forall>p. unat p < 0x444444440000 \<longrightarrow> mapper ctx p = None"
    by (rule example_boot_run)
  have "allocator_inv (allocator ctx)" using inv by (simp add: paging_inv_def paging_good_def)
  then have "at_hole 0 ?s2" using held free mm len hole by (simp add: at_hole_def emits_def)
  then show ?thesis using s1 run by blast
qed

lemma main_example_runs:
  "\<exists>acpi refs s. kernel_main_run (example_platform main_devices) main_acpi example_aml example_WI std_pci_types main_headers no_texts
     (\<lambda>_. example_hba) example_boot_info ((), example_kernel) = Inr (True, acpi, refs, s)"
proof -
  obtain s1 s2 where 1: "println example_console [bytes ''Hello World!''] example_kernel = Inr ((), s1)"
    "kernel_init (example_platform main_devices) example_boot_info ((), s1) = Inr ((), (), s2)" "at_hole 0 s2"
    using main_example_boots by blast
  let ?acpi = "\<lparr>tables = (), aml_context = (), smi_cmd_port = 0xB2, pm1a_cnt = 0x604, pm1b_cnt = None, acpi_enable = 2\<rparr>"
  obtain refs s3 where 2: "bios_get_acpi std_crates main_acpi example_aml (log_acpi example_console) (machine_mmap std_crates flat_mapper True) s2 =
      Inr (?acpi, refs, s3)" "at_hole 1 s3" using hole_acpi [OF 1(3)] by blast
  have 3: "platform_info main_acpi ?acpi (refs, s3) = Inr (ApicModel hole_info, refs, s3)"
    by (simp add: platform_info_def main_acpi_def)
  obtain s4 where 4: "enable main_devices ?acpi s3 = Inr (True, s4)" "at_hole 1 s4"
    using hole_enable [OF 2(2), of ?acpi] by auto
  obtain s5 where 5: "log_main example_console ''DEBUG'' 30 [bytes ''Apic handover start''] s4 = Inr ((), s5)" "at_hole 1 s5"
    using hole_runsD [OF hole_runs_log 4(2)] by blast
  obtain apic s6 where 6: "apic_init std_crates flat_mapper main_devices example_aml example_WI hole_info (?acpi, refs, s5) =
      Inr (apic, ?acpi, refs, s6)" "at_hole 3 s6" using hole_apic [OF 5(2), of ?acpi refs] by auto
  obtain s7 where 7: "log_main example_console ''DEBUG'' 38 [bytes ''Apic handover end''] s6 = Inr ((), s7)" "at_hole 3 s7"
    using hole_runsD [OF hole_runs_log 6(2)] by blast
  obtain devs s8 where 8: "brute_force_find std_pci_types (function_exists main_devices std_pci_types) s7 = Inr (devs, s8)"
    "devs \<noteq> []" "at_hole 3 s8" using hole_find [OF 7(2)] by blast
  obtain s9 where 9: "for_each (scan_device example_console main_headers) devs (None, s8) = Inr (Some (), s9)" "at_hole 3 s9"
    using hole_scan [OF 8(3,2)] by blast
  obtain s10 s11 where 10: "abar_region example_console main_headers () s9 = Inr ((0x5DF000, 0x1100), s10)"
    "map_abar std_crates flat_mapper 0x5DF000 0x1100 s10 = Inr ((), s11)" "at_hole 5 s11" using hole_abar [OF 9(2)] by blast
  obtain s12 where 12: "report_controller example_console no_texts example_hba s11 = Inr ((), s12)" "at_hole 5 s12"
    using hole_runsD [OF hole_report 10(3)] by blast
  obtain s13 where 13: "log_main example_console ''INFO'' 112 [bytes ''Now perish''] s12 = Inr ((), s13)"
    using hole_runsD [OF hole_runs_log 12(2)] by blast
  have n: "AmlName_from_str example_aml (sleep_state_name S5) = Some (sleep_state_name S5)" by (simp add: example_aml_def)
  have m: "invoke_method example_aml (sleep_state_name S5) None (aml_context ?acpi, refs, s13) = Inr (Some [0x0705], (), refs, s13)"
    by (simp add: example_aml_def)
  have "\<exists>s. set_sleep_state example_aml S5 (?acpi, refs, s13) = Inr (True, ?acpi, refs, s)"
    unfolding set_sleep_state_run [OF n m] by (simp add: example_aml_def Let_def)
  then obtain s where 14: "set_sleep_state example_aml S5 (?acpi, refs, s13) = Inr (True, ?acpi, refs, s)" ..
  have P: "plat_crates (example_platform main_devices) = std_crates" "plat_mapper (example_platform main_devices) = flat_mapper"
    "plat_devices (example_platform main_devices) = main_devices" "plat_console (example_platform main_devices) = example_console"
    by (simp_all add: example_platform_def)
  show ?thesis
    by (intro exI [of _ ?acpi] exI [of _ refs] exI [of _ s])
       (simp add: kernel_main_run_def Let_def P 1(1,2) 2(1) 3 4(1) 5(1) 6(1) 7(1) 8(1) 9(1) 10(1,2) 12(1) 13 14)
qed

section \<open>From the first line to the last\<close>



end
