(* ===== verification/Spec2Isabelle.thy ===== *)
theory Spec2Isabelle
  imports Locking Reference_Allocator Kernel_Main_Result
begin

text \<open>
  Capucho OS, an x86-64 kernel in Rust: a model of its code and the theorems about it. All paths are
  below \<^verbatim>\<open>src/\<close>.

  \<^bold>\<open>The program.\<close> \<^verbatim>\<open>main.rs\<close> starts the kernel: \<^verbatim>\<open>init\<close> of \<^verbatim>\<open>lib.rs\<close> loads the descriptor tables, programs the
  interrupt controller and the timer, and sets up memory; then the entry point reads the ACPI tables
  through a handler that maps physical memory on demand, enables ACPI, hands the interrupts over to the
  APICs, scans the PCI bus for the SATA controller, maps and reports its registers, and turns the machine
  off. Interrupt handlers run in between, and everything reports to a text screen and a serial line.

  \<^bold>\<open>Theories and code.\<close>
  \<^item> \<open>Rust_Prelude\<close>: panics as values, checked arithmetic, indexing, ranges, loops, effects on a state, formatting.
  \<^item> \<open>Paging_Interface\<close>: the parts of the crates \<^verbatim>\<open>x86_64\<close> and \<^verbatim>\<open>bootloader\<close> in use, as parameters, and the
    locale of a source of frames.
  \<^item> \<open>Frame_Allocator\<close>: \<^verbatim>\<open>memory/frame_allocator/mod.rs\<close>, the bitmap allocator (\<open>allocate_frame\<close>,
    \<open>deallocate_frame\<close>, \<open>recalculate_next_usable\<close>, \<open>get_frame_ty\<close>).
  \<^item> \<open>Reference_Allocator\<close>: a reference allocator over a set of frames, and its equivalence with the bitmap allocator.
  \<^item> \<open>Bootstrap_Allocator\<close>: \<^verbatim>\<open>memory/frame_allocator/bootstrap.rs\<close>; \<open>Allocator_Init\<close>: the constructor, which moves
    from one allocator to the other.
  \<^item> \<open>Paging\<close>: \<^verbatim>\<open>memory/mod.rs\<close> (\<open>memory_init\<close>, \<open>mmap_dev\<close>, \<open>unmap\<close>, \<open>map_range\<close>) and \<^verbatim>\<open>allocator.rs\<close> (\<open>init_heap\<close>).
    \<open>Paging_Safety\<close>: the invariant that the heap stays backed by frames of its own and that every guard can be given back.
  \<^item> \<open>Hardware\<close>, \<open>Registers\<close>, \<open>Machine\<close>: the trace of port and memory accesses, register banks behind an
    index and a data register, and the machine with its paging context.
  \<^item> \<open>Interrupt_Controller\<close>: \<^verbatim>\<open>interrupts/controller.rs\<close>; \<open>Timer\<close>: \<open>pit_init\<close>, \<open>sleep\<close>, \<open>hlt_loop\<close> of \<^verbatim>\<open>lib.rs\<close>.
  \<^item> \<open>Pci\<close>: \<^verbatim>\<open>pci.rs\<close>.
  \<^item> \<open>Acpi_Handler\<close>: the reference-counted mappings of \<^verbatim>\<open>acpi.rs\<close> and \<^verbatim>\<open>acpi/handlers.rs\<close>; \<open>Aml_Handler\<close>: the accessors
    for the AML interpreter; \<open>Acpi\<close>: \<open>bios_get_acpi\<close>, \<open>enable\<close> and the sleep states.
  \<^item> \<open>Redirection\<close> and \<open>Io_Apic\<close>: \<^verbatim>\<open>apic.rs\<close>, the redirection entries and the hand-over \<open>apic_init\<close>.
  \<^item> \<open>Vga_Buffer\<close>: the writer of \<^verbatim>\<open>vga_buffer.rs\<close>; \<open>Console\<close>: the kernel state with its locks, the print
    functions of \<^verbatim>\<open>vga_buffer.rs\<close> and \<^verbatim>\<open>serial.rs\<close>, and \<^verbatim>\<open>logger.rs\<close>.
  \<^item> \<open>Descriptor_Tables\<close>: \<^verbatim>\<open>gdt.rs\<close> and the IDT of \<^verbatim>\<open>interrupts/mod.rs\<close>; \<open>Interrupts\<close>: the handlers of the latter.
  \<^item> \<open>Locking\<close>: the order of locks and interrupt switches of all these operations, with interrupts and faults at any point.
  \<^item> \<open>Ahci\<close>: \<^verbatim>\<open>ahci.rs\<close>; \<open>Kernel\<close>: \<open>init\<close> and the test harness of \<^verbatim>\<open>lib.rs\<close>; \<open>Kernel_Main\<close>: \<^verbatim>\<open>main.rs\<close>.
  \<^item> \<open>Running_Kernel\<close>: the booted kernel as a transition system whose steps are its operations, with
    interrupts wherever they are enabled; \<open>Acpi_Safety\<close>: the calls that the ACPI crates make to the
    handler keep the state of the kernel sound; \<open>Kernel_Main_Safety\<close> and \<open>Kernel_Main_Result\<close>: the same for each part of
    \<^verbatim>\<open>kernel_main\<close> and for the whole of it, and a machine on which it runs to the end.

  \<^bold>\<open>State and operations.\<close> A structure is a record with the fields of the source and a machine integer is a word
  of its width. A function that can panic returns \<open>panic + 'a\<close>; one with effects also returns the new
  state. Every access to a port or a device register is appended to the trace of the record \<open>hw\<close>, and what a
  device answers is a function of the trace so far, so that a device is specified as a fold over the
  trace. The record grows with the layers: \<open>hw\<close>, \<open>machine\<close> (paging context, heap, controller) and \<open>kernel\<close>
  (held locks, screen, serial port, keyboard, descriptor tables). Waiting for a spin lock that is held
  is the panic value \<open>SpinsForever\<close>.

  \<^bold>\<open>What the lemmas show.\<close> The frame allocator keeps its invariant, hands out the lowest free frame and never
  the same one twice, also across the change of allocators; mappings use fresh frames, grant the flags
  the frame type allows and can be undone; the ACPI handler counts users exactly and keeps what is in
  use mapped. The interrupt controllers end up with their vectors, modes and masks, the timer with its
  rate, and interrupts are acknowledged before and after the hand-over. The screen shows the last rows of the text written, and
  a log record is one line on the serial port. Initialisation returns with the heap mapped and interrupts
  enabled, and no interleaving of the kernel with its interrupts blocks on a lock. In every state that the
  running kernel reaches the heap is intact, no lock is left held and interrupts are handled; \<^verbatim>\<open>kernel_main\<close> gets from
  the first line to turning the machine off with the device windows mapped and the heap intact,
  whatever AML code runs through its handler. Faults and panics are reported wherever they strike, unless a
  console is locked. Some theorems state what the code
  does where this is not what it means to do: the frame types, freed frames, the length of the bitmap
  slice, guards that free a frame handed out in the meantime, the cascade of the PICs, the setters of redirection entries, the 8 and 16 bit accesses to
  configuration space and the ports of a controller with gaps.

  \<^bold>\<open>Interfaces.\<close> Locales state what one part relies on: \<open>frame_source\<close> (both allocators), \<open>bit_store\<close> (the bitmap),
  \<open>device_mapper\<close> (the paging context and the machine), \<open>register_bank\<close> (configuration space and I/O APIC),
  \<open>toggled_bit\<close> (the flags of an entry) and \<open>split_address\<close> (the two halves of an address). Each is
  interpreted on the definitions of the model.

  \<^bold>\<open>Bounds.\<close> All loops of the source are bounded and are recursions over the list they run through; \<open>enable\<close>
  polls at most 300 times, as in the source. Only \<open>hlt_loop\<close> does not end; it is a partial function whose value is
  \<open>None\<close>. The constructor needs four usable frames for each page of the bitmap, and the heap 500 more: a
  frame and up to three page tables for each page.

  \<^bold>\<open>Not modelled.\<close> The crates are parameters: the page tables of \<^verbatim>\<open>x86_64\<close>, \<^verbatim>\<open>acpi\<close>, \<^verbatim>\<open>aml\<close>, \<^verbatim>\<open>pci_types\<close>, the
  UART and keyboard drivers, \<^verbatim>\<open>log\<close>, the buddy allocator behind the heap, and the \<^verbatim>\<open>Debug\<close> texts of their types.
  Vectors and maps on the heap are values; running out of heap is not modelled. \<^verbatim>\<open>log::trace!\<close> is
  below the level the kernel sets and does nothing. Interrupts are delivered between any two steps
  in \<open>Locking\<close>, where an operation is the sequence of its locks and interrupt switches, and between two operations in \<open>Running_Kernel\<close>;
  the other theories run each operation on its own. The registers of the SATA controller are read
  once as a structure. The tests that the compiler collects are arguments of the runner. A panic is a result and its state is dropped, since the
  kernel only reports it and halts. There is one processor, as in the source.
\<close>

section \<open>Interrupts after the hand-over\<close>



end
